(* ===== verification/Prelude.thy ===== *)
theory Prelude
  imports Main "HOL-Library.Word"
begin

text \<open>
  Shared vocabulary of the development: the kernel's machine integers, panics as values,
  Rust's checked and overflow-checked arithmetic, slices, little-endian integers,
  the iterator method \<open>position\<close>, and the generic lemmas the components use.

  The kernel is built with Cargo's default (debug) profile, in which the plain operators
  \<open>+\<close>, \<open>-\<close> and \<open>*\<close> panic on overflow; the operators \<open>add_ovf\<close>, \<open>sub_ovf\<close> and
  \<open>mul_ovf\<close> below write that out.
\<close>

unbundle bit_operations_syntax

section \<open>Machine integers and results\<close>

type_synonym u8 = "8 word"
type_synonym u16 = "16 word"
type_synonym u32 = "32 word"
type_synonym u64 = "64 word"

text \<open>A panic carries its message; a computation either panics or returns.\<close>

datatype panic = Panic string

type_synonym 'a result = "panic + 'a"

abbreviation panic :: "string \<Rightarrow> 'a result" where
  "panic msg \<equiv> Inl (Panic msg)"

definition bind_result :: "'a result \<Rightarrow> ('a \<Rightarrow> 'b result) \<Rightarrow> 'b result" where
  "bind_result m f = (case m of Inl e \<Rightarrow> Inl e | Inr x \<Rightarrow> f x)"

definition expect :: "string \<Rightarrow> 'a option \<Rightarrow> 'a result" where
  "expect msg x = (case x of None \<Rightarrow> panic msg | Some v \<Rightarrow> Inr v)"

definition returns :: "'a result \<Rightarrow> bool" where
  "returns m = (case m of Inl _ \<Rightarrow> False | Inr _ \<Rightarrow> True)"

named_theorems result_simps \<open>evaluation of panics and results\<close>

lemma bind_result_simps [simp, result_simps]:
  "bind_result (Inl e) f = Inl e"
  "bind_result (Inr x) f = f x"
  by (simp_all add: bind_result_def)

lemma expect_simps [simp, result_simps]:
  "expect msg None = panic msg"
  "expect msg (Some v) = Inr v"
  by (simp_all add: expect_def)

lemma returns_simps [simp, result_simps]:
  "\<not> returns (Inl e)"
  "returns (Inr x)"
  by (simp_all add: returns_def)

lemma returns_iff: "returns m \<longleftrightarrow> (\<exists>x. m = Inr x)"
  by (cases m) simp_all

lemma bind_result_Inr_iff:
  "bind_result m f = Inr y \<longleftrightarrow> (\<exists>x. m = Inr x \<and> f x = Inr y)"
  by (cases m) simp_all

lemma bind_result_Inl_iff:
  "bind_result m f = Inl e \<longleftrightarrow> m = Inl e \<or> (\<exists>x. m = Inr x \<and> f x = Inl e)"
  by (cases m) simp_all

lemma bind_result_assoc:
  "bind_result (bind_result m f) g = bind_result m (\<lambda>x. bind_result (f x) g)"
  by (cases m) simp_all

lemma expect_Inr_iff [simp]: "expect msg x = Inr v \<longleftrightarrow> x = Some v"
  by (cases x) simp_all

section \<open>Checked arithmetic\<close>

definition checked_add :: "'a::len word \<Rightarrow> 'a word \<Rightarrow> 'a word option" where
  "checked_add a b = (if unat a + unat b < 2 ^ LENGTH('a) then Some (a + b) else None)"

definition checked_sub :: "'a::len word \<Rightarrow> 'a word \<Rightarrow> 'a word option" where
  "checked_sub a b = (if b \<le> a then Some (a - b) else None)"

definition checked_mul :: "'a::len word \<Rightarrow> 'a word \<Rightarrow> 'a word option" where
  "checked_mul a b = (if unat a * unat b < 2 ^ LENGTH('a) then Some (a * b) else None)"

definition add_ovf :: "'a::len word \<Rightarrow> 'a word \<Rightarrow> 'a word result" where
  "add_ovf a b = expect ''attempt to add with overflow'' (checked_add a b)"

definition sub_ovf :: "'a::len word \<Rightarrow> 'a word \<Rightarrow> 'a word result" where
  "sub_ovf a b = expect ''attempt to subtract with overflow'' (checked_sub a b)"

definition mul_ovf :: "'a::len word \<Rightarrow> 'a word \<Rightarrow> 'a word result" where
  "mul_ovf a b = expect ''attempt to multiply with overflow'' (checked_mul a b)"

lemma checked_add_Some_iff:
  "checked_add a b = Some c \<longleftrightarrow> unat a + unat b = unat c"
  for a b c :: "'a::len word"
proof
  assume "checked_add a b = Some c"
  then show "unat a + unat b = unat c"
    by (auto simp: checked_add_def unat_word_ariths split: if_splits)
next
  assume eq: "unat a + unat b = unat c"
  moreover have "unat c < 2 ^ LENGTH('a)" by (rule unsigned_less)
  moreover have "a + b = c"
    using eq by (simp add: word_unat_eq_iff unat_word_ariths)
  ultimately show "checked_add a b = Some c"
    by (simp add: checked_add_def)
qed

lemma checked_sub_Some_iff:
  "checked_sub a b = Some c \<longleftrightarrow> unat b + unat c = unat a"
  for a b c :: "'a::len word"
proof
  assume "checked_sub a b = Some c"
  then show "unat b + unat c = unat a"
    by (auto simp: checked_sub_def unat_sub word_le_nat_alt split: if_splits)
next
  assume eq: "unat b + unat c = unat a"
  then have le: "b \<le> a" by (simp add: word_le_nat_alt)
  have "b + c = a"
    using eq by (simp add: word_unat_eq_iff unat_word_ariths)
  then have "a - b = c" by auto
  with le show "checked_sub a b = Some c"
    by (simp add: checked_sub_def)
qed

lemma checked_mul_Some_iff:
  "checked_mul a b = Some c \<longleftrightarrow> unat a * unat b = unat c"
  for a b c :: "'a::len word"
proof
  assume "checked_mul a b = Some c"
  then show "unat a * unat b = unat c"
    by (auto simp: checked_mul_def unat_word_ariths split: if_splits)
next
  assume eq: "unat a * unat b = unat c"
  moreover have "unat c < 2 ^ LENGTH('a)" by (rule unsigned_less)
  moreover have "a * b = c"
    using eq by (simp add: word_unat_eq_iff unat_word_ariths)
  ultimately show "checked_mul a b = Some c"
    by (simp add: checked_mul_def)
qed

lemma checked_add_None_iff:
  "checked_add a b = None \<longleftrightarrow> 2 ^ LENGTH('a) \<le> unat a + unat b"
  for a b :: "'a::len word"
  by (simp add: checked_add_def not_less)

lemma add_ovf_Inr_iff: "add_ovf a b = Inr c \<longleftrightarrow> unat a + unat b = unat c"
  by (simp add: add_ovf_def checked_add_Some_iff)

lemma sub_ovf_Inr_iff: "sub_ovf a b = Inr c \<longleftrightarrow> unat b + unat c = unat a"
  by (simp add: sub_ovf_def checked_sub_Some_iff)

lemma mul_ovf_Inr_iff: "mul_ovf a b = Inr c \<longleftrightarrow> unat a * unat b = unat c"
  by (simp add: mul_ovf_def checked_mul_Some_iff)

lemma add_ovf_no_overflow:
  "unat a + unat b < 2 ^ LENGTH('a) \<Longrightarrow> add_ovf a b = Inr (a + b)"
  for a b :: "'a::len word"
  by (simp add: add_ovf_def checked_add_def)

lemma mul_ovf_no_overflow:
  "unat a * unat b < 2 ^ LENGTH('a) \<Longrightarrow> mul_ovf a b = Inr (a * b)"
  for a b :: "'a::len word"
  by (simp add: mul_ovf_def checked_mul_def)

section \<open>For loops\<close>

text \<open>
  \<open>for x in xs { body }\<close> over a state, stopping at the first panic. The rule \<open>for_each_upt\<close>
  is total: it also gives that the loop returns.
\<close>

fun for_each :: "'i list \<Rightarrow> ('i \<Rightarrow> 's \<Rightarrow> 's result) \<Rightarrow> 's \<Rightarrow> 's result" where
  "for_each [] body s = Inr s"
| "for_each (i # is) body s = bind_result (body i s) (for_each is body)"

lemma for_each_append:
  "for_each (xs @ ys) body s = bind_result (for_each xs body s) (for_each ys body)"
proof (induction xs arbitrary: s)
  case Nil
  then show ?case by simp
next
  case (Cons x xs)
  then show ?case by (cases "body x s") simp_all
qed

lemma for_each_upt:
  assumes "P lo s" and "lo \<le> hi"
    and "\<And>i s. lo \<le> i \<Longrightarrow> i < hi \<Longrightarrow> P i s \<Longrightarrow> \<exists>s'. body i s = Inr s' \<and> P (Suc i) s'"
  shows "\<exists>s'. for_each [lo..<hi] body s = Inr s' \<and> P hi s'"
  using assms(2,1,3)
proof (induction "hi - lo" arbitrary: lo s)
  case 0
  then show ?case by simp
next
  case (Suc n)
  then have lt: "lo < hi" by simp
  then obtain s1 where s1: "body lo s = Inr s1" "P (Suc lo) s1"
    using Suc.prems by blast
  have "\<exists>s'. for_each [Suc lo..<hi] body s1 = Inr s' \<and> P hi s'"
    using Suc.hyps(1) [of "Suc lo" s1] Suc.hyps(2) Suc.prems(3) s1(2) lt by simp
  with lt s1(1) show ?case by (simp add: upt_conv_Cons)
qed

section \<open>Slices and searches\<close>

text \<open>\<open>bytes.get(start..end)\<close>: the slice, or \<open>None\<close> when the range is not inside the list.\<close>

definition get_range :: "'a list \<Rightarrow> nat \<Rightarrow> nat \<Rightarrow> 'a list option" where
  "get_range xs s e = (if s \<le> e \<and> e \<le> length xs then Some (take (e - s) (drop s xs)) else None)"

lemma get_range_Some_iff:
  "get_range xs s e = Some ys \<longleftrightarrow> s \<le> e \<and> e \<le> length xs \<and> ys = take (e - s) (drop s xs)"
  by (auto simp: get_range_def)

lemma get_range_length: "get_range xs s e = Some ys \<Longrightarrow> length ys = e - s"
  by (auto simp: get_range_def split: if_splits)

text \<open>Writing a block of bytes into a buffer at an index, as \<open>copy_from_slice\<close> does.\<close>

definition overwrite :: "'a list \<Rightarrow> nat \<Rightarrow> 'a list \<Rightarrow> 'a list" where
  "overwrite xs i ys = take i xs @ ys @ drop (i + length ys) xs"

lemma length_overwrite [simp]:
  "i + length ys \<le> length xs \<Longrightarrow> length (overwrite xs i ys) = length xs"
  by (simp add: overwrite_def)

lemma nth_overwrite:
  assumes "i + length ys \<le> length xs"
  shows "overwrite xs i ys ! k =
    (if i \<le> k \<and> k < i + length ys then ys ! (k - i) else xs ! k)"
proof -
  have len: "length (take i xs) = i" using assms by simp
  consider "k < i" | "i \<le> k \<and> k < i + length ys" | "i + length ys \<le> k" by linarith
  then show ?thesis
  proof cases
    case 1
    then show ?thesis using len by (simp add: overwrite_def nth_append)
  next
    case 2
    then have "k - i < length ys" by arith
    with 2 show ?thesis using len by (simp add: overwrite_def nth_append)
  next
    case 3
    then have "\<not> k - i < length ys" by arith
    moreover have "k - (i + length ys) + (i + length ys) = k" using 3 by simp
    moreover have "drop (i + length ys) xs ! (k - (i + length ys)) = xs ! k"
      using assms 3 by (simp add: nth_drop)
    ultimately show ?thesis using 3 len
      by (simp add: overwrite_def nth_append diff_diff_add)
  qed
qed

text \<open>\<open>iter().position(p)\<close>.\<close>

fun position :: "('a \<Rightarrow> bool) \<Rightarrow> 'a list \<Rightarrow> nat option" where
  "position p [] = None"
| "position p (x # xs) = (if p x then Some 0 else map_option Suc (position p xs))"

lemma position_Some_iff:
  "position p xs = Some i \<longleftrightarrow> i < length xs \<and> p (xs ! i) \<and> (\<forall>j<i. \<not> p (xs ! j))"
proof (induction xs arbitrary: i)
  case Nil
  then show ?case by simp
next
  case (Cons x xs)
  show ?case
  proof (cases i)
    case 0
    then show ?thesis by (auto split: option.splits)
  next
    case (Suc k)
    have "(\<forall>j<Suc k. \<not> p ((x # xs) ! j)) \<longleftrightarrow> \<not> p x \<and> (\<forall>j<k. \<not> p (xs ! j))"
      by (auto simp: less_Suc_eq_0_disj)
    with Suc Cons show ?thesis by auto
  qed
qed

lemma position_None_iff: "position p xs = None \<longleftrightarrow> (\<forall>x\<in>set xs. \<not> p x)"
  by (induction xs) auto

lemma position_bound: "position p xs = Some i \<Longrightarrow> i < length xs"
  by (simp add: position_Some_iff)

section \<open>Little-endian integers\<close>

text \<open>\<open>from_le_bytes\<close> and \<open>to_le_bytes\<close> of the unsigned integer types.\<close>

fun from_le_bytes :: "u8 list \<Rightarrow> 'a::len word" where
  "from_le_bytes [] = 0"
| "from_le_bytes (b # bs) = ucast b OR push_bit 8 (from_le_bytes bs)"

definition to_le_bytes :: "nat \<Rightarrow> 'a::len word \<Rightarrow> u8 list" where
  "to_le_bytes n w = map (\<lambda>i. ucast (drop_bit (8 * i) w)) [0..<n]"

lemma length_to_le_bytes [simp]: "length (to_le_bytes n w) = n"
  by (simp add: to_le_bytes_def)

lemma bit_from_le_bytes:
  "bit (from_le_bytes bs :: 'a::len word) n \<longleftrightarrow>
     n < LENGTH('a) \<and> n div 8 < length bs \<and> bit (bs ! (n div 8)) (n mod 8)"
proof (induction bs arbitrary: n)
  case Nil
  then show ?case by simp
next
  case (Cons b bs)
  show ?case
  proof (cases "n < 8")
    case True
    then show ?thesis
      by (auto simp: bit_or_iff bit_push_bit_iff bit_ucast_iff bit_imp_le_length)
  next
    case False
    then have eq: "n div 8 = Suc ((n - 8) div 8)" "(n - 8) mod 8 = n mod 8"
      by (simp_all add: le_div_geq le_mod_geq not_less)
    from False have "\<not> bit b n"
      by (auto dest: bit_imp_le_length)
    with False eq show ?thesis
      by (auto simp: bit_or_iff bit_push_bit_iff bit_ucast_iff Cons.IH)
  qed
qed

lemma from_to_le_bytes:
  fixes w :: "'a::len word"
  assumes "LENGTH('a) \<le> 8 * n"
  shows "from_le_bytes (to_le_bytes n w) = w"
proof (rule bit_word_eqI)
  fix k
  assume k: "k < LENGTH('a)"
  then have "k div 8 < n" using assms by auto
  then show "bit (from_le_bytes (to_le_bytes n w) :: 'a word) k = bit w k"
    using k by (simp add: bit_from_le_bytes to_le_bytes_def bit_ucast_iff bit_drop_bit_eq)
qed

section \<open>Numbers as 64-bit words\<close>

lemma unat_of_nat_u64: "n < 2 ^ 64 \<Longrightarrow> unat (of_nat n :: u64) = n"
  by (simp add: unat_of_nat)

lemma unat_u64_less: "unat (a :: u64) < 2 ^ 64"
  by (rule less_le_trans [OF unsigned_less]) simp

end
