(* ===== verification/Ring_Queue.thy ===== *)
theory Ring_Queue
  imports Prelude
begin

text \<open>
  The kernel keeps two fixed-capacity ring buffers (\<open>ReadyQueue\<close> of the scheduler and
  \<open>InputQueue\<close> of the keyboard). This theory holds what they share: the list a ring
  buffer stands for, the effect of writing one slot behind the last element and of
  advancing the head, and the interface \<open>bounded_fifo\<close> that the two queues implement and
  their clients (the scheduler's rotation, the popping loop of \<open>sys_read_stdin\<close>) use.
\<close>

section \<open>The list a ring buffer stands for\<close>

definition ring_list :: "'a list \<Rightarrow> nat \<Rightarrow> nat \<Rightarrow> 'a list" where
  "ring_list xs h n = map (\<lambda>i. xs ! ((h + i) mod length xs)) [0..<n]"

lemma length_ring_list [simp]: "length (ring_list xs h n) = n"
  by (simp add: ring_list_def)

lemma nth_ring_list: "i < n \<Longrightarrow> ring_list xs h n ! i = xs ! ((h + i) mod length xs)"
  by (simp add: ring_list_def)

lemma ring_list_0 [simp]: "ring_list xs h 0 = []"
  by (simp add: ring_list_def)

lemma ring_index_le:
  fixes m :: nat
  assumes "i \<le> j" and "j < m" and "(h + i) mod m = (h + j) mod m"
  shows "i = j"
proof -
  have "m dvd (h + j) - (h + i)"
    using assms(1,3) mod_eq_dvd_iff_nat [of "h + i" "h + j" m] by simp
  then have "m dvd j - i" by simp
  moreover have "j - i < m" using assms(2) by simp
  ultimately have "j - i = 0" by (auto dest: nat_dvd_not_less)
  with assms(1) show ?thesis by simp
qed

lemma ring_index_inj:
  fixes m :: nat
  assumes "i < m" and "j < m" and "(h + i) mod m = (h + j) mod m"
  shows "i = j"
  using ring_index_le [of i j m h] ring_index_le [of j i m h] assms by (metis nat_le_linear)

lemma ring_list_write_back:
  assumes "n < length xs"
  shows "ring_list (xs[(h + n) mod length xs := x]) h (Suc n) = ring_list xs h n @ [x]"
proof (rule nth_equalityI)
  show "length (ring_list (xs[(h + n) mod length xs := x]) h (Suc n)) =
        length (ring_list xs h n @ [x])" by simp
next
  fix i
  assume "i < length (ring_list (xs[(h + n) mod length xs := x]) h (Suc n))"
  then have i: "i < Suc n" by simp
  have pos: "0 < length xs" using assms by (cases xs) auto
  show "ring_list (xs[(h + n) mod length xs := x]) h (Suc n) ! i = (ring_list xs h n @ [x]) ! i"
  proof (cases "i = n")
    case True
    then show ?thesis using pos by (simp add: nth_ring_list nth_append)
  next
    case False
    with i have "i < n" by simp
    then have "(h + i) mod length xs \<noteq> (h + n) mod length xs"
      using ring_index_inj [of i "length xs" n h] assms by auto
    then show ?thesis using \<open>i < n\<close> i by (simp add: nth_ring_list nth_append)
  qed
qed

lemma ring_list_pop_front:
  assumes "0 < n"
  shows "ring_list xs h n = xs ! (h mod length xs) # ring_list xs ((h + 1) mod length xs) (n - 1)"
proof (rule nth_equalityI)
  show "length (ring_list xs h n) =
        length (xs ! (h mod length xs) # ring_list xs ((h + 1) mod length xs) (n - 1))"
    using assms by simp
next
  fix i
  assume "i < length (ring_list xs h n)"
  then have i: "i < n" by simp
  show "ring_list xs h n ! i =
        (xs ! (h mod length xs) # ring_list xs ((h + 1) mod length xs) (n - 1)) ! i"
  proof (cases i)
    case 0
    then show ?thesis using i by (simp add: nth_ring_list)
  next
    case (Suc k)
    then have "((h + 1) mod length xs + k) mod length xs = (h + i) mod length xs"
      by (simp add: mod_add_left_eq)
    then show ?thesis using i Suc by (simp add: nth_ring_list)
  qed
qed

section \<open>The interface of a bounded first-in first-out queue\<close>

text \<open>
  \<open>push q x\<close> is \<open>None\<close> when the queue refuses the element (it panics or drops it,
  depending on the queue); \<open>pop\<close> returns the popped element and the new queue.
\<close>

fun push_list :: "('q \<Rightarrow> 'a \<Rightarrow> 'q option) \<Rightarrow> 'q \<Rightarrow> 'a list \<Rightarrow> 'q option" where
  "push_list push q [] = Some q"
| "push_list push q (x # xs) = (case push q x of None \<Rightarrow> None | Some q' \<Rightarrow> push_list push q' xs)"

fun pop_upto :: "('q \<Rightarrow> 'a option \<times> 'q) \<Rightarrow> nat \<Rightarrow> 'q \<Rightarrow> 'a list \<times> 'q" where
  "pop_upto pop 0 q = ([], q)"
| "pop_upto pop (Suc n) q =
     (case pop q of
        (None, q') \<Rightarrow> ([], q')
      | (Some x, q') \<Rightarrow> (let (xs, q'') = pop_upto pop n q' in (x # xs, q'')))"

locale bounded_fifo =
  fixes empty :: "'q"
    and push :: "'q \<Rightarrow> 'a \<Rightarrow> 'q option"
    and pop :: "'q \<Rightarrow> 'a option \<times> 'q"
    and contents :: "'q \<Rightarrow> 'a list"
    and invar :: "'q \<Rightarrow> bool"
    and capacity :: nat
  assumes invar_empty: "invar empty"
    and contents_empty: "contents empty = []"
    and contents_bound: "invar q \<Longrightarrow> length (contents q) \<le> capacity"
    and push_full: "invar q \<Longrightarrow> length (contents q) = capacity \<Longrightarrow> push q x = None"
    and push_room: "invar q \<Longrightarrow> length (contents q) < capacity \<Longrightarrow>
      \<exists>q'. push q x = Some q' \<and> invar q' \<and> contents q' = contents q @ [x]"
    and pop_empty: "invar q \<Longrightarrow> contents q = [] \<Longrightarrow> pop q = (None, q)"
    and pop_cons: "invar q \<Longrightarrow> contents q = y # ys \<Longrightarrow>
      \<exists>q'. pop q = (Some y, q') \<and> invar q' \<and> contents q' = ys"
begin

lemma push_Some_iff:
  assumes "invar q"
  shows "(\<exists>q'. push q x = Some q') \<longleftrightarrow> length (contents q) < capacity"
proof
  assume "\<exists>q'. push q x = Some q'"
  then have "length (contents q) \<noteq> capacity" using push_full [OF assms, of x] by auto
  with contents_bound [OF assms] show "length (contents q) < capacity" by simp
next
  assume "length (contents q) < capacity"
  then show "\<exists>q'. push q x = Some q'" using push_room [OF assms, of x] by blast
qed

lemma push_SomeD:
  assumes "invar q" and "push q x = Some q'"
  shows "invar q' \<and> contents q' = contents q @ [x]"
proof -
  have "length (contents q) < capacity" using assms push_Some_iff by blast
  then show ?thesis using push_room [OF assms(1), of x] assms(2) by auto
qed

lemma push_list_contents:
  assumes "invar q" and "length (contents q) + length xs \<le> capacity"
  shows "\<exists>q'. push_list push q xs = Some q' \<and> invar q' \<and> contents q' = contents q @ xs"
  using assms
proof (induction xs arbitrary: q)
  case Nil
  then show ?case by simp
next
  case (Cons x xs)
  then obtain q1 where q1: "push q x = Some q1" "invar q1" "contents q1 = contents q @ [x]"
    using push_room [of q x] by auto
  with Cons.prems have "length (contents q1) + length xs \<le> capacity" by simp
  from Cons.IH [OF q1(2) this] q1 show ?case by auto
qed

lemma pop_upto_contents:
  assumes "invar q"
  shows "fst (pop_upto pop n q) = take n (contents q)
    \<and> invar (snd (pop_upto pop n q))
    \<and> contents (snd (pop_upto pop n q)) = drop n (contents q)"
  using assms
proof (induction n arbitrary: q)
  case 0
  then show ?case by simp
next
  case (Suc n)
  show ?case
  proof (cases "contents q")
    case Nil
    with Suc.prems pop_empty show ?thesis by simp
  next
    case (Cons y ys)
    then obtain q' where q': "pop q = (Some y, q')" "invar q'" "contents q' = ys"
      using pop_cons [OF Suc.prems] by blast
    from Suc.IH [OF q'(2)] q' Cons show ?thesis
      by (simp add: case_prod_beta Let_def)
  qed
qed

text \<open>Pushing a block onto an empty queue and popping it yields the block, in order.\<close>

lemma push_pop_roundtrip:
  assumes "length xs \<le> capacity"
  shows "\<exists>q. push_list push empty xs = Some q \<and> fst (pop_upto pop (length xs) q) = xs"
proof -
  obtain q where q: "push_list push empty xs = Some q" "invar q" "contents q = xs"
    using push_list_contents [OF invar_empty, of xs] assms contents_empty by auto
  then show ?thesis using pop_upto_contents [OF q(2)] by auto
qed

end

end
