(* ===== verification/X86.thy ===== *)
theory X86
  imports Prelude
begin

text \<open>
  The part of the crate \<open>x86_64\<close> that the kernel calls: addresses, pages, frames and
  page-table entries. The crate is not part of the repository, so its functions are the
  fields of a record that the definitions of the kernel take as an argument; what the proofs
  rely on is the predicate \<open>x86_laws\<close>, which states the documented behaviour of these
  functions, and \<open>x86_ref\<close> is one concrete record that satisfies it.

  A \<open>VirtAddr\<close>, a \<open>PhysAddr\<close>, a \<open>Page\<close> and a \<open>PhysFrame\<close> are represented by their 64-bit
  (start) address.
\<close>

type_synonym virt_addr = u64
type_synonym phys_addr = u64
type_synonym phys_frame = u64

datatype frame_error = FrameNotPresent | HugeFrame

text \<open>
  \<open>virt_try_new\<close> and \<open>phys_try_new\<close> are the fallible constructors; \<open>VirtAddr::new\<close> and
  \<open>PhysAddr::new\<close> panic where these give \<open>None\<close>. \<open>p_index 4\<close> to \<open>p_index 1\<close> are the methods
  \<open>p4_index\<close> to \<open>p1_index\<close>, \<open>page_add\<close> is \<open>Page + u64\<close>,
  \<open>page_sub\<close> is \<open>Page - Page\<close>.
\<close>

record x86_api =
  virt_try_new :: "u64 \<Rightarrow> virt_addr option"
  phys_try_new :: "u64 \<Rightarrow> phys_addr option"
  page_containing :: "virt_addr \<Rightarrow> virt_addr"
  frame_containing :: "phys_addr \<Rightarrow> phys_frame"
  page_add :: "virt_addr \<Rightarrow> u64 \<Rightarrow> virt_addr result"
  page_sub :: "virt_addr \<Rightarrow> virt_addr \<Rightarrow> u64 result"
  p_index :: "nat \<Rightarrow> virt_addr \<Rightarrow> nat"
  page_offset :: "virt_addr \<Rightarrow> u64"
  entry_flags :: "u64 \<Rightarrow> u64"
  entry_frame :: "u64 \<Rightarrow> frame_error + phys_frame"

definition virt_new :: "x86_api \<Rightarrow> u64 \<Rightarrow> virt_addr result" where
  "virt_new x a = expect ''address passed to VirtAddr::new must not contain any data in bits 48 to 64'' (virt_try_new x a)"

definition phys_new :: "x86_api \<Rightarrow> u64 \<Rightarrow> phys_addr result" where
  "phys_new x a = expect ''physical addresses must not have any bits in the range 52 to 64 set'' (phys_try_new x a)"

text \<open>The flags of a page-table entry that the kernel names, and \<open>flags.contains(required)\<close>.\<close>

abbreviation (input) PRESENT :: u64 where "PRESENT \<equiv> 1"
abbreviation (input) WRITABLE :: u64 where "WRITABLE \<equiv> 2"
abbreviation (input) USER_ACCESSIBLE :: u64 where "USER_ACCESSIBLE \<equiv> 4"

definition flags_contain :: "u64 \<Rightarrow> u64 \<Rightarrow> bool" where
  "flags_contain flags required \<longleftrightarrow> flags AND required = required"

section \<open>Documented behaviour\<close>

text \<open>
  The 48-bit canonical addresses. A virtual address is canonical when the bits from 47 upwards
  are equal; the constructor also accepts an address whose bits 47 to 63 read as the number 1
  and sign-extends it.
\<close>

definition sign_extend48 :: "u64 \<Rightarrow> u64" where
  "sign_extend48 a = signed_take_bit 47 a"

definition canonical :: "u64 \<Rightarrow> bool" where
  "canonical a \<longleftrightarrow> sign_extend48 a = a"

text \<open>The number of the page of a canonical address, and the page with a given number.\<close>

definition page_number :: "u64 \<Rightarrow> nat" where
  "page_number a = unat (take_bit 36 (drop_bit 12 a))"

definition page_numbered :: "nat \<Rightarrow> u64" where
  "page_numbered n = sign_extend48 (push_bit 12 (of_nat n))"

definition x86_laws :: "x86_api \<Rightarrow> bool" where
  "x86_laws x \<longleftrightarrow>
     (\<forall>a. virt_try_new x a =
        (if canonical a then Some a else if drop_bit 47 a = 1 then Some (sign_extend48 a) else None))
   \<and> (\<forall>a. phys_try_new x a = (if drop_bit 52 a = 0 then Some a else None))
   \<and> (\<forall>a. page_containing x a = push_bit 12 (drop_bit 12 a))
   \<and> (\<forall>a. frame_containing x a = push_bit 12 (drop_bit 12 a))
   \<and> (\<forall>p n. canonical p \<and> page_number p + unat n < 2 ^ 36 \<longrightarrow>
        page_add x p n = Inr (page_numbered (page_number p + unat n)))
   \<and> (\<forall>p q. q \<le> p \<longrightarrow> page_sub x p q = Inr ((p - q) div 4096))
   \<and> (\<forall>l \<in> {1, 2, 3, 4}. \<forall>a. p_index x l a = unat (take_bit 9 (drop_bit (12 + 9 * (l - 1)) a)))
   \<and> (\<forall>a. page_offset x a = take_bit 12 a)
   \<and> (\<forall>e. \<forall>b \<in> {0, 1, 2, 7}. bit (entry_flags x e) b = bit e b)
   \<and> (\<forall>e. entry_frame x e =
        (if \<not> bit e 0 then Inl FrameNotPresent else if bit e 7 then Inl HugeFrame
         else Inr (e AND 0x000FFFFFFFFFF000)))"

lemma x86_p_index:
  "x86_laws x \<Longrightarrow> l \<in> {1, 2, 3, 4} \<Longrightarrow> p_index x l a = unat (take_bit 9 (drop_bit (12 + 9 * (l - 1)) a))"
  unfolding x86_laws_def by blast

lemma x86_entry_flag:
  "x86_laws x \<Longrightarrow> b \<in> {0, 1, 2, 7} \<Longrightarrow> bit (entry_flags x e) b = bit e b"
  unfolding x86_laws_def by blast

lemma x86_entry_frame:
  "x86_laws x \<Longrightarrow> entry_frame x e =
     (if \<not> bit e 0 then Inl FrameNotPresent else if bit e 7 then Inl HugeFrame
      else Inr (e AND 0x000FFFFFFFFFF000))"
  unfolding x86_laws_def by blast

definition x86_ref :: x86_api where
  "x86_ref =
     \<lparr>virt_try_new = (\<lambda>a. if canonical a then Some a
        else if drop_bit 47 a = 1 then Some (sign_extend48 a) else None),
      phys_try_new = (\<lambda>a. if drop_bit 52 a = 0 then Some a else None),
      page_containing = (\<lambda>a. push_bit 12 (drop_bit 12 a)),
      frame_containing = (\<lambda>a. push_bit 12 (drop_bit 12 a)),
      page_add = (\<lambda>p n. if canonical p \<and> page_number p + unat n < 2 ^ 36
        then Inr (page_numbered (page_number p + unat n)) else panic ''attempt to add with overflow''),
      page_sub = (\<lambda>p q. if q \<le> p then Inr ((p - q) div 4096) else panic ''attempt to subtract with overflow''),
      p_index = (\<lambda>l a. unat (take_bit 9 (drop_bit (12 + 9 * (l - 1)) a))),
      page_offset = take_bit 12,
      entry_flags = (\<lambda>e. e AND 0x8000000000000FFF),
      entry_frame = (\<lambda>e. if \<not> bit e 0 then Inl FrameNotPresent else if bit e 7 then Inl HugeFrame
        else Inr (e AND 0x000FFFFFFFFFF000))\<rparr>"

lemma x86_ref_flag_bits:
  assumes "b \<in> {0, 1, 2, 7}"
  shows "bit ((e :: u64) AND 0x8000000000000FFF) b = bit e b"
proof -
  have "bit (0x8000000000000FFF :: u64) b" using assms by (elim insertE emptyE) simp_all
  then show ?thesis by (simp add: bit_and_iff)
qed

lemma x86_ref_laws: "x86_laws x86_ref"
  unfolding x86_laws_def x86_ref_def x86_api.simps
  by (intro conjI allI ballI impI refl) (simp_all only: x86_ref_flag_bits if_True refl simp_thms)

section \<open>Canonical addresses and page numbers\<close>

lemma bit_sign_extend48: "bit (sign_extend48 a) k \<longleftrightarrow> k < 64 \<and> bit a (min 47 k)"
  by (auto simp: sign_extend48_def bit_signed_take_bit_iff min_def)

lemma canonical_iff: "canonical a \<longleftrightarrow> (\<forall>k < 64. bit a k = bit a (min 47 k))"
  unfolding canonical_def by (auto simp: bit_eq_iff bit_sign_extend48 dest: bit_imp_le_length)

lemma bit_sign_extend48_low: "k \<le> 47 \<Longrightarrow> bit (sign_extend48 a) k = bit a k"
  by (simp add: bit_sign_extend48 min_def)

lemma canonical_sign_extend48: "canonical (sign_extend48 a)"
  by (auto simp: canonical_iff bit_sign_extend48 min_def)

lemma page_number_sign_extend48: "page_number (sign_extend48 a) = page_number a"
proof -
  have "take_bit 36 (drop_bit 12 (sign_extend48 a)) = take_bit 36 (drop_bit 12 a)"
    by (rule bit_word_eqI) (auto simp: bit_take_bit_iff bit_drop_bit_eq bit_sign_extend48_low)
  then show ?thesis by (simp add: page_number_def)
qed

lemma page_number_bound: "page_number a < 2 ^ 36"
proof -
  have "unat (take_bit 36 (drop_bit 12 a)) = take_bit 36 (unat (drop_bit 12 a))"
    by (rule unsigned_take_bit_eq)
  then show ?thesis by (simp add: page_number_def del: power_numeral)
qed

lemma page_number_numbered:
  assumes "n < 2 ^ 36"
  shows "page_number (page_numbered n) = n"
proof -
  have "take_bit 36 (drop_bit 12 (push_bit 12 (of_nat n :: u64))) = take_bit 36 (of_nat n)"
    by (rule bit_word_eqI) (auto simp: bit_take_bit_iff bit_drop_bit_eq bit_push_bit_iff)
  then have "page_number (page_numbered n) = unat (take_bit 36 (of_nat n :: u64))"
    unfolding page_numbered_def page_number_sign_extend48 by (simp add: page_number_def)
  also have "\<dots> = take_bit 36 (unat (of_nat n :: u64))" by (rule unsigned_take_bit_eq)
  also have "unat (of_nat n :: u64) = n" using assms by (simp add: unat_of_nat)
  also have "take_bit 36 n = n" using assms by (simp add: take_bit_nat_eq_self)
  finally show ?thesis .
qed

lemma canonical_numbered: "canonical (page_numbered n)"
  by (simp add: page_numbered_def canonical_sign_extend48)

lemma page_numbered_eq_iff:
  "m < 2 ^ 36 \<Longrightarrow> n < 2 ^ 36 \<Longrightarrow> page_numbered m = page_numbered n \<longleftrightarrow> m = n"
  by (metis page_number_numbered)

lemma page_containing_numbered:
  assumes "x86_laws x" and "canonical a"
  shows "page_containing x a = page_numbered (page_number a)"
proof -
  have c: "bit a k = bit a (min 47 k)" if "k < 64" for k
    using assms(2) that unfolding canonical_iff by blast
  have "push_bit 12 (drop_bit 12 a) = sign_extend48 (push_bit 12 (take_bit 36 (drop_bit 12 a)))"
  proof (rule bit_word_eqI)
    fix k assume "k < LENGTH(64)"
    then have k: "k < 64" by simp
    have "min 47 k - 12 < 36" by auto
    moreover have "12 \<le> min 47 k \<longleftrightarrow> 12 \<le> k" by simp
    moreover have "min 47 k < 64" by simp
    ultimately show "bit (push_bit 12 (drop_bit 12 a)) k
        = bit (sign_extend48 (push_bit 12 (take_bit 36 (drop_bit 12 a)))) k"
      using c [OF k] k
      by (simp only: bit_sign_extend48 bit_push_bit_iff bit_take_bit_iff bit_drop_bit_eq) auto
  qed
  then show ?thesis using assms(1) by (simp add: x86_laws_def page_numbered_def page_number_def)
qed

text \<open>The lower half of the address space, where the kernel maps user programs.\<close>

lemma lower_half:
  fixes a :: u64
  assumes "unat a < 2 ^ 47"
  shows "canonical a \<and> page_number a = unat a div 4096"
proof -
  have "unat a = take_bit 47 (unat a)" using assms by (simp add: take_bit_nat_eq_self)
  then have low: "take_bit 47 a = a" by (metis unsigned_take_bit_eq word_unat_eq_iff)
  then have b: "bit a k \<Longrightarrow> k < 47" for k by (metis bit_take_bit_iff)
  have "canonical a" unfolding canonical_iff by (auto simp: min_def dest: b)
  moreover have "take_bit 36 (drop_bit 12 a) = drop_bit 12 a"
    by (rule bit_word_eqI) (auto simp: bit_take_bit_iff bit_drop_bit_eq dest: b)
  moreover have "unat (drop_bit 12 a) = unat a div 4096"
    unfolding unat_drop_bit_eq by (simp add: drop_bit_eq_div)
  ultimately show ?thesis by (simp add: page_number_def)
qed

lemma virt_new_canonical: "x86_laws x \<Longrightarrow> canonical a \<Longrightarrow> virt_new x a = Inr a"
  by (simp add: virt_new_def x86_laws_def)

end
