(* ===== verification/Threads.thy ===== *)
theory Threads
  imports Ring_Queue X86
begin

text \<open>
  The data of the scheduler, \<open>src/scheduler/mod.rs\<close>: open files, threads, the ready queue, the
  scheduler's state and process ids, with the operations that need nothing but these values:
  the queue's, the ones a thread's descriptor table offers and the packing of process ids.

  A function pointer is its address. A raw pointer is its address too. The field
  \<open>interrupts_were_enabled\<close> of a thread is not one of the source: it holds the local variable of
  this name of the call of \<open>schedule\<close> the thread is suspended in, which lives on its stack.
\<close>

definition MAX_THREADS :: nat where "MAX_THREADS = 16"
definition MAX_OPEN_FILES :: nat where "MAX_OPEN_FILES = 4"
definition FIRST_FILE_FD :: u64 where "FIRST_FILE_FD = 2"

record OpenFile =
  file_data :: "u8 list"
  file_offset :: nat

record thread =
  stack_pointer :: u64
  stack_base :: u64
  stack_size :: u64
  entry :: "u64 option"
  page_table :: "phys_frame option"
  kernel_stack_top :: u64
  open_files :: "OpenFile option list"
  user_entry :: "(virt_addr \<times> virt_addr \<times> virt_addr \<times> u64) option"
  interrupts_were_enabled :: "bool option"

record ReadyQueue =
  q_ids :: "nat list"
  q_head :: nat
  q_len :: nat

record scheduler_state =
  threads :: "thread option list"
  ready_queue :: ReadyQueue
  current :: nat
  kernel_page_table :: phys_frame
  zombie :: "nat option"
  slot_generations :: "u64 list"

text \<open>Indexing \<open>xs[i]\<close> of an array, which panics out of range.\<close>

definition index_at :: "'a list \<Rightarrow> nat \<Rightarrow> 'a result" where
  "index_at xs i = (if i < length xs then Inr (xs ! i) else panic ''index out of bounds'')"

lemma index_at_ok [simp]: "i < length xs \<Longrightarrow> index_at xs i = Inr (xs ! i)"
  by (simp add: index_at_def)

section \<open>The ready queue\<close>

definition ReadyQueue_new :: ReadyQueue where
  "ReadyQueue_new = \<lparr>q_ids = replicate MAX_THREADS 0, q_head = 0, q_len = 0\<rparr>"

definition push_back :: "nat \<Rightarrow> ReadyQueue \<Rightarrow> ReadyQueue result" where
  "push_back i q =
     (if \<not> q_len q < MAX_THREADS then panic ''ready queue full''
      else let index = (q_head q + q_len q) mod MAX_THREADS in
        if index < length (q_ids q) then Inr (q\<lparr>q_ids := (q_ids q)[index := i], q_len := q_len q + 1\<rparr>)
        else panic ''index out of bounds'')"

definition pop_front :: "ReadyQueue \<Rightarrow> (nat option \<times> ReadyQueue) result" where
  "pop_front q =
     (if q_len q = 0 then Inr (None, q)
      else bind_result (index_at (q_ids q) (q_head q)) (\<lambda>i.
        Inr (Some i, q\<lparr>q_head := (q_head q + 1) mod MAX_THREADS, q_len := q_len q - 1\<rparr>)))"

definition queue_ok :: "ReadyQueue \<Rightarrow> bool" where
  "queue_ok q \<longleftrightarrow> length (q_ids q) = MAX_THREADS \<and> q_head q < MAX_THREADS \<and> q_len q \<le> MAX_THREADS"

definition queued :: "ReadyQueue \<Rightarrow> nat list" where
  "queued q = ring_list (q_ids q) (q_head q) (q_len q)"

definition push_opt :: "ReadyQueue \<Rightarrow> nat \<Rightarrow> ReadyQueue option" where
  "push_opt q i = (case push_back i q of Inl _ \<Rightarrow> None | Inr q' \<Rightarrow> Some q')"

definition pop_opt :: "ReadyQueue \<Rightarrow> nat option \<times> ReadyQueue" where
  "pop_opt q = (case pop_front q of Inl _ \<Rightarrow> (None, q) | Inr r \<Rightarrow> r)"

lemma queued_new: "queue_ok ReadyQueue_new" "queued ReadyQueue_new = []"
  by (simp_all add: ReadyQueue_new_def queue_ok_def queued_def MAX_THREADS_def)

lemma pop_front_opt: "queue_ok q \<Longrightarrow> pop_front q = Inr (pop_opt q)"
  by (simp add: pop_front_def pop_opt_def queue_ok_def)

interpretation ready_fifo: bounded_fifo ReadyQueue_new push_opt pop_opt queued queue_ok MAX_THREADS
proof
  show "queue_ok ReadyQueue_new" "queued ReadyQueue_new = []" by (rule queued_new)+
next
  fix q x
  assume q: "queue_ok q"
  then show "length (queued q) \<le> MAX_THREADS" by (simp add: queue_ok_def queued_def)
  show "length (queued q) = MAX_THREADS \<Longrightarrow> push_opt q x = None"
    by (simp add: push_opt_def push_back_def queued_def)
  assume "length (queued q) < MAX_THREADS"
  then have l: "q_len q < length (q_ids q)" "length (q_ids q) = MAX_THREADS" "0 < MAX_THREADS"
    using q by (simp_all add: queue_ok_def queued_def MAX_THREADS_def)
  let ?q = "q\<lparr>q_ids := (q_ids q)[(q_head q + q_len q) mod MAX_THREADS := x], q_len := q_len q + 1\<rparr>"
  have "push_opt q x = Some ?q" using l by (simp add: push_opt_def push_back_def Let_def)
  moreover have "queue_ok ?q" using q l by (simp add: queue_ok_def)
  moreover have "queued ?q = queued q @ [x]"
    using ring_list_write_back [OF l(1), of "q_head q" x] l(2) by (simp add: queued_def)
  ultimately show "\<exists>q'. push_opt q x = Some q' \<and> queue_ok q' \<and> queued q' = queued q @ [x]" by blast
next
  fix q y ys
  assume q: "queue_ok q"
  then show "queued q = [] \<Longrightarrow> pop_opt q = (None, q)"
    by (auto simp: pop_opt_def pop_front_def queued_def ring_list_def)
  assume ne: "queued q = y # ys"
  have "q_len q = length (queued q)" by (simp add: queued_def)
  with ne have n: "0 < q_len q" by simp
  let ?q = "q\<lparr>q_head := (q_head q + 1) mod MAX_THREADS, q_len := q_len q - 1\<rparr>"
  have h: "q_head q mod length (q_ids q) = q_head q" "length (q_ids q) = MAX_THREADS" "q_head q < MAX_THREADS"
    using q by (simp_all add: queue_ok_def)
  have "queued q = q_ids q ! q_head q # queued ?q"
    using ring_list_pop_front [OF n, of "q_ids q" "q_head q"] h by (simp add: queued_def)
  with ne have "q_ids q ! q_head q = y" "queued ?q = ys" by simp_all
  moreover have "pop_opt q = (Some (q_ids q ! q_head q), ?q)"
    using n h by (simp add: pop_opt_def pop_front_def)
  moreover have "queue_ok ?q" using q by (auto simp: queue_ok_def MAX_THREADS_def)
  ultimately show "\<exists>q'. pop_opt q = (Some y, q') \<and> queue_ok q' \<and> queued q' = ys" by auto
qed

lemma push_back_queued:
  assumes "queue_ok q" and "length (queued q) < MAX_THREADS"
  obtains q' where "push_back i q = Inr q'" "queue_ok q'" "queued q' = queued q @ [i]"
proof -
  obtain q' where "push_opt q i = Some q'" "queue_ok q'" "queued q' = queued q @ [i]"
    using ready_fifo.push_room [OF assms] by blast
  then show ?thesis by (intro that [of q']) (auto simp: push_opt_def split: sum.splits)
qed

lemma pop_front_queued:
  assumes "queue_ok q"
  shows "queued q = [] \<Longrightarrow> pop_front q = Inr (None, q)"
    and "queued q = i # is \<Longrightarrow> \<exists>q'. pop_front q = Inr (Some i, q') \<and> queue_ok q' \<and> queued q' = is"
  using ready_fifo.pop_empty [OF assms] ready_fifo.pop_cons [OF assms] pop_front_opt [OF assms] by auto

section \<open>Process ids\<close>

definition pack_pid :: "nat \<Rightarrow> u64 \<Rightarrow> u64" where
  "pack_pid slot generation = push_bit 8 generation OR of_nat slot"

definition unpack_pid :: "u64 \<Rightarrow> nat \<times> u64" where
  "unpack_pid pid = (unat (pid AND 0xFF), drop_bit 8 pid)"

section \<open>A thread's descriptor table\<close>

text \<open>
  The bodies that \<open>open_file\<close>, \<open>read_open_file\<close> and \<open>close_file\<close> hand to \<open>with_current_thread\<close>.
  Reading fills the front of the caller's buffer, whose new contents are part of the result.
\<close>

definition open_file_in :: "u8 list \<Rightarrow> thread \<Rightarrow> (u64 option \<times> thread) result" where
  "open_file_in bytes t =
     (case position (\<lambda>f. f = None) (open_files t) of
        None \<Rightarrow> Inr (None, t)
      | Some slot \<Rightarrow>
          bind_result (add_ovf (of_nat slot) FIRST_FILE_FD) (\<lambda>fd.
          Inr (Some fd, t\<lparr>open_files := (open_files t)[slot := Some \<lparr>file_data = bytes, file_offset = 0\<rparr>]\<rparr>)))"

definition read_open_file_in :: "u64 \<Rightarrow> u8 list \<Rightarrow> thread \<Rightarrow> ((nat option \<times> u8 list) \<times> thread) result" where
  "read_open_file_in fd buf t =
     (case checked_sub fd FIRST_FILE_FD of
        None \<Rightarrow> Inr ((None, buf), t)
      | Some s \<Rightarrow>
          (let slot = unat s in
           if \<not> slot < length (open_files t) then Inr ((None, buf), t)
           else case open_files t ! slot of
             None \<Rightarrow> Inr ((None, buf), t)
           | Some file \<Rightarrow>
               if length (file_data file) < file_offset file then panic ''range start index out of range for slice''
               else let remaining = drop (file_offset file) (file_data file);
                        count = min (length remaining) (length buf);
                        buf = overwrite buf 0 (take count remaining)
                    in Inr ((Some count, buf),
                            t\<lparr>open_files := (open_files t)[slot := Some (file\<lparr>file_offset := file_offset file + count\<rparr>)]\<rparr>)))"

definition close_file_in :: "u64 \<Rightarrow> thread \<Rightarrow> (bool \<times> thread) result" where
  "close_file_in fd t =
     (case checked_sub fd FIRST_FILE_FD of
        None \<Rightarrow> Inr (False, t)
      | Some s \<Rightarrow>
          (let slot = unat s in
           if slot < length (open_files t) \<and> open_files t ! slot \<noteq> None
           then Inr (True, t\<lparr>open_files := (open_files t)[slot := None]\<rparr>)
           else Inr (False, t)))"

definition files_ok :: "thread \<Rightarrow> bool" where
  "files_ok t \<longleftrightarrow> length (open_files t) = MAX_OPEN_FILES
     \<and> (\<forall>f. Some f \<in> set (open_files t) \<longrightarrow> file_offset f \<le> length (file_data f))"

text \<open>The file behind a descriptor and the contents still to be read from it.\<close>

definition fd_file :: "thread \<Rightarrow> u64 \<Rightarrow> OpenFile option" where
  "fd_file t fd =
     (if FIRST_FILE_FD \<le> fd \<and> unat (fd - FIRST_FILE_FD) < length (open_files t)
      then open_files t ! unat (fd - FIRST_FILE_FD) else None)"

definition unread :: "OpenFile \<Rightarrow> u8 list" where
  "unread f = drop (file_offset f) (file_data f)"

text \<open>A valid descriptor and its slot.\<close>

definition fd_slot :: "u64 \<Rightarrow> nat" where
  "fd_slot fd = unat (fd - FIRST_FILE_FD)"

lemma fd_slot_inj: "fd_slot fd = fd_slot fd' \<longleftrightarrow> fd = fd'"
  by (metis fd_slot_def diff_add_cancel word_unat_eq_iff)

lemma fd_of_slot:
  assumes "i < MAX_OPEN_FILES"
  shows "add_ovf (of_nat i) FIRST_FILE_FD = Inr (of_nat i + 2)"
    and "fd_slot (of_nat i + 2) = i" and "FIRST_FILE_FD \<le> of_nat i + 2"
    and "unat (of_nat i + 2 :: u64) = i + 2"
proof -
  have i: "unat (of_nat i :: u64) = i" using assms by (intro unat_of_nat_u64) (simp add: MAX_OPEN_FILES_def)
  then show u: "unat (of_nat i + 2 :: u64) = i + 2"
    using assms by (simp add: unat_word_ariths MAX_OPEN_FILES_def)
  show "add_ovf (of_nat i) FIRST_FILE_FD = Inr (of_nat i + 2)"
    using i u by (simp add: add_ovf_Inr_iff FIRST_FILE_FD_def)
  show "fd_slot (of_nat i + 2) = i" using i by (simp add: fd_slot_def FIRST_FILE_FD_def)
  show "FIRST_FILE_FD \<le> of_nat i + 2" using u by (simp add: FIRST_FILE_FD_def word_le_nat_alt)
qed

lemma fd_file_cases:
  "fd_file t fd = (if FIRST_FILE_FD \<le> fd \<and> fd_slot fd < length (open_files t) then open_files t ! fd_slot fd else None)"
  by (simp add: fd_file_def fd_slot_def)

lemma fd_file_update:
  assumes "FIRST_FILE_FD \<le> fd" and "fd_slot fd < length (open_files t)"
  shows "fd_file (t\<lparr>open_files := (open_files t)[fd_slot fd := v]\<rparr>) = (fd_file t)(fd := v)"
  using assms by (auto simp: fd_file_cases fun_eq_iff nth_list_update fd_slot_inj)

lemma checked_sub_fd:
  "checked_sub fd FIRST_FILE_FD = (if FIRST_FILE_FD \<le> fd then Some (fd - FIRST_FILE_FD) else None)"
  by (simp add: checked_sub_def)

lemma files_ok_update:
  assumes "files_ok t" and "\<And>f. v = Some f \<Longrightarrow> file_offset f \<le> length (file_data f)"
  shows "files_ok (t\<lparr>open_files := (open_files t)[i := v]\<rparr>)"
  using assms set_update_subset_insert [of "open_files t" i v] by (auto simp: files_ok_def)

lemma fd_file_ok: "files_ok t \<Longrightarrow> fd_file t fd = Some f \<Longrightarrow> file_offset f \<le> length (file_data f)"
proof -
  assume "files_ok t" and f: "fd_file t fd = Some f"
  then have "fd_slot fd < length (open_files t)" "open_files t ! fd_slot fd = Some f"
    by (simp_all add: fd_file_cases split: if_splits)
  then have "Some f \<in> set (open_files t)" by (metis nth_mem)
  with \<open>files_ok t\<close> show "file_offset f \<le> length (file_data f)" by (simp add: files_ok_def)
qed

lemma open_file_in_spec:
  assumes "files_ok t"
  shows "(\<forall>f\<in>set (open_files t). f \<noteq> None) \<Longrightarrow> open_file_in bytes t = Inr (None, t)"
    and "None \<in> set (open_files t) \<Longrightarrow> \<exists>fd t'. open_file_in bytes t = Inr (Some fd, t') \<and> files_ok t'
      \<and> 2 \<le> unat fd \<and> unat fd < 2 + MAX_OPEN_FILES \<and> fd_file t fd = None
      \<and> (\<forall>fd'. 2 \<le> unat fd' \<and> unat fd' < unat fd \<longrightarrow> fd_file t fd' \<noteq> None)
      \<and> (\<exists>fs. t' = t\<lparr>open_files := fs\<rparr>)
      \<and> fd_file t' = (fd_file t)(fd := Some \<lparr>file_data = bytes, file_offset = 0\<rparr>)"
proof -
  show "open_file_in bytes t = Inr (None, t)" if "\<forall>f\<in>set (open_files t). f \<noteq> None"
  proof -
    from that have "position (\<lambda>f. f = None) (open_files t) = None" by (simp add: position_None_iff)
    then show ?thesis by (simp add: open_file_in_def)
  qed
  assume "None \<in> set (open_files t)"
  then have "position (\<lambda>f. f = None) (open_files t) \<noteq> None" by (auto simp: position_None_iff)
  then obtain i where i: "position (\<lambda>f. f = None) (open_files t) = Some i" by blast
  then have free: "i < length (open_files t)" "open_files t ! i = None" "\<And>j. j < i \<Longrightarrow> open_files t ! j \<noteq> None"
    by (auto simp: position_Some_iff)
  then have bound: "i < MAX_OPEN_FILES" using assms by (simp add: files_ok_def)
  let ?fd = "of_nat i + 2 :: u64" and ?f = "Some \<lparr>file_data = bytes, file_offset = 0\<rparr>"
  let ?t = "t\<lparr>open_files := (open_files t)[i := ?f]\<rparr>"
  note fd = fd_of_slot [OF bound]
  have "open_file_in bytes t = Inr (Some ?fd, ?t)" using i fd(1) by (simp add: open_file_in_def)
  moreover have "files_ok ?t" by (rule files_ok_update) (use assms in auto)
  moreover have "fd_file t ?fd = None" using free fd by (simp add: fd_file_cases)
  moreover have "fd_file ?t = (fd_file t)(?fd := ?f)"
    using fd_file_update [of ?fd t ?f] fd(2,3) free(1) by simp
  moreover have "fd_file t fd' \<noteq> None" if "2 \<le> unat fd'" "unat fd' < unat ?fd" for fd'
  proof -
    have "fd_slot fd' = unat fd' - 2" "FIRST_FILE_FD \<le> fd'"
      using that(1) by (simp_all add: fd_slot_def FIRST_FILE_FD_def unat_sub word_le_nat_alt)
    then have "fd_slot fd' < i" using that fd(4) by simp
    with free \<open>FIRST_FILE_FD \<le> fd'\<close> show ?thesis by (simp add: fd_file_cases)
  qed
  ultimately show "\<exists>fd t'. open_file_in bytes t = Inr (Some fd, t') \<and> files_ok t'
      \<and> 2 \<le> unat fd \<and> unat fd < 2 + MAX_OPEN_FILES \<and> fd_file t fd = None
      \<and> (\<forall>fd'. 2 \<le> unat fd' \<and> unat fd' < unat fd \<longrightarrow> fd_file t fd' \<noteq> None)
      \<and> (\<exists>fs. t' = t\<lparr>open_files := fs\<rparr>)
      \<and> fd_file t' = (fd_file t)(fd := Some \<lparr>file_data = bytes, file_offset = 0\<rparr>)"
    using fd(4) bound by (intro exI [of _ ?fd] exI [of _ ?t]) auto
qed

lemma read_open_file_in_spec:
  assumes "files_ok t"
  shows "fd_file t fd = None \<Longrightarrow> read_open_file_in fd buf t = Inr ((None, buf), t)"
    and "fd_file t fd = Some f \<Longrightarrow> n = min (length (unread f)) (length buf) \<Longrightarrow>
      \<exists>t'. read_open_file_in fd buf t = Inr ((Some n, take n (unread f) @ drop n buf), t') \<and> files_ok t'
        \<and> (\<exists>fs. t' = t\<lparr>open_files := fs\<rparr>)
        \<and> fd_file t' = (fd_file t)(fd := Some (f\<lparr>file_offset := file_offset f + n\<rparr>))"
proof -
  show "fd_file t fd = None \<Longrightarrow> read_open_file_in fd buf t = Inr ((None, buf), t)"
    by (auto simp: read_open_file_in_def checked_sub_fd fd_file_def Let_def)
  assume f: "fd_file t fd = Some f" and n: "n = min (length (unread f)) (length buf)"
  have slot: "FIRST_FILE_FD \<le> fd" "fd_slot fd < length (open_files t)" "open_files t ! fd_slot fd = Some f"
    using f by (simp_all add: fd_file_cases split: if_splits)
  have le: "file_offset f \<le> length (file_data f)" by (rule fd_file_ok [OF assms f])
  let ?f = "f\<lparr>file_offset := file_offset f + n\<rparr>"
  let ?t = "t\<lparr>open_files := (open_files t)[fd_slot fd := Some ?f]\<rparr>"
  have "read_open_file_in fd buf t = Inr ((Some n, overwrite buf 0 (take n (unread f))), ?t)"
    using slot le by (simp add: read_open_file_in_def checked_sub_fd Let_def fd_slot_def [symmetric] unread_def n)
  moreover have "overwrite buf 0 (take n (unread f)) = take n (unread f) @ drop n buf"
    using n by (simp add: overwrite_def)
  moreover have "files_ok ?t" by (rule files_ok_update) (use assms le n in \<open>auto simp: unread_def\<close>)
  ultimately show "\<exists>t'. read_open_file_in fd buf t = Inr ((Some n, take n (unread f) @ drop n buf), t') \<and> files_ok t'
        \<and> (\<exists>fs. t' = t\<lparr>open_files := fs\<rparr>)
        \<and> fd_file t' = (fd_file t)(fd := Some ?f)"
    using fd_file_update [OF slot(1,2)] by auto
qed

lemma close_file_in_spec:
  assumes "files_ok t"
  shows "\<exists>t'. close_file_in fd t = Inr (fd_file t fd \<noteq> None, t') \<and> files_ok t'
    \<and> (\<exists>fs. t' = t\<lparr>open_files := fs\<rparr>) \<and> fd_file t' = (fd_file t)(fd := None)"
proof (cases "fd_file t fd = None")
  case True
  have "t = t\<lparr>open_files := open_files t\<rparr>" by simp
  moreover have "close_file_in fd t = Inr (False, t)"
    using True by (auto simp: close_file_in_def checked_sub_fd fd_file_def Let_def)
  moreover have "fd_file t = (fd_file t)(fd := None)" using True by (auto simp: fun_eq_iff)
  ultimately show ?thesis using assms True
    by (intro exI [of _ t] conjI exI [of _ "open_files t"]) simp_all
next
  case False
  then have slot: "FIRST_FILE_FD \<le> fd" "fd_slot fd < length (open_files t)" "open_files t ! fd_slot fd \<noteq> None"
    by (auto simp: fd_file_cases split: if_splits)
  let ?t = "t\<lparr>open_files := (open_files t)[fd_slot fd := None]\<rparr>"
  have "close_file_in fd t = Inr (True, ?t)"
    using slot by (simp add: close_file_in_def checked_sub_fd Let_def fd_slot_def [symmetric])
  moreover have "files_ok ?t" by (rule files_ok_update) (use assms in auto)
  ultimately show ?thesis using fd_file_update [OF slot(1,2)] False by auto
qed

section \<open>Process ids are handles of one thread\<close>

lemma high_bits_zero:
  fixes w :: u64
  assumes "unat w < 2 ^ n" and "n \<le> k"
  shows "\<not> bit w k"
proof
  assume "bit w k"
  then have "bit (unat w) k" by (simp add: bit_unsigned_iff bit_imp_le_length)
  moreover have "take_bit n (unat w) = unat w" using assms(1) by (rule take_bit_nat_eq_self)
  ultimately have "k < n" by (metis bit_take_bit_iff)
  with assms(2) show False by simp
qed

lemma unpack_pack_pid:
  assumes "slot < 256" and "unat generation < 2 ^ 56"
  shows "unpack_pid (pack_pid slot generation) = (slot, generation)"
proof -
  have s: "unat (of_nat slot :: u64) = slot" using assms(1) by (intro unat_of_nat_u64) simp
  then have hi: "\<not> bit (of_nat slot :: u64) k" if "8 \<le> k" for k
    using that assms(1) by (intro high_bits_zero [of _ 8]) simp_all
  have g: "\<not> bit generation k" if "56 \<le> k" for k using assms(2) that by (rule high_bits_zero)
  have "w AND 0xFF = take_bit 8 w" for w :: u64 by (simp add: take_bit_eq_mask mask_eq_exp_minus_1)
  moreover have "take_bit 8 (pack_pid slot generation) = of_nat slot"
  proof (rule bit_word_eqI)
    fix n
    show "bit (take_bit 8 (pack_pid slot generation)) n = bit (of_nat slot :: u64) n"
      using hi [of n] by (cases "n < 8") (simp_all add: pack_pid_def bit_take_bit_iff bit_or_iff bit_push_bit_iff del: bit_of_nat_iff)
  qed
  moreover have "drop_bit 8 (pack_pid slot generation) = generation"
  proof (rule bit_word_eqI)
    fix n
    show "bit (drop_bit 8 (pack_pid slot generation)) n = bit generation n"
      using hi [of "8 + n"] g [of n]
      by (cases "n < 56") (simp_all add: pack_pid_def bit_drop_bit_eq bit_or_iff bit_push_bit_iff)
  qed
  ultimately show ?thesis using s by (simp add: unpack_pid_def)
qed

end
