(* ===== verification/Context.thy ===== *)
theory Context
  imports X86
begin

text \<open>
  The context switch: the naked function \<open>switch_to\<close> of \<open>src/scheduler/context.rs\<close> and the
  stack frame that \<open>build_initial_stack\<close> (\<open>src/scheduler/mod.rs\<close>) lays down for a thread
  that has not run yet.

  The processor state holds the registers these routines touch and the memory of the kernel
  stacks as 64-bit words at their byte addresses. A kernel stack is mapped at the same
  addresses in every address space the kernel builds, so a change of CR3 does not change
  this memory.
\<close>

record cpu =
  rip :: u64
  rsp :: u64
  rbp :: u64
  rbx :: u64
  r12 :: u64
  r13 :: u64
  r14 :: u64
  r15 :: u64
  cr3 :: phys_frame
  stack_mem :: "u64 \<Rightarrow> u64"

definition push :: "u64 \<Rightarrow> cpu \<Rightarrow> cpu" where
  "push v c = c\<lparr>rsp := rsp c - 8, stack_mem := (stack_mem c)(rsp c - 8 := v)\<rparr>"

definition pop :: "cpu \<Rightarrow> u64 \<times> cpu" where
  "pop c = (stack_mem c (rsp c), c\<lparr>rsp := rsp c + 8\<rparr>)"

text \<open>
  The instructions of \<open>switch_to\<close> in order. The word it stores through \<open>old_stack_slot\<close> is the
  first component of the result.
\<close>

definition switch_to :: "u64 \<Rightarrow> phys_frame \<Rightarrow> cpu \<Rightarrow> u64 \<times> cpu" where
  "switch_to new_stack new_page_table c =
     (let c = push (rbp c) c;
          c = push (rbx c) c;
          c = push (r12 c) c;
          c = push (r13 c) c;
          c = push (r14 c) c;
          c = push (r15 c) c;
          old_stack_slot = rsp c;
          c = c\<lparr>cr3 := new_page_table\<rparr>;
          c = c\<lparr>rsp := new_stack\<rparr>;
          (v, c) = pop c; c = c\<lparr>r15 := v\<rparr>;
          (v, c) = pop c; c = c\<lparr>r14 := v\<rparr>;
          (v, c) = pop c; c = c\<lparr>r13 := v\<rparr>;
          (v, c) = pop c; c = c\<lparr>r12 := v\<rparr>;
          (v, c) = pop c; c = c\<lparr>rbx := v\<rparr>;
          (v, c) = pop c; c = c\<lparr>rbp := v\<rparr>;
          (v, c) = pop c; c = c\<lparr>rip := v\<rparr>
      in (old_stack_slot, c))"

text \<open>A call of \<open>switch_to\<close>, which pushes the return address first.\<close>

definition call_switch_to :: "u64 \<Rightarrow> u64 \<Rightarrow> phys_frame \<Rightarrow> cpu \<Rightarrow> u64 \<times> cpu" where
  "call_switch_to return_addr new_stack new_page_table c =
     switch_to new_stack new_page_table (push return_addr c)"

definition STACK_SIZE :: u64 where "STACK_SIZE = 64 * 1024"

definition build_initial_stack :: "u64 \<Rightarrow> u64 \<Rightarrow> (u64 \<Rightarrow> u64) \<Rightarrow> (u64 \<times> (u64 \<Rightarrow> u64)) result" where
  "build_initial_stack thread_trampoline stack_base mem =
     (let stack_end = stack_base + STACK_SIZE in
      bind_result (sub_ovf stack_end 16) (\<lambda>frame_top.
      let frame = [thread_trampoline, 0, 0, 0, 0, 0, 0];
          mem = fold (\<lambda>(i, word) mem. mem(frame_top - 8 * of_nat i := word)) (enumerate 0 frame) mem
      in bind_result (sub_ovf (of_nat (length frame)) 1) (\<lambda>slots.
         bind_result (mul_ovf slots 8) (\<lambda>bytes.
         bind_result (sub_ovf frame_top bytes) (\<lambda>sp. Inr (sp, mem))))))"

section \<open>Saved contexts\<close>

text \<open>
  The registers of a suspended thread as \<open>switch_to\<close> saves them: the words from the saved stack
  pointer upwards, ending with the return address.
\<close>

definition saved_frame :: "(u64 \<Rightarrow> u64) \<Rightarrow> u64 \<Rightarrow> u64 list" where
  "saved_frame mem sp = map (\<lambda>i. mem (sp + 8 * of_nat i)) [0..<7]"

definition callee_saved :: "cpu \<Rightarrow> u64 list" where
  "callee_saved c = [r15 c, r14 c, r13 c, r12 c, rbx c, rbp c]"

lemma saved_frame_words:
  "saved_frame mem sp = [mem sp, mem (sp + 8), mem (sp + 16), mem (sp + 24), mem (sp + 32), mem (sp + 40), mem (sp + 48)]"
  by (simp add: saved_frame_def upt_rec)

lemma switch_to_eq:
  "call_switch_to ret new_stack pt c =
     (let mem = stack_mem (push (r15 c) (push (r14 c) (push (r13 c) (push (r12 c) (push (rbx c)
                  (push (rbp c) (push ret c)))))))
      in (rsp c - 56,
          c\<lparr>r15 := mem new_stack, r14 := mem (new_stack + 8), r13 := mem (new_stack + 16),
            r12 := mem (new_stack + 24), rbx := mem (new_stack + 32), rbp := mem (new_stack + 40),
            rip := mem (new_stack + 48), rsp := new_stack + 56, cr3 := pt, stack_mem := mem\<rparr>))"
  by (simp add: call_switch_to_def switch_to_def push_def pop_def Let_def add.assoc)

definition frame_addrs :: "u64 \<Rightarrow> u64 set" where
  "frame_addrs sp = {sp, sp + 8, sp + 16, sp + 24, sp + 32, sp + 40, sp + 48}"

lemma switch_memory:
  assumes "call_switch_to ret new_stack pt c = (sp, c')"
  shows "rsp c = sp + 56"
    and "stack_mem c' = (stack_mem c)(sp + 48 := ret, sp + 40 := rbp c, sp + 32 := rbx c,
      sp + 24 := r12 c, sp + 16 := r13 c, sp + 8 := r14 c, sp := r15 c)"
proof -
  show sp: "rsp c = sp + 56" using assms by (auto simp: switch_to_eq Let_def)
  show "stack_mem c' = (stack_mem c)(sp + 48 := ret, sp + 40 := rbp c, sp + 32 := rbx c,
      sp + 24 := r12 c, sp + 16 := r13 c, sp + 8 := r14 c, sp := r15 c)"
    using assms by (auto simp: switch_to_eq Let_def push_def sp)
qed

lemma switch_saves:
  assumes "call_switch_to ret new_stack pt c = (sp, c')"
  shows "saved_frame (stack_mem c') sp = callee_saved c @ [ret]"
    and "a \<notin> frame_addrs sp \<Longrightarrow> stack_mem c' a = stack_mem c a"
  using switch_memory [OF assms] by (simp_all add: saved_frame_words callee_saved_def frame_addrs_def)

lemma saved_frame_cong:
  "(\<And>a. a \<in> frame_addrs sp \<Longrightarrow> mem a = mem' a) \<Longrightarrow> saved_frame mem sp = saved_frame mem' sp"
  by (simp add: saved_frame_words frame_addrs_def)

lemma switch_restores:
  assumes "call_switch_to ret new_stack pt c = (sp, c')"
    and "frame_addrs new_stack \<inter> frame_addrs (rsp c - 56) = {}"
  shows "callee_saved c' @ [rip c'] = saved_frame (stack_mem c) new_stack"
    and "rsp c' = new_stack + 56" and "cr3 c' = pt"
proof -
  have sp: "rsp c - 56 = sp" using switch_memory(1) [OF assms(1)] by simp
  have "callee_saved c' @ [rip c'] = saved_frame (stack_mem c') new_stack"
    using assms(1) by (auto simp: switch_to_eq Let_def callee_saved_def saved_frame_words)
  also have "\<dots> = saved_frame (stack_mem c) new_stack"
    by (rule saved_frame_cong) (use switch_saves(2) [OF assms(1)] assms(2) sp in blast)
  finally show "callee_saved c' @ [rip c'] = saved_frame (stack_mem c) new_stack" .
  show "rsp c' = new_stack + 56" "cr3 c' = pt"
    using assms(1) by (auto simp: switch_to_eq Let_def)
qed

section \<open>Fresh stacks\<close>

lemma build_initial_stack_eq:
  assumes "unat stack_base + unat STACK_SIZE < 2 ^ 64"
  shows "build_initial_stack tramp stack_base mem =
    (let sp = stack_base + STACK_SIZE - 64 in
     Inr (sp, mem(sp + 48 := tramp, sp + 40 := 0, sp + 32 := 0, sp + 24 := 0, sp + 16 := 0, sp + 8 := 0, sp := 0)))"
proof -
  have u: "unat (stack_base + STACK_SIZE) = unat stack_base + unat STACK_SIZE"
    using assms by (simp add: unat_word_ariths)
  have size: "unat STACK_SIZE = 65536" by (simp add: STACK_SIZE_def)
  have s1: "sub_ovf (stack_base + STACK_SIZE) 16 = Inr (stack_base + STACK_SIZE - 16)"
    using u size by (simp add: sub_ovf_def checked_sub_def word_le_nat_alt)
  have u16: "unat (stack_base + STACK_SIZE - 16) = unat stack_base + unat STACK_SIZE - 16"
    using u size by (subst unat_sub) (simp_all add: word_le_nat_alt)
  have s2: "sub_ovf (stack_base + STACK_SIZE - 16) 48 = Inr (stack_base + STACK_SIZE - 64)"
    using u16 size by (simp add: sub_ovf_def checked_sub_def word_le_nat_alt)
  have s3: "sub_ovf (7::u64) 1 = Inr 6" "mul_ovf (6::u64) 8 = Inr 48"
    by (simp_all add: sub_ovf_def checked_sub_def mul_ovf_def checked_mul_def)
  show ?thesis
    by (simp add: build_initial_stack_def s1 s2 s3 Let_def)
qed

lemma build_initial_stack_frame:
  assumes "unat stack_base + unat STACK_SIZE < 2 ^ 64"
  obtains mem' where
    "build_initial_stack tramp stack_base mem = Inr (stack_base + STACK_SIZE - 64, mem')"
    "saved_frame mem' (stack_base + STACK_SIZE - 64) = [0, 0, 0, 0, 0, 0, tramp]"
    "\<And>a. a \<notin> frame_addrs (stack_base + STACK_SIZE - 64) \<Longrightarrow> mem' a = mem a"
proof -
  define sp where "sp = stack_base + STACK_SIZE - 64"
  define mem' where "mem' = mem(sp + 48 := tramp, sp + 40 := 0, sp + 32 := 0, sp + 24 := 0,
    sp + 16 := 0, sp + 8 := 0, sp := 0)"
  have "build_initial_stack tramp stack_base mem = Inr (sp, mem')"
    using build_initial_stack_eq [OF assms] by (simp only: Let_def sp_def mem'_def)
  moreover have "saved_frame mem' sp = [0, 0, 0, 0, 0, 0, tramp]"
    by (simp add: mem'_def saved_frame_words)
  moreover have "\<And>a. a \<notin> frame_addrs sp \<Longrightarrow> mem' a = mem a"
    by (simp add: mem'_def frame_addrs_def)
  ultimately show ?thesis using that unfolding sp_def by blast
qed

lemma stack_top_addr:
  fixes base :: u64
  assumes "unat base + unat STACK_SIZE < 2 ^ 64"
  shows "n \<le> 65536 \<Longrightarrow> unat (base + STACK_SIZE - of_nat n) = unat base + 65536 - n"
    and "unat (base + STACK_SIZE - 8) = unat base + 65528"
    and "unat (base + STACK_SIZE) = unat base + 65536"
proof -
  have size: "unat STACK_SIZE = 65536" by (simp add: STACK_SIZE_def)
  show top: "unat (base + STACK_SIZE) = unat base + 65536"
    using assms size by (simp add: unat_word_ariths)
  have gen: "unat (base + STACK_SIZE - of_nat n) = unat base + 65536 - n" if "n \<le> 65536" for n
  proof -
    have "unat (of_nat n :: u64) = n" using that by (intro unat_of_nat_u64) simp
    with that top show ?thesis by (subst unat_sub) (simp_all add: word_le_nat_alt)
  qed
  then show "n \<le> 65536 \<Longrightarrow> unat (base + STACK_SIZE - of_nat n) = unat base + 65536 - n" .
  show "unat (base + STACK_SIZE - 8) = unat base + 65528" using gen [of 8] by simp
qed

lemma fresh_frame_addrs:
  fixes base :: u64
  assumes "unat base + unat STACK_SIZE < 2 ^ 64" and "a \<in> frame_addrs (base + STACK_SIZE - 64)"
  shows "base + STACK_SIZE - 64 \<le> a \<and> a < base + STACK_SIZE"
    and "unat base + 65472 \<le> unat a \<and> unat a < unat base + 65536"
proof -
  have "\<exists>n\<in>{64, 56, 48, 40, 32, 24, 16}. a = base + STACK_SIZE - of_nat n"
    using assms(2) by (auto simp: frame_addrs_def)
  then obtain n where n: "n \<in> {64, 56, 48, 40, 32, 24, 16 :: nat}" "a = base + STACK_SIZE - of_nat n"
    by blast
  have u: "unat a = unat base + 65536 - n" using n stack_top_addr(1) [OF assms(1), of n] by auto
  with n(1) show "unat base + 65472 \<le> unat a \<and> unat a < unat base + 65536" by auto
  with u show "base + STACK_SIZE - 64 \<le> a \<and> a < base + STACK_SIZE"
    using stack_top_addr(1) [OF assms(1), of 64] stack_top_addr(3) [OF assms(1)]
    by (simp add: word_le_nat_alt word_less_nat_alt)
qed

section \<open>Properties\<close>

text \<open>
  Suspending and resuming a thread is transparent to it. When \<open>switch_to\<close> leaves a
  thread and, after any execution that keeps the seven saved words, another \<open>switch_to\<close>
  enters the saved stack pointer, the thread continues at its return address with its own
  callee-saved registers and stack pointer, in the address space given to the second switch.
\<close>

theorem switch_round_trip:
  assumes "call_switch_to ret new_stack pt c = (sp, c1)"
    and "\<forall>a\<in>frame_addrs sp. stack_mem c2 a = stack_mem c1 a"
    and "frame_addrs sp \<inter> frame_addrs (rsp c2 - 56) = {}"
    and "call_switch_to ret2 sp pt2 c2 = (sp2, c3)"
  shows "callee_saved c3 = callee_saved c \<and> rip c3 = ret \<and> rsp c3 = rsp c \<and> cr3 c3 = pt2"
proof -
  have "callee_saved c3 @ [rip c3] = saved_frame (stack_mem c2) sp"
    by (rule switch_restores(1) [OF assms(4,3)])
  also have "\<dots> = saved_frame (stack_mem c1) sp"
    by (rule saved_frame_cong) (use assms(2) in blast)
  also have "\<dots> = callee_saved c @ [ret]" by (rule switch_saves(1) [OF assms(1)])
  finally have "callee_saved c3 @ [rip c3] = callee_saved c @ [ret]" .
  moreover have "rsp c3 = rsp c"
    using switch_restores(2) [OF assms(4,3)] switch_memory(1) [OF assms(1)] by simp
  ultimately show ?thesis using switch_restores(3) [OF assms(4,3)] by simp
qed

definition sample_cpu :: cpu where
  "sample_cpu = \<lparr>rip = 1, rsp = 0x8000, rbp = 2, rbx = 3, r12 = 4, r13 = 5, r14 = 6, r15 = 7,
     cr3 = 0x1000, stack_mem = (\<lambda>a. a)\<rparr>"

theorem switch_round_trip_witness:
  "\<exists>sp c1 sp2 c3. call_switch_to 0xAB 0x4000 0x2000 sample_cpu = (sp, c1)
     \<and> call_switch_to 0xCD sp 0x1000 c1 = (sp2, c3)
     \<and> callee_saved c3 = [7, 6, 5, 4, 3, 2] \<and> rip c3 = 0xAB \<and> rsp c3 = 0x8000"
proof -
  obtain sp c1 where 1: "call_switch_to 0xAB 0x4000 0x2000 sample_cpu = (sp, c1)" by fastforce
  obtain sp2 c3 where 2: "call_switch_to 0xCD sp 0x1000 c1 = (sp2, c3)" by fastforce
  have "sp = 0x7FC8" "rsp c1 = 0x4038"
    using 1 by (auto simp: switch_to_eq Let_def sample_cpu_def)
  then have "frame_addrs sp \<inter> frame_addrs (rsp c1 - 56) = {}"
    by (simp add: frame_addrs_def)
  from switch_round_trip [OF 1 _ this 2]
  have "callee_saved c3 = callee_saved sample_cpu \<and> rip c3 = 0xAB \<and> rsp c3 = rsp sample_cpu" by simp
  with 1 2 show ?thesis by (auto simp: callee_saved_def sample_cpu_def)
qed

text \<open>
  A thread that has never run starts correctly. \<open>build_initial_stack\<close> does not panic on a
  stack that ends below the top of the address space; it writes only the top 64 bytes of the
  stack; and the first switch to the pointer it returns enters the trampoline with zeroed
  callee-saved registers and a stack pointer of 8 modulo 16 inside the stack, as the calling
  convention requires at the entry of a function.
\<close>

theorem fresh_stack_enters_trampoline:
  assumes base: "unat base + unat STACK_SIZE < 2 ^ 64" "unat base mod 16 = 0"
  shows "\<exists>sp mem'. build_initial_stack tramp base mem = Inr (sp, mem')
    \<and> (\<forall>a. \<not> (base + STACK_SIZE - 64 \<le> a \<and> a < base + STACK_SIZE) \<longrightarrow> mem' a = mem a)
    \<and> (\<forall>c ret pt old c'. (\<forall>a\<in>frame_addrs sp. stack_mem c a = mem' a)
         \<and> frame_addrs sp \<inter> frame_addrs (rsp c - 56) = {}
         \<and> call_switch_to ret sp pt c = (old, c')
       \<longrightarrow> rip c' = tramp \<and> callee_saved c' = replicate 6 0 \<and> cr3 c' = pt
         \<and> unat (rsp c') mod 16 = 8 \<and> base \<le> rsp c' \<and> rsp c' < base + STACK_SIZE)"
proof -
  let ?sp = "base + STACK_SIZE - 64"
  obtain mem' where m: "build_initial_stack tramp base mem = Inr (?sp, mem')"
      "saved_frame mem' ?sp = [0, 0, 0, 0, 0, 0, tramp]"
      "\<And>a. a \<notin> frame_addrs ?sp \<Longrightarrow> mem' a = mem a"
    using build_initial_stack_frame [OF base(1)] by blast
  have "rip c' = tramp \<and> callee_saved c' = replicate 6 0 \<and> cr3 c' = pt
      \<and> unat (rsp c') mod 16 = 8 \<and> base \<le> rsp c' \<and> rsp c' < base + STACK_SIZE"
    if c: "\<forall>a\<in>frame_addrs ?sp. stack_mem c a = mem' a"
      "frame_addrs ?sp \<inter> frame_addrs (rsp c - 56) = {}"
      "call_switch_to ret ?sp pt c = (old, c')" for c ret pt old c'
  proof -
    have "callee_saved c' @ [rip c'] = saved_frame (stack_mem c) ?sp"
      by (rule switch_restores(1) [OF c(3,2)])
    also have "\<dots> = saved_frame mem' ?sp" by (rule saved_frame_cong) (use c(1) in blast)
    finally have "callee_saved c' @ [rip c'] = replicate 6 0 @ [tramp]"
      using m(2) by (simp add: numeral_eq_Suc)
    moreover have "rsp c' = base + STACK_SIZE - 8"
      using switch_restores(2) [OF c(3,2)] by simp
    moreover have "(unat base + 65528) mod 16 = 8"
      using base(2) mod_add_eq [of "unat base" 16 65528] by simp
    ultimately show ?thesis
      using switch_restores(3) [OF c(3,2)] stack_top_addr(2,3) [OF base(1)] base(2)
      by (simp add: word_le_nat_alt word_less_nat_alt)
  qed
  then show ?thesis using m(1,3) fresh_frame_addrs [OF base(1)] by blast
qed

theorem fresh_stack_enters_trampoline_witness:
  "\<exists>sp mem' old c'. build_initial_stack 0xAB 0x10000 (\<lambda>_. 9) = Inr (sp, mem')
     \<and> call_switch_to 0xCD sp 0x3000 (sample_cpu\<lparr>stack_mem := mem'\<rparr>) = (old, c')
     \<and> rip c' = 0xAB \<and> callee_saved c' = replicate 6 0 \<and> unat (rsp c') mod 16 = 8"
proof -
  have base: "unat (0x10000 :: u64) + unat STACK_SIZE < 2 ^ 64" "unat (0x10000 :: u64) mod 16 = 0"
    by (simp_all add: STACK_SIZE_def)
  obtain sp mem' where sp: "build_initial_stack 0xAB 0x10000 (\<lambda>_. 9) = Inr (sp, mem')"
    and run: "\<forall>c ret pt old c'. (\<forall>a\<in>frame_addrs sp. stack_mem c a = mem' a)
         \<and> frame_addrs sp \<inter> frame_addrs (rsp c - 56) = {}
         \<and> call_switch_to ret sp pt c = (old, c')
       \<longrightarrow> rip c' = 0xAB \<and> callee_saved c' = replicate 6 0 \<and> cr3 c' = pt
         \<and> unat (rsp c') mod 16 = 8 \<and> 0x10000 \<le> rsp c' \<and> rsp c' < 0x10000 + STACK_SIZE"
    using fresh_stack_enters_trampoline [OF base, of "0xAB" "\<lambda>_. 9"] by blast
  have "sp = 0x1FFC0"
    using sp build_initial_stack_eq [OF base(1)] by (simp add: Let_def STACK_SIZE_def)
  then have dis: "frame_addrs sp \<inter> frame_addrs (rsp (sample_cpu\<lparr>stack_mem := mem'\<rparr>) - 56) = {}"
    by (simp add: frame_addrs_def sample_cpu_def)
  obtain old c' where sw: "call_switch_to 0xCD sp 0x3000 (sample_cpu\<lparr>stack_mem := mem'\<rparr>) = (old, c')"
    by fastforce
  have "\<forall>a\<in>frame_addrs sp. stack_mem (sample_cpu\<lparr>stack_mem := mem'\<rparr>) a = mem' a" by simp
  with run dis sw have "rip c' = 0xAB \<and> callee_saved c' = replicate 6 0 \<and> unat (rsp c') mod 16 = 8"
    by blast
  with sp sw show ?thesis by blast
qed

end
