(* ===== verification/Frame_Alloc.thy ===== *)
theory Frame_Alloc
  imports X86 "HOL-Library.Multiset"
begin

text \<open>
  The physical frame allocator of \<open>src/memory.rs\<close>: \<open>BootInfoFrameAllocator\<close>, which walks the
  usable regions of the bootloader's memory map with a cursor and reuses freed frames first,
  and the global allocator around it, an \<open>Option\<close> that is \<open>None\<close> until
  \<open>init_frame_allocator\<close> has run.

  The locale \<open>frame_source\<close> is what the rest of the kernel relies on: the frames that are still
  available form a stack, an allocation takes its top and a deallocation pushes a frame.
\<close>

section \<open>The allocator\<close>

datatype memory_region_type = Usable | OtherRegion nat

record memory_region =
  region_type :: memory_region_type
  start_addr :: u64
  end_addr :: u64

record frame_allocator =
  memory_map :: "memory_region list"
  region_index :: nat
  next_frame_addr :: u64
  free_list :: "phys_frame list option"

definition usable_region :: "memory_region \<Rightarrow> bool" where
  "usable_region r \<longleftrightarrow> region_type r = Usable \<and> start_addr r < end_addr r"

function skip_to_next_usable_region :: "frame_allocator \<Rightarrow> frame_allocator" where
  "skip_to_next_usable_region s =
     (if region_index s < length (memory_map s)
      then let region = memory_map s ! region_index s
           in if usable_region region then s\<lparr>next_frame_addr := start_addr region\<rparr>
              else skip_to_next_usable_region (s\<lparr>region_index := region_index s + 1\<rparr>)
      else s)"
  by auto
termination
  by (relation "measure (\<lambda>s. length (memory_map s) - region_index s)") auto

declare skip_to_next_usable_region.simps [simp del]

definition BootInfoFrameAllocator_init :: "memory_region list \<Rightarrow> frame_allocator" where
  "BootInfoFrameAllocator_init regions =
     skip_to_next_usable_region
       \<lparr>memory_map = regions, region_index = 0, next_frame_addr = 0, free_list = None\<rparr>"

definition vec_pop :: "'a list \<Rightarrow> ('a \<times> 'a list) option" where
  "vec_pop xs = (if xs = [] then None else Some (last xs, butlast xs))"

definition allocate_frame :: "x86_api \<Rightarrow> frame_allocator \<Rightarrow> (phys_frame option \<times> frame_allocator) result" where
  "allocate_frame x s =
     (case Option.bind (free_list s) vec_pop of
        Some (frame, rest) \<Rightarrow> Inr (Some frame, s\<lparr>free_list := Some rest\<rparr>)
      | None \<Rightarrow>
          if length (memory_map s) \<le> region_index s then Inr (None, s)
          else
            bind_result (phys_new x (next_frame_addr s)) (\<lambda>addr.
            let frame = frame_containing x addr in
            bind_result (add_ovf (next_frame_addr s) 4096) (\<lambda>next.
            let s = s\<lparr>next_frame_addr := next\<rparr> in
            Inr (Some frame,
                 if end_addr (memory_map s ! region_index s) \<le> next_frame_addr s
                 then skip_to_next_usable_region (s\<lparr>region_index := region_index s + 1\<rparr>)
                 else s))))"

definition deallocate_frame :: "phys_frame \<Rightarrow> frame_allocator \<Rightarrow> frame_allocator" where
  "deallocate_frame frame s =
     s\<lparr>free_list := Some ((case free_list s of None \<Rightarrow> [] | Some fs \<Rightarrow> fs) @ [frame])\<rparr>"

definition init_frame_allocator :: "memory_region list \<Rightarrow> frame_allocator option" where
  "init_frame_allocator regions = Some (BootInfoFrameAllocator_init regions)"

definition global_allocate_frame ::
  "x86_api \<Rightarrow> frame_allocator option \<Rightarrow> (phys_frame option \<times> frame_allocator option) result" where
  "global_allocate_frame x g =
     bind_result (expect ''memory::init_frame_allocator was never called'' g) (\<lambda>s.
     bind_result (allocate_frame x s) (\<lambda>(frame, s). Inr (frame, Some s)))"

definition global_deallocate_frame :: "phys_frame \<Rightarrow> frame_allocator option \<Rightarrow> frame_allocator option result" where
  "global_deallocate_frame frame g =
     bind_result (expect ''memory::init_frame_allocator was never called'' g) (\<lambda>s.
     Inr (Some (deallocate_frame frame s)))"

section \<open>The interface\<close>

text \<open>
  A run of allocations (\<open>None\<close>) and deallocations (\<open>Some f\<close>) of the client, with the frames
  the client holds. A step that frees a frame the client does not hold is not a step of a
  correct client and stops the run.
\<close>

fun alloc_run ::
  "('s \<Rightarrow> ('f option \<times> 's) result) \<Rightarrow> ('f \<Rightarrow> 's \<Rightarrow> 's result) \<Rightarrow> 'f option list
   \<Rightarrow> 's \<times> 'f list \<Rightarrow> ('s \<times> 'f list) result" where
  "alloc_run alloc dealloc [] (s, held) = Inr (s, held)"
| "alloc_run alloc dealloc (None # ops) (s, held) =
     bind_result (alloc s) (\<lambda>(f, s).
       alloc_run alloc dealloc ops (s, (case f of None \<Rightarrow> held | Some f \<Rightarrow> f # held)))"
| "alloc_run alloc dealloc (Some f # ops) (s, held) =
     (if f \<in> set held
      then bind_result (dealloc f s) (\<lambda>s. alloc_run alloc dealloc ops (s, remove1 f held))
      else Inr (s, held))"

locale frame_source =
  fixes alloc :: "'s \<Rightarrow> (phys_frame option \<times> 's) result"
    and dealloc :: "phys_frame \<Rightarrow> 's \<Rightarrow> 's result"
    and avail :: "'s \<Rightarrow> phys_frame list"
    and invar :: "'s \<Rightarrow> bool"
  assumes alloc_none: "invar s \<Longrightarrow> avail s = [] \<Longrightarrow> alloc s = Inr (None, s)"
    and alloc_some: "invar s \<Longrightarrow> avail s = f # fs \<Longrightarrow>
      \<exists>s'. alloc s = Inr (Some f, s') \<and> invar s' \<and> avail s' = fs"
    and dealloc: "invar s \<Longrightarrow> \<exists>s'. dealloc f s = Inr s' \<and> invar s' \<and> avail s' = f # avail s"
begin

lemma alloc_returns:
  assumes "invar s"
  obtains f s' where "alloc s = Inr (f, s')" "invar s'"
    "avail s' = tl (avail s)" "f = (if avail s = [] then None else Some (hd (avail s)))"
proof (cases "avail s")
  case Nil
  then show ?thesis
    by (intro that [of None s] alloc_none [OF assms] assms) simp_all
next
  case (Cons f fs)
  obtain s' where "alloc s = Inr (Some f, s')" "invar s'" "avail s' = fs"
    using alloc_some [OF assms Cons] by blast
  then show ?thesis by (intro that [of "Some f" s']) (simp_all add: Cons)
qed

lemma alloc_SomeD:
  assumes "invar s" and "alloc s = Inr (Some f, s')"
  shows "invar s' \<and> avail s = f # avail s'"
proof -
  obtain g t where "alloc s = Inr (g, t)" "invar t" "avail t = tl (avail s)"
    "g = (if avail s = [] then None else Some (hd (avail s)))"
    using alloc_returns [OF assms(1)] by blast
  with assms(2) show ?thesis by (cases "avail s") auto
qed

lemma alloc_run_conserves:
  assumes "invar s"
  shows "\<exists>s' held'. alloc_run alloc dealloc ops (s, held) = Inr (s', held') \<and> invar s'
    \<and> mset (avail s') + mset held' = mset (avail s) + mset held"
  using assms
proof (induction ops arbitrary: s held)
  case Nil
  then show ?case by simp
next
  case (Cons op ops)
  show ?case
  proof (cases op)
    case None
    obtain f s1 where a: "alloc s = Inr (f, s1)" "invar s1" "avail s1 = tl (avail s)"
      "f = (if avail s = [] then None else Some (hd (avail s)))"
      using alloc_returns [OF Cons.prems] by blast
    let ?held = "case f of None \<Rightarrow> held | Some f \<Rightarrow> f # held"
    have "mset (avail s1) + mset ?held = mset (avail s) + mset held"
      using a(3,4) by (cases "avail s") auto
    then show ?thesis
      using Cons.IH [OF a(2), of ?held] by (simp add: None a(1))
  next
    case (Some f)
    show ?thesis
    proof (cases "f \<in> set held")
      case True
      obtain s1 where d: "dealloc f s = Inr s1" "invar s1" "avail s1 = f # avail s"
        using dealloc [OF Cons.prems] by blast
      then show ?thesis
        using Cons.IH [OF d(2), of "remove1 f held"] True by (simp add: Some d)
    qed (use Some Cons.prems in simp)
  qed
qed

text \<open>The frames a client holds are pairwise different and are not available to anyone else.\<close>

lemma alloc_run_exclusive:
  assumes "invar s" and "distinct (avail s)"
    and "alloc_run alloc dealloc ops (s, []) = Inr (s', held)"
  shows "distinct (avail s' @ held) \<and> set (avail s' @ held) = set (avail s)"
proof -
  have "mset (avail s' @ held) = mset (avail s)"
    using alloc_run_conserves [OF assms(1), of ops "[]"] assms(3) by simp
  then show ?thesis using assms(2) by (metis mset_eq_imp_distinct_iff mset_eq_setD)
qed

end


section \<open>The frames that are still available\<close>

definition page_aligned :: "u64 \<Rightarrow> bool" where
  "page_aligned a \<longleftrightarrow> 4096 dvd unat a"

definition frames_between :: "u64 \<Rightarrow> u64 \<Rightarrow> phys_frame list" where
  "frames_between a b = map (\<lambda>k. a + of_nat (4096 * k)) [0..<(unat b - unat a) div 4096]"

definition region_frames :: "memory_region \<Rightarrow> phys_frame list" where
  "region_frames r = (if usable_region r then frames_between (start_addr r) (end_addr r) else [])"

definition fresh_frames :: "frame_allocator \<Rightarrow> phys_frame list" where
  "fresh_frames s =
     (if region_index s < length (memory_map s)
      then frames_between (next_frame_addr s) (end_addr (memory_map s ! region_index s))
           @ concat (map region_frames (drop (Suc (region_index s)) (memory_map s)))
      else [])"

definition avail_frames :: "frame_allocator \<Rightarrow> phys_frame list" where
  "avail_frames s = rev (case free_list s of None \<Rightarrow> [] | Some fs \<Rightarrow> fs) @ fresh_frames s"

text \<open>
  The memory map is well-formed when its regions begin and end at frame boundaries below the
  52-bit limit of physical addresses, as the bootloader's frame ranges do.
\<close>

definition region_valid :: "memory_region \<Rightarrow> bool" where
  "region_valid r \<longleftrightarrow> page_aligned (start_addr r) \<and> page_aligned (end_addr r) \<and> unat (end_addr r) \<le> 2 ^ 52"

definition allocator_ok :: "frame_allocator \<Rightarrow> bool" where
  "allocator_ok s \<longleftrightarrow> (\<forall>r \<in> set (memory_map s). region_valid r)
     \<and> (region_index s < length (memory_map s) \<longrightarrow>
          usable_region (memory_map s ! region_index s)
          \<and> page_aligned (next_frame_addr s)
          \<and> next_frame_addr s < end_addr (memory_map s ! region_index s))"

lemma take_bit_page_aligned: "page_aligned a \<longleftrightarrow> take_bit 12 a = 0"
proof -
  have "unat (take_bit 12 a) = unat a mod 4096"
    unfolding unsigned_take_bit_eq by (simp add: take_bit_eq_mod)
  moreover have "take_bit 12 a = 0 \<longleftrightarrow> unat (take_bit 12 a) = 0" by (simp add: word_unat_eq_iff)
  ultimately show ?thesis by (simp add: page_aligned_def mod_eq_0_iff_dvd)
qed

lemma frame_of_aligned:
  assumes "page_aligned a"
  shows "push_bit 12 (drop_bit 12 a) = a"
  using assms bits_ident [of 12 a] by (simp add: take_bit_page_aligned)

lemma phys_limit:
  assumes "unat a < 2 ^ 52"
  shows "drop_bit 52 a = 0"
proof -
  have "unat (drop_bit 52 a) = unat a div 2 ^ 52"
    unfolding unat_drop_bit_eq by (rule drop_bit_eq_div)
  with assms show ?thesis by (simp add: word_unat_eq_iff)
qed

lemma frames_between_empty: "b \<le> a \<Longrightarrow> frames_between a b = []"
  by (simp add: frames_between_def word_le_nat_alt)

lemma aligned_next:
  assumes "page_aligned a" "page_aligned b" "a < b" "unat b \<le> 2 ^ 52"
  shows "unat (a + 4096) = unat a + 4096 \<and> a + 4096 \<le> b \<and> page_aligned (a + 4096)"
proof -
  have lt: "unat a < unat b" using assms(3) by (simp add: word_less_nat_alt)
  obtain i j where "unat a = 4096 * i" "unat b = 4096 * j"
    using assms(1,2) by (auto simp: page_aligned_def elim!: dvdE)
  with lt have le: "unat a + 4096 \<le> unat b" by auto
  then have "unat (a + 4096) = unat a + 4096"
    using assms(4) by (simp add: unat_word_ariths)
  with le assms(1) show ?thesis by (simp add: word_le_nat_alt page_aligned_def)
qed

lemma frames_between_step:
  assumes "page_aligned a" "page_aligned b" "a < b" "unat b \<le> 2 ^ 52"
  shows "frames_between a b = a # frames_between (a + 4096) b"
proof -
  have nxt: "unat (a + 4096) = unat a + 4096" "unat a + 4096 \<le> unat b"
    using aligned_next [OF assms] by (simp_all add: word_le_nat_alt)
  define n where "n = (unat b - unat (a + 4096)) div 4096"
  have "unat b - unat a = unat b - unat (a + 4096) + 4096" using nxt by simp
  then have n: "(unat b - unat a) div 4096 = Suc n" "(unat b - unat (a + 4096)) div 4096 = n"
    by (simp_all add: n_def)
  have "map (\<lambda>k. a + of_nat (4096 * k)) [0..<Suc n]
      = a # map (\<lambda>k. a + of_nat (4096 * Suc k)) [0..<n]"
    by (simp add: map_upt_Suc del: upt_Suc)
  then show ?thesis unfolding frames_between_def n by (simp add: algebra_simps)
qed

section \<open>Correctness of the cursor\<close>

lemma skip_keeps:
  "memory_map (skip_to_next_usable_region s) = memory_map s
   \<and> free_list (skip_to_next_usable_region s) = free_list s"
proof (induction s rule: skip_to_next_usable_region.induct)
  case (1 s)
  then show ?case unfolding skip_to_next_usable_region.simps [of s] by (simp add: Let_def)
qed

lemma region_frames_unusable: "\<not> usable_region r \<Longrightarrow> region_frames r = []"
  by (simp add: region_frames_def)

lemma skip_fresh:
  "fresh_frames (skip_to_next_usable_region s)
   = concat (map region_frames (drop (region_index s) (memory_map s)))"
proof (induction s rule: skip_to_next_usable_region.induct)
  case (1 s)
  show ?case
  proof (cases "region_index s < length (memory_map s)")
    case True
    then have d: "drop (region_index s) (memory_map s)
        = memory_map s ! region_index s # drop (Suc (region_index s)) (memory_map s)"
      by (rule Cons_nth_drop_Suc [symmetric])
    show ?thesis
    proof (cases "usable_region (memory_map s ! region_index s)")
      case usable: True
      with True show ?thesis
        by (subst skip_to_next_usable_region.simps)
          (simp add: d Let_def fresh_frames_def region_frames_def [of "memory_map s ! region_index s"])
    next
      case False
      with True 1 show ?thesis
        by (subst skip_to_next_usable_region.simps) (simp add: d Let_def region_frames_unusable)
    qed
  next
    case False
    then show ?thesis by (subst skip_to_next_usable_region.simps) (simp add: fresh_frames_def)
  qed
qed

lemma skip_ok:
  assumes "\<forall>r \<in> set (memory_map s). region_valid r"
  shows "allocator_ok (skip_to_next_usable_region s)"
  using assms
proof (induction s rule: skip_to_next_usable_region.induct)
  case (1 s)
  show ?case
  proof (cases "region_index s < length (memory_map s) \<and> \<not> usable_region (memory_map s ! region_index s)")
    case True
    with 1 show ?thesis by (subst skip_to_next_usable_region.simps) (simp add: Let_def)
  next
    case False
    then have "skip_to_next_usable_region s =
        (if region_index s < length (memory_map s)
         then s\<lparr>next_frame_addr := start_addr (memory_map s ! region_index s)\<rparr> else s)"
      by (subst skip_to_next_usable_region.simps) (simp add: Let_def)
    with False "1.prems" show ?thesis
      by (simp add: allocator_ok_def region_valid_def usable_region_def)
  qed
qed

lemma init_available:
  assumes "\<forall>r \<in> set regions. region_valid r"
  shows "allocator_ok (BootInfoFrameAllocator_init regions)
    \<and> avail_frames (BootInfoFrameAllocator_init regions) = concat (map region_frames regions)"
  using assms
  by (simp add: BootInfoFrameAllocator_init_def skip_ok avail_frames_def skip_keeps skip_fresh)

lemma allocate_fresh:
  assumes x: "x86_laws x" and ok: "allocator_ok s"
    and none: "Option.bind (free_list s) vec_pop = None"
    and i: "region_index s < length (memory_map s)"
  shows "\<exists>s'. allocate_frame x s = Inr (Some (next_frame_addr s), s') \<and> allocator_ok s'
    \<and> free_list s' = free_list s \<and> fresh_frames s = next_frame_addr s # fresh_frames s'"
proof -
  let ?a = "next_frame_addr s" and ?r = "memory_map s ! region_index s"
  have r: "region_valid ?r" and u: "usable_region ?r" and al: "page_aligned ?a" and lt: "?a < end_addr ?r"
    using ok i by (simp_all add: allocator_ok_def)
  have le: "unat (end_addr ?r) \<le> 2 ^ 52" and al': "page_aligned (end_addr ?r)"
    using r by (simp_all add: region_valid_def)
  have ua: "unat ?a < 2 ^ 52" using lt le by (simp add: word_less_nat_alt)
  have "phys_try_new x ?a = Some ?a" and "frame_containing x ?a = ?a"
    using x phys_limit [OF ua] frame_of_aligned [OF al] by (simp_all add: x86_laws_def)
  moreover have "add_ovf ?a 4096 = Inr (?a + 4096)"
    using ua by (intro add_ovf_no_overflow) simp
  moreover define s1 where "s1 = s\<lparr>next_frame_addr := ?a + 4096\<rparr>"
  moreover define s' where "s' = (if end_addr ?r \<le> ?a + 4096
      then skip_to_next_usable_region (s1\<lparr>region_index := region_index s + 1\<rparr>) else s1)"
  ultimately have alloc: "allocate_frame x s = Inr (Some ?a, s')"
    using none i by (simp add: allocate_frame_def phys_new_def Let_def)
  have step: "frames_between ?a (end_addr ?r) = ?a # frames_between (?a + 4096) (end_addr ?r)"
    by (rule frames_between_step [OF al al' lt le])
  have nxt: "page_aligned (?a + 4096)"
    using aligned_next [OF al al' lt le] by blast
  show ?thesis
  proof (cases "end_addr ?r \<le> ?a + 4096")
    case True
    then have s': "s' = skip_to_next_usable_region (s1\<lparr>region_index := region_index s + 1\<rparr>)"
      by (simp add: s'_def)
    have "\<forall>r \<in> set (memory_map s). region_valid r" using ok by (simp add: allocator_ok_def)
    then have "allocator_ok s'" "free_list s' = free_list s"
      unfolding s' by (simp_all add: skip_ok skip_keeps s1_def)
    moreover have "fresh_frames s = ?a # fresh_frames s'"
      unfolding s' skip_fresh using i True
      by (simp add: fresh_frames_def [of s] step frames_between_empty s1_def)
    ultimately show ?thesis using alloc by blast
  next
    case False
    then have s': "s' = s\<lparr>next_frame_addr := ?a + 4096\<rparr>" by (simp add: s'_def s1_def)
    have "allocator_ok s'" "free_list s' = free_list s"
      unfolding s' using ok False nxt by (simp_all add: allocator_ok_def not_le)
    moreover have "fresh_frames s = ?a # fresh_frames s'"
      unfolding s' using i step by (simp add: fresh_frames_def)
    ultimately show ?thesis using alloc by blast
  qed
qed

lemma vec_pop_None_iff: "Option.bind fl vec_pop = None \<longleftrightarrow> (case fl of None \<Rightarrow> [] | Some fs \<Rightarrow> fs) = []"
  by (cases fl) (simp_all add: vec_pop_def)

lemma allocate_spec:
  assumes "x86_laws x" and ok: "allocator_ok s"
  shows "avail_frames s = [] \<Longrightarrow> allocate_frame x s = Inr (None, s)"
    and "avail_frames s = f # fs \<Longrightarrow>
      \<exists>s'. allocate_frame x s = Inr (Some f, s') \<and> allocator_ok s' \<and> avail_frames s' = fs"
proof -
  assume "avail_frames s = []"
  then have e: "Option.bind (free_list s) vec_pop = None" "fresh_frames s = []"
    by (simp_all add: avail_frames_def vec_pop_None_iff)
  then have "length (memory_map s) \<le> region_index s"
    using allocate_fresh [OF assms(1) ok e(1)] by (metis list.distinct(1) not_le)
  then show "allocate_frame x s = Inr (None, s)" by (simp add: allocate_frame_def e)
next
  assume av: "avail_frames s = f # fs"
  show "\<exists>s'. allocate_frame x s = Inr (Some f, s') \<and> allocator_ok s' \<and> avail_frames s' = fs"
  proof (cases "Option.bind (free_list s) vec_pop")
    case None
    then have e: "(case free_list s of None \<Rightarrow> [] | Some fs \<Rightarrow> fs) = []" by (simp add: vec_pop_None_iff)
    then have "fresh_frames s = f # fs" using av by (simp add: avail_frames_def)
    moreover from this have "region_index s < length (memory_map s)"
      by (auto simp: fresh_frames_def split: if_splits)
    ultimately show ?thesis
      using allocate_fresh [OF assms(1) ok None] e by (auto simp: avail_frames_def)
  next
    case (Some p)
    then obtain gs where g: "free_list s = Some gs" "gs \<noteq> []" "p = (last gs, butlast gs)"
      by (auto simp: vec_pop_def split: if_splits bind_splits)
    then have "f = last gs \<and> fs = rev (butlast gs) @ fresh_frames s"
      using av by (cases gs rule: rev_cases) (auto simp: avail_frames_def)
    moreover have "allocator_ok (s\<lparr>free_list := Some (butlast gs)\<rparr>)"
      using ok by (simp add: allocator_ok_def)
    moreover have "fresh_frames (s\<lparr>free_list := Some (butlast gs)\<rparr>) = fresh_frames s"
      by (simp add: fresh_frames_def)
    ultimately show ?thesis
      using Some g by (simp add: allocate_frame_def avail_frames_def)
  qed
qed

lemma deallocate_spec:
  "allocator_ok (deallocate_frame f s) = allocator_ok s
   \<and> avail_frames (deallocate_frame f s) = f # avail_frames s"
  by (simp add: deallocate_frame_def allocator_ok_def avail_frames_def fresh_frames_def)

definition global_avail :: "frame_allocator option \<Rightarrow> phys_frame list" where
  "global_avail g = (case g of None \<Rightarrow> [] | Some s \<Rightarrow> avail_frames s)"

definition global_ok :: "frame_allocator option \<Rightarrow> bool" where
  "global_ok g \<longleftrightarrow> (case g of None \<Rightarrow> False | Some s \<Rightarrow> allocator_ok s)"

interpretation boot_frames: frame_source "allocate_frame x" "\<lambda>f s. Inr (deallocate_frame f s)"
  avail_frames "\<lambda>s. x86_laws x \<and> allocator_ok s" for x
  by unfold_locales (auto simp: allocate_spec deallocate_spec)

interpretation global_frames: frame_source "global_allocate_frame x" global_deallocate_frame
  global_avail "\<lambda>g. x86_laws x \<and> global_ok g" for x
proof
  fix g assume ok: "x86_laws x \<and> global_ok g"
  then obtain s where s: "g = Some s" "allocator_ok s" by (auto simp: global_ok_def split: option.splits)
  show "global_avail g = [] \<Longrightarrow> global_allocate_frame x g = Inr (None, g)"
    using ok s by (simp add: global_avail_def global_allocate_frame_def allocate_spec)
  fix f
  show "\<exists>g'. global_deallocate_frame f g = Inr g' \<and> (x86_laws x \<and> global_ok g')
      \<and> global_avail g' = f # global_avail g"
    using ok s by (simp add: global_deallocate_frame_def global_ok_def global_avail_def deallocate_spec)
  fix fs
  show "global_avail g = f # fs \<Longrightarrow> \<exists>g'. global_allocate_frame x g = Inr (Some f, g')
      \<and> (x86_laws x \<and> global_ok g') \<and> global_avail g' = fs"
    using ok s allocate_spec(2) [of x s f fs]
    by (auto simp: global_avail_def global_allocate_frame_def global_ok_def)
qed

section \<open>Frames are never handed out twice\<close>

definition regions_disjoint :: "memory_region list \<Rightarrow> bool" where
  "regions_disjoint regions \<longleftrightarrow>
     sorted_wrt (\<lambda>r r'. end_addr r \<le> start_addr r' \<or> end_addr r' \<le> start_addr r) (filter usable_region regions)"

lemma frames_between_nth:
  fixes a b :: u64
  assumes "k < (unat b - unat a) div 4096"
  shows "unat (a + of_nat (4096 * k)) = unat a + 4096 * k \<and> unat a + 4096 * k < unat b"
proof -
  have "Suc k * 4096 \<le> unat b - unat a"
    using assms less_eq_div_iff_mult_less_eq [of 4096 "Suc k" "unat b - unat a"] by simp
  then have "4096 * k < unat b - unat a" by simp
  moreover have "unat b < 2 ^ 64" by (rule less_le_trans [OF unsigned_less]) simp
  ultimately show ?thesis by (simp add: unat_word_ariths unat_of_nat)
qed

lemma frames_between_range: "f \<in> set (frames_between a b) \<Longrightarrow> a \<le> f \<and> f < b"
proof -
  assume "f \<in> set (frames_between a b)"
  then obtain k where "k < (unat b - unat a) div 4096" "f = a + of_nat (4096 * k)"
    by (auto simp: frames_between_def)
  with frames_between_nth [of k b a] show ?thesis by (simp add: word_le_nat_alt word_less_nat_alt)
qed

lemma distinct_frames_between: "distinct (frames_between a b)"
  unfolding frames_between_def distinct_map
proof (intro conjI inj_onI)
  fix j k assume "j \<in> set [0..<(unat b - unat a) div 4096]" "k \<in> set [0..<(unat b - unat a) div 4096]"
    and eq: "a + of_nat (4096 * j) = a + of_nat (4096 * k)"
  then have "unat a + 4096 * j = unat a + 4096 * k"
    using frames_between_nth [of j b a] frames_between_nth [of k b a] by simp
  then show "j = k" by simp
qed simp

lemma distinct_region_frames:
  assumes "regions_disjoint regions"
  shows "distinct (concat (map region_frames regions))"
  using assms
proof (induction regions)
  case (Cons r regions)
  have IH: "distinct (concat (map region_frames regions))"
    using Cons by (cases "usable_region r") (simp_all add: regions_disjoint_def)
  have "f \<notin> set (concat (map region_frames regions))" if "f \<in> set (region_frames r)" for f
  proof
    assume "f \<in> set (concat (map region_frames regions))"
    then obtain r' where r': "r' \<in> set regions" "f \<in> set (region_frames r')" by auto
    have "usable_region r" "usable_region r'" and "start_addr r \<le> f" "f < end_addr r"
      and "start_addr r' \<le> f" "f < end_addr r'"
      using that r' frames_between_range by (auto simp: region_frames_def split: if_splits)
    moreover have "end_addr r \<le> start_addr r' \<or> end_addr r' \<le> start_addr r"
      using Cons.prems r'(1) calculation(1,2) by (simp add: regions_disjoint_def)
    ultimately show False by (meson leD le_less_trans less_le_trans)
  qed
  then show ?case
    using IH distinct_frames_between by (auto simp: region_frames_def [of r])
qed simp

text \<open>
  C33. No physical frame is in two hands at once. Whatever sequence of allocations and
  deallocations runs on the global allocator after \<open>init_frame_allocator\<close>, every call returns,
  the frames in use are pairwise different, none of them is also available, and together
  with the available ones they are exactly the frames of the usable regions of the memory map.
\<close>

theorem frames_exclusive:
  assumes "x86_laws x" and "\<forall>r \<in> set regions. region_valid r" and "regions_disjoint regions"
  shows "\<exists>g held. alloc_run (global_allocate_frame x) global_deallocate_frame ops
      (init_frame_allocator regions, []) = Inr (g, held)
    \<and> distinct (held @ global_avail g)
    \<and> set (held @ global_avail g) = set (concat (map region_frames regions))"
proof -
  let ?g = "init_frame_allocator regions"
  have ok: "x86_laws x \<and> global_ok ?g"
    and av: "global_avail ?g = concat (map region_frames regions)"
    using assms(1) init_available [OF assms(2)]
    by (simp_all add: init_frame_allocator_def global_ok_def global_avail_def)
  obtain g held where run: "alloc_run (global_allocate_frame x) global_deallocate_frame ops (?g, []) = Inr (g, held)"
    using global_frames.alloc_run_conserves [OF ok] by blast
  have "distinct (global_avail g @ held) \<and> set (global_avail g @ held) = set (global_avail ?g)"
    by (rule global_frames.alloc_run_exclusive [OF ok _ run])
      (simp add: av distinct_region_frames [OF assms(3)])
  with run av show ?thesis by (auto simp: Un_commute)
qed

theorem frames_exclusive_witness:
  "\<exists>g held. alloc_run (global_allocate_frame x86_ref) global_deallocate_frame [None, None, Some 0x1000, None]
      (init_frame_allocator
         [\<lparr>region_type = OtherRegion 1, start_addr = 0, end_addr = 0x1000\<rparr>,
          \<lparr>region_type = Usable, start_addr = 0x1000, end_addr = 0x2000\<rparr>,
          \<lparr>region_type = Usable, start_addr = 0x8000, end_addr = 0xA000\<rparr>], []) = Inr (g, held)
    \<and> distinct (held @ global_avail g) \<and> set (held @ global_avail g) = {0x1000, 0x8000, 0x9000}"
  using frames_exclusive [OF x86_ref_laws, where ops = "[None, None, Some 0x1000, None]" and regions =
      "[\<lparr>region_type = OtherRegion 1, start_addr = 0, end_addr = 0x1000\<rparr>,
        \<lparr>region_type = Usable, start_addr = 0x1000, end_addr = 0x2000\<rparr>,
        \<lparr>region_type = Usable, start_addr = 0x8000, end_addr = 0xA000\<rparr>]"]
  by (simp add: region_valid_def page_aligned_def regions_disjoint_def usable_region_def
      region_frames_def frames_between_def upt_rec)

end
