(* ===== verification/Paging.thy ===== *)
theory Paging
  imports Frame_Alloc
begin

text \<open>
  Page tables, \<open>src/memory.rs\<close>: the manual walk \<open>translate_addr_inner\<close>, the check of a user's
  memory range that every system call with a pointer runs (\<open>user_range_mapped\<close>,
  \<open>page_accessible\<close>), and the creation and destruction of isolated address spaces
  (\<open>new_address_space\<close>, \<open>free_address_space\<close>, \<open>free_table\<close>).

  Physical memory maps a frame and an offset in it to a byte. The kernel reaches a frame
  through the window at \<open>physical_memory_offset\<close>, where all of physical memory is mapped (the
  safety precondition of these functions), so the table behind
  \<open>physical_memory_offset + frame\<close> is the contents of the frame. An entry is the
  little-endian 64-bit number at eight times its index.
\<close>

type_synonym pmem = "phys_frame \<Rightarrow> nat \<Rightarrow> u8"

definition read_entry :: "pmem \<Rightarrow> phys_frame \<Rightarrow> nat \<Rightarrow> u64" where
  "read_entry pm frame i = from_le_bytes (map (\<lambda>k. pm frame (8 * i + k)) [0..<8])"

definition write_entry :: "pmem \<Rightarrow> phys_frame \<Rightarrow> nat \<Rightarrow> u64 \<Rightarrow> pmem" where
  "write_entry pm frame i e =
     pm(frame := (\<lambda>j. if 8 * i \<le> j \<and> j < 8 * i + 8 then to_le_bytes 8 e ! (j - 8 * i) else pm frame j))"

section \<open>Walking the active table\<close>

fun translate_levels ::
  "x86_api \<Rightarrow> pmem \<Rightarrow> virt_addr \<Rightarrow> nat list \<Rightarrow> phys_frame \<Rightarrow> phys_frame option result" where
  "translate_levels x pm addr [] frame = Inr (Some frame)"
| "translate_levels x pm addr (level # levels) frame =
     (case entry_frame x (read_entry pm frame (p_index x level addr)) of
        Inr frame \<Rightarrow> translate_levels x pm addr levels frame
      | Inl FrameNotPresent \<Rightarrow> Inr None
      | Inl HugeFrame \<Rightarrow> panic ''huge pages not supported'')"

definition translate_addr_inner :: "x86_api \<Rightarrow> pmem \<Rightarrow> phys_frame \<Rightarrow> virt_addr \<Rightarrow> phys_addr option result" where
  "translate_addr_inner x pm cr3 addr =
     bind_result (translate_levels x pm addr [4, 3, 2, 1] cr3) (\<lambda>frame.
       case frame of
         None \<Rightarrow> Inr None
       | Some frame \<Rightarrow>
           bind_result (add_ovf frame (page_offset x addr)) (\<lambda>sum.
           bind_result (phys_new x sum) (\<lambda>addr. Inr (Some addr))))"

fun accessible_levels :: "x86_api \<Rightarrow> pmem \<Rightarrow> virt_addr \<Rightarrow> u64 \<Rightarrow> nat list \<Rightarrow> phys_frame \<Rightarrow> bool" where
  "accessible_levels x pm addr required [] frame \<longleftrightarrow> True"
| "accessible_levels x pm addr required (level # levels) frame \<longleftrightarrow>
     (let entry = read_entry pm frame (p_index x level addr)
      in if \<not> flags_contain (entry_flags x entry) required then False
         else case entry_frame x entry of
                Inr frame \<Rightarrow> accessible_levels x pm addr required levels frame
              | Inl FrameNotPresent \<Rightarrow> False
              | Inl HugeFrame \<Rightarrow> False)"

definition page_accessible :: "x86_api \<Rightarrow> pmem \<Rightarrow> phys_frame \<Rightarrow> virt_addr \<Rightarrow> bool \<Rightarrow> bool" where
  "page_accessible x pm cr3 addr need_write =
     (let required = PRESENT OR USER_ACCESSIBLE;
          required = (if need_write then required OR WRITABLE else required)
      in accessible_levels x pm addr required [4, 3, 2, 1] cr3)"

text \<open>The loop over the pages of a range; \<open>None\<close> would be a loop that never ends.\<close>

partial_function (option) user_range_loop ::
  "x86_api \<Rightarrow> pmem \<Rightarrow> phys_frame \<Rightarrow> bool \<Rightarrow> virt_addr \<Rightarrow> virt_addr \<Rightarrow> bool result option" where
  "user_range_loop x pm cr3 need_write last_page page =
     (if \<not> page_accessible x pm cr3 page need_write then Some (Inr False)
      else if page = last_page then Some (Inr True)
      else (case page_add x page 1 of
              Inl e \<Rightarrow> Some (Inl e)
            | Inr page \<Rightarrow> user_range_loop x pm cr3 need_write last_page page))"

definition user_range_mapped ::
  "x86_api \<Rightarrow> pmem \<Rightarrow> phys_frame \<Rightarrow> virt_addr \<Rightarrow> u64 \<Rightarrow> bool \<Rightarrow> bool result option" where
  "user_range_mapped x pm cr3 addr len need_write =
     (if len = 0 then Some (Inr True)
      else (case checked_add addr (len - 1) of
              None \<Rightarrow> Some (Inr False)
            | Some last_byte \<Rightarrow>
                (case virt_new x last_byte of
                   Inl e \<Rightarrow> Some (Inl e)
                 | Inr last_addr \<Rightarrow>
                     user_range_loop x pm cr3 need_write (page_containing x last_addr) (page_containing x addr))))"

section \<open>Isolated address spaces\<close>

definition PageTable_new :: "pmem \<Rightarrow> phys_frame \<Rightarrow> pmem" where
  "PageTable_new pm frame = pm(frame := (\<lambda>j. if j < 4096 then 0 else pm frame j))"

text \<open>
  \<open>new_address_space\<close>, for any frame allocator: the new table, the memory and the allocator
  after it. The mapper it also returns is the table's frame again.
\<close>

definition new_address_space ::
  "x86_api \<Rightarrow> ('s \<Rightarrow> (phys_frame option \<times> 's) result) \<Rightarrow> virt_addr \<Rightarrow> phys_frame \<Rightarrow> pmem \<Rightarrow> 's
   \<Rightarrow> (phys_frame \<times> pmem \<times> 's) result" where
  "new_address_space x alloc physical_memory_offset cr3 pm s =
     bind_result (alloc s) (\<lambda>(frame, s).
     bind_result (expect ''no physical frames left for a new address space's L4 table'' frame) (\<lambda>new_l4_frame.
     let pm = PageTable_new pm new_l4_frame;
         pm = write_entry pm new_l4_frame 0 (read_entry pm cr3 0);
         offset_p4_index = p_index x 4 physical_memory_offset;
         pm = write_entry pm new_l4_frame offset_p4_index (read_entry pm cr3 offset_p4_index)
     in Inr (new_l4_frame, pm, s)))"

definition in_range :: "u64 \<times> u64 \<Rightarrow> u64 \<Rightarrow> bool" where
  "in_range r a \<longleftrightarrow> fst r \<le> a \<and> a < snd r"

fun free_table ::
  "x86_api \<Rightarrow> pmem \<Rightarrow> (phys_frame \<Rightarrow> 's \<Rightarrow> 's result) \<Rightarrow> u64 \<times> u64 \<Rightarrow> nat \<Rightarrow> phys_frame \<Rightarrow> u64 \<Rightarrow> 's
   \<Rightarrow> 's result" where
  "free_table x pm dealloc borrowed_data_range 0 frame base_addr s =
     panic ''attempt to subtract with overflow''"
| "free_table x pm dealloc borrowed_data_range (Suc l) frame base_addr s =
     (let shift = 12 + 9 * l in
      bind_result
        (for_each [0..<512]
           (\<lambda>i s.
              let entry = read_entry pm frame i in
              if \<not> flags_contain (entry_flags x entry) PRESENT then Inr s
              else (case entry_frame x entry of
                      Inl _ \<Rightarrow> panic ''present page-table entry with no frame (huge page?)''
                    | Inr child \<Rightarrow>
                        (let child_addr = base_addr OR push_bit shift (of_nat i) in
                         if 1 < Suc l
                         then free_table x pm dealloc borrowed_data_range l child child_addr s
                         else if \<not> in_range borrowed_data_range child_addr then dealloc child s
                         else Inr s)))
           s)
        (dealloc frame))"

definition free_address_space ::
  "x86_api \<Rightarrow> pmem \<Rightarrow> (phys_frame \<Rightarrow> 's \<Rightarrow> 's result) \<Rightarrow> phys_frame \<Rightarrow> virt_addr \<Rightarrow> u64 \<times> u64 \<Rightarrow> 's
   \<Rightarrow> 's result" where
  "free_address_space x pm dealloc l4_frame physical_memory_offset borrowed_data_range s =
     (let offset_p4_index = p_index x 4 physical_memory_offset in
      bind_result
        (for_each [0..<512]
           (\<lambda>i s.
              if i = 0 \<or> i = offset_p4_index then Inr s
              else let entry = read_entry pm l4_frame i in
              if \<not> flags_contain (entry_flags x entry) PRESENT then Inr s
              else (case entry_frame x entry of
                      Inl _ \<Rightarrow> panic ''present L4 entry with no frame (huge page?)''
                    | Inr l3_frame \<Rightarrow>
                        free_table x pm dealloc borrowed_data_range 3 l3_frame (push_bit 39 (of_nat i)) s))
           s)
        (dealloc l4_frame))"

section \<open>Reading and writing entries\<close>

lemma read_write_entry:
  "read_entry (write_entry pm f i e) g j = (if g = f \<and> j = i then e else read_entry pm g j)"
proof (cases "g = f \<and> j = i")
  case True
  have "map (\<lambda>k. write_entry pm f i e f (8 * i + k)) [0..<8] = to_le_bytes 8 e"
    by (rule nth_equalityI) (auto simp: write_entry_def)
  then show ?thesis
    using True from_to_le_bytes [where n = 8 and w = e] by (simp add: read_entry_def)
next
  case False
  have "8 * j + k < 8 * i \<or> 8 * i + 8 \<le> 8 * j + k" if "k < 8" "j \<noteq> i" for k
    using that by (cases j i rule: linorder_cases) auto
  then have "map (\<lambda>k. write_entry pm f i e g (8 * j + k)) [0..<8] = map (\<lambda>k. pm g (8 * j + k)) [0..<8]"
    using False by (auto simp: write_entry_def)
  then show ?thesis unfolding read_entry_def by (simp only: False if_False)
qed

lemma read_entry_new_table:
  "j < 512 \<Longrightarrow> read_entry (PageTable_new pm f) g j = (if g = f then 0 else read_entry pm g j)"
proof -
  assume "j < 512"
  have "from_le_bytes (replicate n 0 :: u8 list) = (0 :: u64)" for n
    by (induction n) simp_all
  moreover have "map (\<lambda>k. PageTable_new pm f f (8 * j + k)) [0..<8] = replicate 8 0"
    using \<open>j < 512\<close> by (intro nth_equalityI) (auto simp: PageTable_new_def)
  ultimately show ?thesis by (simp add: read_entry_def PageTable_new_def)
qed

section \<open>Checking a user's range\<close>

lemma accessible_translates:
  "accessible_levels x pm addr required levels frame \<Longrightarrow>
   \<exists>f. translate_levels x pm addr levels frame = Inr (Some f)"
  by (induction levels arbitrary: frame)
    (auto simp: Let_def split: if_splits sum.splits frame_error.splits)

lemma user_range_loop_pages:
  assumes x: "x86_laws x" and "i \<le> j" and j: "j < 2 ^ 36"
  shows "user_range_loop x pm cr3 w (page_numbered j) (page_numbered i)
    = Some (Inr (\<forall>n \<in> {i..j}. page_accessible x pm cr3 (page_numbered n) w))"
  using assms(2)
proof (induction "j - i" arbitrary: i)
  case 0
  then have "{i..j} = {j}" "i = j" by auto
  then show ?case by (simp add: user_range_loop.simps)
next
  case (Suc d)
  then have lt: "i < j" by simp
  have ne: "page_numbered i \<noteq> page_numbered j"
    using lt j by (simp add: page_numbered_eq_iff del: power_numeral)
  have "page_add x (page_numbered i) 1 = Inr (page_numbered (Suc i))"
  proof -
    have pn: "page_number (page_numbered i) = i"
      using lt j by (intro page_number_numbered) linarith
    have "canonical (page_numbered i) \<and> page_number (page_numbered i) + unat (1 :: u64) < 2 ^ 36"
      unfolding pn using lt j canonical_numbered by simp
    then have "page_add x (page_numbered i) 1 = Inr (page_numbered (page_number (page_numbered i) + unat (1 :: u64)))"
      using x unfolding x86_laws_def by blast
    then show ?thesis unfolding pn by simp
  qed
  moreover have "user_range_loop x pm cr3 w (page_numbered j) (page_numbered (Suc i))
      = Some (Inr (\<forall>n \<in> {Suc i..j}. page_accessible x pm cr3 (page_numbered n) w))"
    using Suc lt by (intro Suc.hyps(1)) auto
  moreover have "{i..j} = insert i {Suc i..j}" using lt by auto
  ultimately show ?case
    using ne by (subst user_range_loop.simps) simp
qed

lemma user_range_mapped_canonical:
  assumes x: "x86_laws x" and "canonical addr" and "len \<noteq> 0"
    and "checked_add addr (len - 1) = Some last_byte" and "virt_new x last_byte = Inr last_addr"
    and "canonical last_addr" and "page_number addr \<le> page_number last_addr"
  shows "user_range_mapped x pm cr3 addr len w
    = Some (Inr (\<forall>n \<in> {page_number addr..page_number last_addr}. page_accessible x pm cr3 (page_numbered n) w))"
  using assms page_number_bound
  by (simp add: user_range_mapped_def page_containing_numbered user_range_loop_pages)

text \<open>In the lower half, the pages from one byte to another are the pages of the bytes between them.\<close>

lemma pages_of_range:
  assumes x: "x86_laws x" and le: "a \<le> b" and b: "unat b < 2 ^ 47"
  shows "(\<forall>n \<in> {page_number a..page_number b}. P (page_numbered n))
    \<longleftrightarrow> (\<forall>c. a \<le> c \<and> c \<le> b \<longrightarrow> P (page_containing x c))" (is "?L = ?R")
proof -
  have low: "canonical c \<and> page_number c = unat c div 4096" if "c \<le> b" for c
    using that b by (intro lower_half) (simp add: word_le_nat_alt)
  have "\<exists>c. a \<le> c \<and> c \<le> b \<and> page_number c = n" if n: "n \<in> {page_number a..page_number b}" for n
  proof (cases "n = page_number a")
    case False
    then have "unat a div 4096 < n" "n \<le> unat b div 4096" using n low le by auto
    then have r: "unat a < 4096 * n" "4096 * n \<le> unat b"
      using div_less_iff_less_mult [of 4096 "unat a" n] less_eq_div_iff_mult_less_eq [of 4096 n "unat b"]
      by (simp_all add: mult.commute)
    then have "unat (of_nat (4096 * n) :: u64) = 4096 * n" using b by (intro unat_of_nat_u64) simp
    then show ?thesis
      using r low [of "of_nat (4096 * n)"] by (intro exI [of _ "of_nat (4096 * n)"]) (simp add: word_le_nat_alt)
  qed (use le in auto)
  moreover have "page_containing x c = page_numbered (page_number c)" if "c \<le> b" for c
    using page_containing_numbered [OF x] low [OF that] by blast
  moreover have "page_number c \<in> {page_number a..page_number b}" if "a \<le> c" "c \<le> b" for c
    using that low le by (simp add: word_le_nat_alt div_le_mono)
  ultimately show ?thesis by metis
qed

text \<open>
  C32. The check of a user's range is exact. For every non-empty range in the lower half of
  the address space, the loop over its pages ends without a panic, and its answer is true
  if and only if the page of every single byte of the range is present and user-accessible
  (and writable, when asked) at all four levels of the active table.
\<close>

theorem user_range_mapped_exact:
  assumes x: "x86_laws x" and len: "0 < len" and low: "unat addr + unat len \<le> 2 ^ 47"
  shows "user_range_mapped x pm cr3 addr len w
    = Some (Inr (\<forall>a. addr \<le> a \<and> a \<le> addr + (len - 1) \<longrightarrow>
        page_accessible x pm cr3 (page_containing x a) w))"
proof -
  have pos: "0 < unat len" using len by (simp add: word_less_nat_alt)
  have len1: "unat (len - 1) = unat len - 1"
    using pos by (metis One_nat_def Suc_leI unat_1 unat_sub word_le_nat_alt)
  define b where "b = addr + (len - 1)"
  have ub: "unat b = unat addr + unat len - 1"
    using low pos len1 by (simp add: b_def unat_word_ariths)
  then have le: "addr \<le> b" and b: "unat b < 2 ^ 47"
    using pos low by (auto simp: word_le_nat_alt)
  have ca: "canonical addr \<and> page_number addr = unat addr div 4096"
    using low pos by (intro lower_half) linarith
  have cb: "canonical b \<and> page_number b = unat b div 4096" by (rule lower_half [OF b])
  have "checked_add addr (len - 1) = Some b"
    unfolding checked_add_Some_iff using ub len1 pos by simp
  then have "user_range_mapped x pm cr3 addr len w
    = Some (Inr (\<forall>n \<in> {page_number addr..page_number b}. page_accessible x pm cr3 (page_numbered n) w))"
    using ca cb len le virt_new_canonical [OF x]
    by (intro user_range_mapped_canonical [OF x]) (auto simp: word_le_nat_alt div_le_mono)
  also have "\<dots> = Some (Inr (\<forall>a. addr \<le> a \<and> a \<le> b \<longrightarrow> page_accessible x pm cr3 (page_containing x a) w))"
    unfolding pages_of_range [OF x le b, where P = "\<lambda>p. page_accessible x pm cr3 p w"] ..
  finally show ?thesis unfolding b_def .
qed


text \<open>A memory in which every entry of every table points to frame 0 with all flags set.\<close>

lemma all_mapped:
  "accessible_levels x86_ref (\<lambda>_ k. if k mod 8 = 0 then 7 else 0) a 7 levels frame"
proof (induction levels arbitrary: frame)
  case (Cons l levels)
  have "read_entry (\<lambda>_ k. if k mod 8 = 0 then 7 else 0) frame i = 7" for i
    by (simp add: read_entry_def upt_rec)
  moreover have "flags_contain (entry_flags x86_ref 7) 7" "entry_frame x86_ref 7 = Inr 0"
    by (simp_all add: flags_contain_def x86_ref_def)
  ultimately show ?case using Cons by simp
qed simp

theorem user_range_mapped_exact_witness:
  "user_range_mapped x86_ref (\<lambda>_ k. if k mod 8 = 0 then 7 else 0) 0 0x400FF0 0x20 True = Some (Inr True)"
  using user_range_mapped_exact [OF x86_ref_laws, where len = "0x20" and addr = "0x400FF0"
      and pm = "\<lambda>_ k. if k mod 8 = 0 then 7 else 0" and w = True and ?cr3.0 = 0]
  by (simp add: page_accessible_def all_mapped del: accessible_levels.simps)

section \<open>Destroying an address space\<close>

text \<open>
  The frame at the end of a path of table indices, and the paths whose last frame an isolated
  address space owns: they do not start with one of the two shared entries, and a path down to a
  page does not end in the borrowed range of virtual addresses.
\<close>

definition child_frame :: "x86_api \<Rightarrow> pmem \<Rightarrow> phys_frame \<Rightarrow> nat \<Rightarrow> phys_frame option" where
  "child_frame x pm frame i =
     (let entry = read_entry pm frame i in
      if i < 512 \<and> flags_contain (entry_flags x entry) PRESENT
      then (case entry_frame x entry of Inl _ \<Rightarrow> None | Inr child \<Rightarrow> Some child)
      else None)"

fun walk_path :: "x86_api \<Rightarrow> pmem \<Rightarrow> phys_frame \<Rightarrow> nat list \<Rightarrow> phys_frame option" where
  "walk_path x pm frame [] = Some frame"
| "walk_path x pm frame (i # p) =
     (case child_frame x pm frame i of None \<Rightarrow> None | Some child \<Rightarrow> walk_path x pm child p)"

fun path_addr :: "nat \<Rightarrow> u64 \<Rightarrow> nat list \<Rightarrow> u64" where
  "path_addr shift base [] = base"
| "path_addr shift base (i # p) = path_addr (shift - 9) (base OR push_bit shift (of_nat i)) p"

definition owned_path :: "x86_api \<Rightarrow> pmem \<Rightarrow> u64 \<times> u64 \<Rightarrow> nat \<Rightarrow> phys_frame \<Rightarrow> u64 \<Rightarrow> nat list \<Rightarrow> bool" where
  "owned_path x pm borrowed l frame base p \<longleftrightarrow>
     length p \<le> l \<and> walk_path x pm frame p \<noteq> None
     \<and> (length p = l \<longrightarrow> \<not> in_range borrowed (path_addr (12 + 9 * (l - 1)) base p))"

text \<open>
  A tree of \<open>l\<close> levels of tables whose present entries all point to a frame (no huge pages).
\<close>

fun tables_ok :: "x86_api \<Rightarrow> pmem \<Rightarrow> nat \<Rightarrow> phys_frame \<Rightarrow> bool" where
  "tables_ok x pm 0 frame \<longleftrightarrow> True"
| "tables_ok x pm (Suc l) frame \<longleftrightarrow> (\<forall>i \<in> {..<512}.
     flags_contain (entry_flags x (read_entry pm frame i)) PRESENT \<longrightarrow>
     (case entry_frame x (read_entry pm frame i) of Inl _ \<Rightarrow> False | Inr child \<Rightarrow> tables_ok x pm l child))"

text \<open>The owned paths in the order in which the tables are walked: a table comes after its entries.\<close>

fun owned_paths :: "x86_api \<Rightarrow> pmem \<Rightarrow> u64 \<times> u64 \<Rightarrow> nat \<Rightarrow> phys_frame \<Rightarrow> u64 \<Rightarrow> nat list list" where
  "owned_paths x pm borrowed 0 frame base = (if in_range borrowed base then [] else [[]])"
| "owned_paths x pm borrowed (Suc l) frame base =
     concat (map (\<lambda>i. case child_frame x pm frame i of
         None \<Rightarrow> []
       | Some child \<Rightarrow> map ((#) i) (owned_paths x pm borrowed l child (base OR push_bit (12 + 9 * l) (of_nat i))))
       [0..<512]) @ [[]]"

lemma owned_path_Cons:
  "owned_path x pm borrowed (Suc l) frame base (i # p) \<longleftrightarrow>
   (\<exists>child. child_frame x pm frame i = Some child
      \<and> owned_path x pm borrowed l child (base OR push_bit (12 + 9 * l) (of_nat i)) p)"
  by (cases l) (auto simp: owned_path_def split: option.splits)

lemma child_frame_bound: "child_frame x pm frame i = Some child \<Longrightarrow> i < 512"
  by (simp add: child_frame_def Let_def split: if_splits)

lemma set_owned_paths:
  "set (owned_paths x pm borrowed l frame base) = {p. owned_path x pm borrowed l frame base p}"
proof (induction l arbitrary: frame base)
  case 0
  show ?case by (auto simp: owned_path_def)
next
  case (Suc l)
  have "p \<in> set (owned_paths x pm borrowed (Suc l) frame base) \<longleftrightarrow>
      owned_path x pm borrowed (Suc l) frame base p" for p
  proof (cases p)
    case Nil
    then show ?thesis by (simp add: owned_path_def)
  next
    case (Cons i q)
    have "(i # q) \<in> set (case child_frame x pm frame j of None \<Rightarrow> []
        | Some child \<Rightarrow> map ((#) j) (owned_paths x pm borrowed l child (base OR push_bit (12 + 9 * l) (of_nat j))))
      \<longleftrightarrow> j = i \<and> (\<exists>child. child_frame x pm frame i = Some child
          \<and> owned_path x pm borrowed l child (base OR push_bit (12 + 9 * l) (of_nat i)) q)" for j
      by (cases "child_frame x pm frame j") (auto simp: Suc.IH)
    then have "p \<in> set (owned_paths x pm borrowed (Suc l) frame base) \<longleftrightarrow>
       i < 512 \<and> (\<exists>child. child_frame x pm frame i = Some child
          \<and> owned_path x pm borrowed l child (base OR push_bit (12 + 9 * l) (of_nat i)) q)"
      unfolding Cons owned_paths.simps by (simp add: Bex_def)
    then show ?thesis unfolding Cons owned_path_Cons using child_frame_bound by blast
  qed
  then show ?case by blast
qed

lemma distinct_concat_indexed:
  assumes "\<And>i. distinct (F i)" and "distinct xs" and "\<And>i p. p \<in> set (F i) \<Longrightarrow> \<exists>q. p = i # q"
  shows "distinct (concat (map F xs))"
  using assms(2)
proof (induction xs)
  case (Cons a xs)
  have "set (F a) \<inter> set (concat (map F xs)) = {}"
  proof -
    have "p \<notin> set (F i)" if "p \<in> set (F a)" "i \<in> set xs" for p i
      using assms(3) [of p a] assms(3) [of p i] that Cons.prems by auto
    then show ?thesis by auto
  qed
  then show ?case using Cons assms(1) by simp
qed simp

lemma distinct_owned_paths: "distinct (owned_paths x pm borrowed l frame base)"
proof (induction l arbitrary: frame base)
  case (Suc l)
  let ?F = "\<lambda>i. case child_frame x pm frame i of None \<Rightarrow> []
    | Some child \<Rightarrow> map ((#) i) (owned_paths x pm borrowed l child (base OR push_bit (12 + 9 * l) (of_nat i)))"
  have "distinct (?F i)" for i
    using Suc by (simp add: distinct_map split: option.split)
  moreover have "\<exists>q. p = i # q" if "p \<in> set (?F i)" for i p
    using that by (auto split: option.splits)
  ultimately have "distinct (concat (map ?F [0..<512]))" by (intro distinct_concat_indexed) auto
  moreover have "[] \<notin> set (concat (map ?F [0..<512]))" by (auto split: option.splits)
  ultimately show ?case by simp
qed simp

definition owned_frames :: "x86_api \<Rightarrow> pmem \<Rightarrow> u64 \<times> u64 \<Rightarrow> nat \<Rightarrow> phys_frame \<Rightarrow> u64 \<Rightarrow> phys_frame list" where
  "owned_frames x pm borrowed l frame base =
     map (\<lambda>p. the (walk_path x pm frame p)) (owned_paths x pm borrowed l frame base)"

lemma owned_frames_Suc:
  "owned_frames x pm borrowed (Suc l) frame base =
     concat (map (\<lambda>i. case child_frame x pm frame i of
         None \<Rightarrow> []
       | Some child \<Rightarrow> owned_frames x pm borrowed l child (base OR push_bit (12 + 9 * l) (of_nat i)))
       [0..<512]) @ [frame]"
  unfolding owned_frames_def owned_paths.simps map_append map_concat map_map
  by (intro arg_cong2 [where f = append] arg_cong [where f = concat] map_cong)
    (auto split: option.split)

text \<open>The walk frees the frames of the owned paths, once each, through any allocator of the interface.\<close>

context frame_source
begin

lemma for_each_frees:
  assumes "\<And>i s. i \<in> set xs \<Longrightarrow> invar s \<Longrightarrow>
      \<exists>s'. body i s = Inr s' \<and> invar s' \<and> avail s' = rev (F i) @ avail s"
    and "invar s"
  shows "\<exists>s'. for_each xs body s = Inr s' \<and> invar s' \<and> avail s' = rev (concat (map F xs)) @ avail s"
  using assms
proof (induction xs arbitrary: s)
  case (Cons i xs)
  obtain s1 where s1: "body i s = Inr s1" "invar s1" "avail s1 = rev (F i) @ avail s"
    using Cons.prems by (meson list.set_intros(1))
  obtain s2 where "for_each xs body s1 = Inr s2" "invar s2" "avail s2 = rev (concat (map F xs)) @ avail s1"
    using Cons.IH [OF _ s1(2)] Cons.prems(1) by (meson list.set_intros(2))
  then show ?case by (simp add: s1)
qed simp

lemma free_table_step:
  assumes ok: "tables_ok x pm (Suc l) frame" and "invar s"
    and child: "\<And>child addr s. 0 < l \<Longrightarrow> tables_ok x pm l child \<Longrightarrow> invar s \<Longrightarrow>
      \<exists>s'. free_table x pm dealloc borrowed l child addr s = Inr s' \<and> invar s'
        \<and> avail s' = rev (owned_frames x pm borrowed l child addr) @ avail s"
  shows "\<exists>s'. free_table x pm dealloc borrowed (Suc l) frame base s = Inr s' \<and> invar s'
    \<and> avail s' = rev (owned_frames x pm borrowed (Suc l) frame base) @ avail s"
proof -
  let ?addr = "\<lambda>i. base OR push_bit (12 + 9 * l) (of_nat i)"
  let ?F = "\<lambda>i. case child_frame x pm frame i of None \<Rightarrow> []
    | Some child \<Rightarrow> owned_frames x pm borrowed l child (?addr i)"
  define body where "body = (\<lambda>i s. let entry = read_entry pm frame i in
              if \<not> flags_contain (entry_flags x entry) PRESENT then Inr s
              else (case entry_frame x entry of
                      Inl _ \<Rightarrow> panic ''present page-table entry with no frame (huge page?)''
                    | Inr child \<Rightarrow>
                        (let child_addr = ?addr i in
                         if 1 < Suc l then free_table x pm dealloc borrowed l child child_addr s
                         else if \<not> in_range borrowed child_addr then dealloc child s else Inr s)))"
  have step: "\<exists>s'. body i s = Inr s' \<and> invar s' \<and> avail s' = rev (?F i) @ avail s"
    if i: "i \<in> set [0..<512]" and s: "invar s" for i s
  proof (cases "flags_contain (entry_flags x (read_entry pm frame i)) PRESENT")
    case False
    then show ?thesis using i s by (simp add: body_def child_frame_def)
  next
    case True
    then obtain c where c: "entry_frame x (read_entry pm frame i) = Inr c" "tables_ok x pm l c"
      using ok i by (cases "entry_frame x (read_entry pm frame i)") auto
    then have cf: "child_frame x pm frame i = Some c" using True i by (simp add: child_frame_def)
    show ?thesis
    proof (cases l)
      case 0
      then show ?thesis
        using True c cf s dealloc [OF s, of c] by (simp add: body_def owned_frames_def)
    next
      case (Suc k)
      then show ?thesis
        using True c cf child [OF _ c(2) s, of "?addr i"] by (simp add: body_def)
    qed
  qed
  obtain s1 where s1: "for_each [0..<512] body s = Inr s1" "invar s1"
      "avail s1 = rev (concat (map ?F [0..<512])) @ avail s"
    using for_each_frees [of "[0..<512]" body ?F, OF step \<open>invar s\<close>] by blast
  obtain s2 where s2: "dealloc frame s1 = Inr s2" "invar s2" "avail s2 = frame # avail s1"
    using dealloc [OF s1(2)] by blast
  have "free_table x pm dealloc borrowed (Suc l) frame base s = Inr s2"
    using s1(1) s2(1) unfolding free_table.simps Let_def body_def by simp
  then show ?thesis using s2 s1(3) by (simp add: owned_frames_Suc del: upt_Suc)
qed

lemma free_table_frees:
  assumes "tables_ok x pm (Suc l) frame" and "invar s"
  shows "\<exists>s'. free_table x pm dealloc borrowed (Suc l) frame base s = Inr s' \<and> invar s'
    \<and> avail s' = rev (owned_frames x pm borrowed (Suc l) frame base) @ avail s"
  using assms
proof (induction l arbitrary: frame base s)
  case 0
  then show ?case by (rule free_table_step) blast
next
  case (Suc l)
  then show ?case by (intro free_table_step [OF Suc.prems] Suc.IH)
qed

end

text \<open>
  The address space as a whole: the top-level table and the trees below the entries that are
  not shared.
\<close>

definition space_paths :: "x86_api \<Rightarrow> pmem \<Rightarrow> virt_addr \<Rightarrow> u64 \<times> u64 \<Rightarrow> phys_frame \<Rightarrow> nat list set" where
  "space_paths x pm offset borrowed l4_frame =
     {p. owned_path x pm borrowed 4 l4_frame 0 p \<and> (p \<noteq> [] \<longrightarrow> hd p \<noteq> 0 \<and> hd p \<noteq> p_index x 4 offset)}"

definition space_ok :: "x86_api \<Rightarrow> pmem \<Rightarrow> virt_addr \<Rightarrow> phys_frame \<Rightarrow> bool" where
  "space_ok x pm offset l4_frame \<longleftrightarrow> (\<forall>i \<in> {..<512} - {0, p_index x 4 offset}.
     flags_contain (entry_flags x (read_entry pm l4_frame i)) PRESENT \<longrightarrow>
     (case entry_frame x (read_entry pm l4_frame i) of Inl _ \<Rightarrow> False | Inr child \<Rightarrow> tables_ok x pm 3 child))"

definition space_path_list :: "x86_api \<Rightarrow> pmem \<Rightarrow> virt_addr \<Rightarrow> u64 \<times> u64 \<Rightarrow> phys_frame \<Rightarrow> nat list list" where
  "space_path_list x pm offset borrowed l4_frame =
     concat (map (\<lambda>i. if i = 0 \<or> i = p_index x 4 offset then []
         else case child_frame x pm l4_frame i of
           None \<Rightarrow> []
         | Some child \<Rightarrow> map ((#) i) (owned_paths x pm borrowed 3 child (push_bit 39 (of_nat i)))) [0..<512]) @ [[]]"

lemma owned_path4_Cons:
  "owned_path x pm borrowed 4 frame 0 (i # p) \<longleftrightarrow>
   (\<exists>child. child_frame x pm frame i = Some child \<and> owned_path x pm borrowed 3 child (push_bit 39 (of_nat i)) p)"
  using owned_path_Cons [of x pm borrowed 3 frame 0 i p] by simp

lemma set_space_path_list:
  "set (space_path_list x pm offset borrowed l4_frame) = space_paths x pm offset borrowed l4_frame"
proof -
  have "p \<in> set (space_path_list x pm offset borrowed l4_frame)
      \<longleftrightarrow> p \<in> space_paths x pm offset borrowed l4_frame" for p
  proof (cases p)
    case Nil
    then show ?thesis by (simp add: space_paths_def owned_path_def space_path_list_def)
  next
    case (Cons i q)
    define F where "F = (\<lambda>j. if j = 0 \<or> j = p_index x 4 offset then []
        else case child_frame x pm l4_frame j of None \<Rightarrow> []
        | Some child \<Rightarrow> map ((#) j) (owned_paths x pm borrowed 3 child (push_bit 39 (of_nat j))))"
    have "(i # q) \<in> set (F j)
      \<longleftrightarrow> j = i \<and> i \<noteq> 0 \<and> i \<noteq> p_index x 4 offset \<and> owned_path x pm borrowed 4 l4_frame 0 (i # q)" for j
      by (cases "child_frame x pm l4_frame j") (auto simp: F_def set_owned_paths owned_path4_Cons)
    moreover have "space_path_list x pm offset borrowed l4_frame = concat (map F [0..<512]) @ [[]]"
      by (simp add: space_path_list_def F_def)
    ultimately have "p \<in> set (space_path_list x pm offset borrowed l4_frame) \<longleftrightarrow>
        i < 512 \<and> i \<noteq> 0 \<and> i \<noteq> p_index x 4 offset \<and> owned_path x pm borrowed 4 l4_frame 0 (i # q)"
      unfolding Cons by auto
    moreover have "owned_path x pm borrowed 4 l4_frame 0 (i # q) \<Longrightarrow> i < 512"
      unfolding owned_path4_Cons using child_frame_bound by blast
    ultimately show ?thesis by (auto simp: Cons space_paths_def)
  qed
  then show ?thesis by blast
qed

lemma distinct_space_path_list: "distinct (space_path_list x pm offset borrowed l4_frame)"
proof -
  let ?F = "\<lambda>i. if i = 0 \<or> i = p_index x 4 offset then []
         else case child_frame x pm l4_frame i of
           None \<Rightarrow> []
         | Some child \<Rightarrow> map ((#) i) (owned_paths x pm borrowed 3 child (push_bit 39 (of_nat i)))"
  have "distinct (?F i)" for i
    by (simp add: distinct_map distinct_owned_paths split: option.split)
  moreover have "\<exists>q. p = i # q" if "p \<in> set (?F i)" for i p
    using that by (auto split: option.splits if_splits)
  ultimately have "distinct (concat (map ?F [0..<512]))" by (intro distinct_concat_indexed) auto
  moreover have "[] \<notin> set (concat (map ?F [0..<512]))" by (auto split: option.splits)
  ultimately show ?thesis by (simp add: space_path_list_def)
qed

lemma space_frames:
  "map (\<lambda>p. the (walk_path x pm l4_frame p)) (space_path_list x pm offset borrowed l4_frame) =
     concat (map (\<lambda>i. if i = 0 \<or> i = p_index x 4 offset then []
         else case child_frame x pm l4_frame i of
           None \<Rightarrow> []
         | Some child \<Rightarrow> owned_frames x pm borrowed 3 child (push_bit 39 (of_nat i))) [0..<512]) @ [l4_frame]"
  unfolding space_path_list_def owned_frames_def map_append map_concat map_map
  by (intro arg_cong2 [where f = append] arg_cong [where f = concat] map_cong)
    (auto split: option.split)

context frame_source
begin

lemma free_address_space_frees:
  assumes ok: "space_ok x pm offset l4_frame" and "invar s"
  shows "\<exists>s'. free_address_space x pm dealloc l4_frame offset borrowed s = Inr s' \<and> invar s'
    \<and> avail s' = rev (map (\<lambda>p. the (walk_path x pm l4_frame p))
        (space_path_list x pm offset borrowed l4_frame)) @ avail s"
proof -
  let ?F = "\<lambda>i. if i = 0 \<or> i = p_index x 4 offset then [] else case child_frame x pm l4_frame i of None \<Rightarrow> []
    | Some child \<Rightarrow> owned_frames x pm borrowed 3 child (push_bit 39 (of_nat i))"
  define body where "body = (\<lambda>i s. if i = 0 \<or> i = p_index x 4 offset then Inr s
              else let entry = read_entry pm l4_frame i in
              if \<not> flags_contain (entry_flags x entry) PRESENT then Inr s
              else (case entry_frame x entry of
                      Inl _ \<Rightarrow> panic ''present L4 entry with no frame (huge page?)''
                    | Inr l3_frame \<Rightarrow>
                        free_table x pm dealloc borrowed 3 l3_frame (push_bit 39 (of_nat i)) s))"
  have step: "\<exists>s'. body i s = Inr s' \<and> invar s' \<and> avail s' = rev (?F i) @ avail s"
    if i: "i \<in> set [0..<512]" and s: "invar s" for i s
  proof (cases "i = 0 \<or> i = p_index x 4 offset \<or> \<not> flags_contain (entry_flags x (read_entry pm l4_frame i)) PRESENT")
    case True
    then show ?thesis using i s by (auto simp: body_def child_frame_def)
  next
    case False
    then have "\<exists>c. entry_frame x (read_entry pm l4_frame i) = Inr c \<and> tables_ok x pm 3 c"
      using ok i unfolding space_ok_def by (cases "entry_frame x (read_entry pm l4_frame i)") auto
    then obtain c where c: "entry_frame x (read_entry pm l4_frame i) = Inr c" "tables_ok x pm (Suc 2) c"
      by (auto simp del: tables_ok.simps)
    have "child_frame x pm l4_frame i = Some c" using False i c(1) by (simp add: child_frame_def)
    then show ?thesis
      using False c(1) free_table_frees [OF c(2) s, of borrowed "push_bit 39 (of_nat i)"]
      by (simp add: body_def del: free_table.simps)
  qed
  obtain s1 where s1: "for_each [0..<512] body s = Inr s1" "invar s1"
      "avail s1 = rev (concat (map ?F [0..<512])) @ avail s"
    using for_each_frees [of "[0..<512]" body ?F, OF step \<open>invar s\<close>] by blast
  obtain s2 where s2: "dealloc l4_frame s1 = Inr s2" "invar s2" "avail s2 = l4_frame # avail s1"
    using dealloc [OF s1(2)] by blast
  have "free_address_space x pm dealloc l4_frame offset borrowed s = Inr s2"
    using s1(1) s2(1) unfolding free_address_space_def Let_def body_def by simp
  then show ?thesis unfolding space_frames using s2 s1(3) by simp
qed

end

text \<open>
  C30. Destroying an isolated address space returns exactly the frames it owns, each of them
  once. When its own tables hold no huge page, \<open>free_address_space\<close> on the global allocator
  does not panic, and the frames it gives back are those at the end of the paths that do
  not start with a shared entry (index 0 and the physical-memory window) and do not end at a page
  of the borrowed range: every page, every table on the way, and the top-level table, with
  one deallocation per path.
\<close>

theorem free_address_space_exact:
  assumes "global_ok g" and "space_ok x pm offset l4_frame"
  shows "\<exists>g' paths. free_address_space x pm global_deallocate_frame l4_frame offset borrowed g = Inr g'
    \<and> global_ok g'
    \<and> distinct paths \<and> set paths = space_paths x pm offset borrowed l4_frame
    \<and> global_avail g' = rev (map (\<lambda>p. the (walk_path x pm l4_frame p)) paths) @ global_avail g"
proof -
  have "x86_laws x86_ref \<and> global_ok g" using assms(1) x86_ref_laws by simp
  from global_frames.free_address_space_frees [OF assms(2) this, of borrowed]
  show ?thesis using set_space_path_list distinct_space_path_list by blast
qed

lemma flags_contain_bit: "flags_contain flags required \<Longrightarrow> bit required k \<Longrightarrow> bit flags k"
  unfolding flags_contain_def by (metis bit_and_iff)

lemma zero_entry_absent:
  "x86_laws x \<Longrightarrow> odd required \<Longrightarrow> \<not> flags_contain (entry_flags x 0) required"
proof
  assume x: "x86_laws x" and o: "odd required" and c: "flags_contain (entry_flags x 0) required"
  have "bit (entry_flags x 0) 0" using flags_contain_bit [OF c, of 0] o by (simp add: bit_0)
  moreover have "bit (entry_flags x 0) 0 = bit (0 :: u64) 0" using x by (intro x86_entry_flag) simp_all
  ultimately show False by simp
qed

lemma read_entry_zero: "read_entry (\<lambda>_ _. 0) f i = 0"
proof -
  have "from_le_bytes (replicate n 0 :: u8 list) = (0 :: u64)" for n
    by (induction n) simp_all
  moreover have "map (\<lambda>k. 0 :: u8) [0..<8] = replicate 8 0" by (simp add: map_replicate_const)
  ultimately show ?thesis by (simp add: read_entry_def)
qed

theorem free_address_space_exact_witness:
  "\<exists>g'. free_address_space x86_ref (write_entry (\<lambda>_ _. 0) 0x1000 2 0x2003) global_deallocate_frame 0x1000 0 (0, 0)
      (init_frame_allocator []) = Inr g' \<and> mset (global_avail g') = {#0x1000, 0x2000#}"
proof -
  let ?pm = "write_entry (\<lambda>_ _. 0) 0x1000 2 0x2003" and ?g = "init_frame_allocator []"
  have e: "read_entry ?pm f i = (if f = 0x1000 \<and> i = 2 then 0x2003 else 0)" for f i
    by (simp add: read_write_entry read_entry_zero)
  have f: "flags_contain (entry_flags x86_ref 0x2003) 1" "entry_frame x86_ref 0x2003 = Inr 0x2000"
    by (simp_all add: flags_contain_def x86_ref_def)
  have z: "\<not> flags_contain (entry_flags x86_ref 0) 1" by (intro zero_entry_absent x86_ref_laws) simp
  have p: "p_index x86_ref 4 0 = 0" by (simp add: x86_ref_def)
  have t: "tables_ok x86_ref ?pm n 0x2000" for n by (cases n) (simp_all add: e z)
  have ok: "space_ok x86_ref ?pm 0 0x1000" by (simp add: space_ok_def e f z p t)
  have c: "child_frame x86_ref ?pm fr i = (if fr = 0x1000 \<and> i = 2 then Some 0x2000 else None)" for fr i
    by (simp add: child_frame_def e f z)
  have w: "walk_path x86_ref ?pm 0x1000 q \<noteq> None \<longleftrightarrow> q = [] \<or> q = [2]" for q
    by (cases q; cases "tl q") (auto simp: c split: if_splits)
  have "space_paths x86_ref ?pm 0 (0, 0) 0x1000 = {[], [2]}"
    unfolding space_paths_def owned_path_def w p by (auto simp: in_range_def)
  moreover have "global_ok ?g" and av: "global_avail ?g = []"
    using init_available [of "[]"] by (simp_all add: init_frame_allocator_def global_ok_def global_avail_def)
  ultimately obtain g' paths where
    g': "free_address_space x86_ref ?pm global_deallocate_frame 0x1000 0 (0, 0) ?g = Inr g'"
    and ps: "distinct paths" "set paths = {[], [2]}"
    "global_avail g' = rev (map (\<lambda>p. the (walk_path x86_ref ?pm 0x1000 p)) paths) @ []"
    using free_address_space_exact [OF _ ok, of ?g "(0, 0)"] by auto
  have m: "mset paths = mset [[], [2]]"
    using ps(1,2) set_eq_iff_mset_eq_distinct [of paths "[[], [2]]"] by simp
  have "mset (global_avail g') = image_mset (\<lambda>p. the (walk_path x86_ref ?pm 0x1000 p)) (mset paths)"
    unfolding ps(3) by simp
  then have "mset (global_avail g') = {#0x1000, 0x2000#}" unfolding m by (simp add: c)
  then show ?thesis using g' by blast
qed

section \<open>A new address space\<close>

lemma p_index_bound: "x86_laws x \<Longrightarrow> l \<in> {1, 2, 3, 4} \<Longrightarrow> p_index x l a < 512"
proof -
  assume "x86_laws x" "l \<in> {1, 2, 3, 4}"
  then have "p_index x l a = unat (take_bit 9 (drop_bit (12 + 9 * (l - 1)) a))" by (rule x86_p_index)
  also have "\<dots> = take_bit 9 (unat (drop_bit (12 + 9 * (l - 1)) a))" by (rule unsigned_take_bit_eq)
  also have "\<dots> < 2 ^ 9" by (rule take_bit_nat_less_exp)
  finally show ?thesis by simp
qed

lemma new_address_space_table:
  assumes x: "x86_laws x" and g: "global_ok g" and av: "global_avail g = f # fs" and ne: "cr3 \<noteq> f"
  shows "\<exists>pm' g'. new_address_space x (global_allocate_frame x) offset cr3 pm g = Inr (f, pm', g')
    \<and> global_ok g' \<and> global_avail g' = fs
    \<and> (\<forall>i < 512. read_entry pm' f i = (if i = 0 \<or> i = p_index x 4 offset then read_entry pm cr3 i else 0))
    \<and> (\<forall>frame. frame \<noteq> f \<longrightarrow> pm' frame = pm frame)"
proof -
  let ?k = "p_index x 4 offset" and ?t = "PageTable_new pm f"
  define pm' where "pm' = write_entry (write_entry ?t f 0 (read_entry ?t cr3 0)) f ?k
    (read_entry (write_entry ?t f 0 (read_entry ?t cr3 0)) cr3 ?k)"
  obtain g' where g': "global_allocate_frame x g = Inr (Some f, g')" "global_ok g'" "global_avail g' = fs"
    using global_frames.alloc_some [OF conjI [OF x g] av] by blast
  have "new_address_space x (global_allocate_frame x) offset cr3 pm g = Inr (f, pm', g')"
    by (simp add: new_address_space_def g' pm'_def Let_def)
  moreover have "?k < 512" using p_index_bound [OF x] by simp
  then have "\<forall>i < 512. read_entry pm' f i = (if i = 0 \<or> i = ?k then read_entry pm cr3 i else 0)"
    using ne by (simp add: pm'_def read_write_entry read_entry_new_table)
  moreover have "\<forall>frame. frame \<noteq> f \<longrightarrow> pm' frame = pm frame"
    by (simp add: pm'_def write_entry_def PageTable_new_def)
  ultimately show ?thesis using g'(2,3) by blast
qed

text \<open>
  C31. A new address space shares two entries and nothing else. With a free frame \<open>f\<close> on top of
  the allocator, \<open>new_address_space\<close> returns \<open>f\<close> as the top-level table: entry 0 and the entry of
  the physical-memory window are those of the active table, the other 510 are empty, no other
  frame is written, and user code reaches no address outside the two shared entries. Destroying the
  space again gives the allocator back every frame it had.
\<close>

theorem new_address_space_isolated:
  assumes x: "x86_laws x" and g: "global_ok g" and av: "global_avail g = f # fs" and ne: "cr3 \<noteq> f"
  shows "\<exists>pm' g'. new_address_space x (global_allocate_frame x) offset cr3 pm g = Inr (f, pm', g')
    \<and> (\<forall>i < 512. read_entry pm' f i = (if i = 0 \<or> i = p_index x 4 offset then read_entry pm cr3 i else 0))
    \<and> (\<forall>frame. frame \<noteq> f \<longrightarrow> pm' frame = pm frame)
    \<and> (\<forall>a w. p_index x 4 a \<noteq> 0 \<and> p_index x 4 a \<noteq> p_index x 4 offset \<longrightarrow> \<not> page_accessible x pm' f a w)
    \<and> (\<exists>g''. free_address_space x pm' global_deallocate_frame f offset borrowed g' = Inr g''
          \<and> global_avail g'' = global_avail g)"
proof -
  let ?k = "p_index x 4 offset"
  obtain pm' g' where new: "new_address_space x (global_allocate_frame x) offset cr3 pm g = Inr (f, pm', g')"
      and g': "global_ok g'" "global_avail g' = fs"
      and entries: "\<And>i. i < 512 \<Longrightarrow> read_entry pm' f i = (if i = 0 \<or> i = ?k then read_entry pm cr3 i else 0)"
      and others: "\<And>frame. frame \<noteq> f \<longrightarrow> pm' frame = pm frame"
    using new_address_space_table [OF assms, of offset pm] by blast
  have no_user: "\<not> page_accessible x pm' f a w" if "p_index x 4 a \<noteq> 0" "p_index x 4 a \<noteq> ?k" for a w
  proof -
    have "read_entry pm' f (p_index x 4 a) = 0" using that entries p_index_bound [OF x, of 4 a] by simp
    then show ?thesis using zero_entry_absent [OF x] by (simp add: page_accessible_def)
  qed
  have absent: "child_frame x pm' f i = None" if "i \<noteq> 0" "i \<noteq> ?k" for i
    using that entries [of i] zero_entry_absent [OF x] by (cases "i < 512") (simp_all add: child_frame_def)
  have ok: "space_ok x pm' offset f"
    using entries zero_entry_absent [OF x] by (simp add: space_ok_def)
  have nil: "concat (map (\<lambda>i. if i = 0 \<or> i = ?k then [] else case child_frame x pm' f i of None \<Rightarrow> []
      | Some child \<Rightarrow> owned_frames x pm' borrowed 3 child (push_bit 39 (of_nat i))) [0..<512]) = []"
    by (auto simp: absent)
  have "\<exists>g''. free_address_space x pm' global_deallocate_frame f offset borrowed g' = Inr g''
      \<and> global_avail g'' = f # fs"
    using global_frames.free_address_space_frees [OF ok conjI [OF x g'(1)], of borrowed] g'(2)
    unfolding space_frames nil by simp blast
  then show ?thesis using new entries others no_user av by metis
qed

theorem new_address_space_isolated_witness:
  "\<exists>pm' g'. new_address_space x86_ref (global_allocate_frame x86_ref) 0x18000000000 0x1000 (\<lambda>_ _. 0)
      (init_frame_allocator [\<lparr>region_type = Usable, start_addr = 0x3000, end_addr = 0x5000\<rparr>])
      = Inr (0x3000, pm', g')
    \<and> (\<forall>w. \<not> page_accessible x86_ref pm' 0x3000 0x444444440000 w)"
proof -
  let ?r = "[\<lparr>region_type = Usable, start_addr = 0x3000, end_addr = 0x5000\<rparr>]"
  have v: "\<forall>r \<in> set ?r. region_valid r" by (simp add: region_valid_def page_aligned_def)
  have g: "global_ok (init_frame_allocator ?r)" and av: "global_avail (init_frame_allocator ?r) = 0x3000 # [0x4000]"
    using init_available [OF v]
    by (simp_all add: init_frame_allocator_def global_ok_def global_avail_def region_frames_def
        usable_region_def frames_between_def upt_rec)
  have ne: "(0x1000 :: u64) \<noteq> 0x3000" by simp
  have "p_index x86_ref 4 0x444444440000 \<noteq> 0" "p_index x86_ref 4 0x444444440000 \<noteq> p_index x86_ref 4 0x18000000000"
    by (simp_all add: x86_ref_def)
  then show ?thesis
    using new_address_space_isolated [OF x86_ref_laws g av ne, where offset = "0x18000000000"
        and pm = "\<lambda>_ _. 0"] by blast
qed

end
