(* ===== verification/Vga.thy ===== *)
theory Vga
  imports Prelude
begin

text \<open>
  The VGA text-mode writer of \<open>src/vga_buffer.rs\<close>: the colour byte, the 25 by 80 buffer of
  screen cells, the writer's column, and \<open>write_byte\<close>, \<open>new_line\<close>, \<open>clear_row\<close>,
  \<open>write_string\<close>. Every access \<open>chars[row][col]\<close> is bounds-checked as in Rust, so a column
  out of range would be a panic of the model; the lemmas show that no reachable writer
  has one. Text is a list of code points (what \<open>s.chars()\<close> iterates over).
\<close>

section \<open>Colours and cells\<close>

datatype color = Black | Blue | Green | Cyan | Red | Magenta | Brown | LightGray
  | DarkGray | LightBlue | LightGreen | LightCyan | LightRed | Pink | Yellow | White

fun color_code :: "color \<Rightarrow> u8" where
  "color_code Black = 0"
| "color_code Blue = 1"
| "color_code Green = 2"
| "color_code Cyan = 3"
| "color_code Red = 4"
| "color_code Magenta = 5"
| "color_code Brown = 6"
| "color_code LightGray = 7"
| "color_code DarkGray = 8"
| "color_code LightBlue = 9"
| "color_code LightGreen = 10"
| "color_code LightCyan = 11"
| "color_code LightRed = 12"
| "color_code Pink = 13"
| "color_code Yellow = 14"
| "color_code White = 15"

definition ColorCode_new :: "color \<Rightarrow> color \<Rightarrow> u8" where
  "ColorCode_new foreground background =
     push_bit 4 (color_code background) OR color_code foreground"

record screen_char =
  ascii_character :: u8
  cell_color :: u8

definition BUFFER_HEIGHT :: nat where "BUFFER_HEIGHT = 25"
definition BUFFER_WIDTH :: nat where "BUFFER_WIDTH = 80"

lemmas vga_consts = BUFFER_HEIGHT_def BUFFER_WIDTH_def

record writer =
  column_position :: nat
  writer_color :: u8
  chars :: "screen_char list list"

section \<open>Operations\<close>

definition read_cell :: "writer \<Rightarrow> nat \<Rightarrow> nat \<Rightarrow> screen_char result" where
  "read_cell w row col =
     (if row < length (chars w) \<and> col < length (chars w ! row)
      then Inr (chars w ! row ! col) else panic ''index out of bounds'')"

definition write_cell :: "writer \<Rightarrow> nat \<Rightarrow> nat \<Rightarrow> screen_char \<Rightarrow> writer result" where
  "write_cell w row col c =
     (if row < length (chars w) \<and> col < length (chars w ! row)
      then Inr (w\<lparr>chars := (chars w)[row := (chars w ! row)[col := c]]\<rparr>)
      else panic ''index out of bounds'')"

definition blank_cell :: "writer \<Rightarrow> screen_char" where
  "blank_cell w = \<lparr>ascii_character = 0x20, cell_color = writer_color w\<rparr>"

definition clear_row :: "nat \<Rightarrow> writer \<Rightarrow> writer result" where
  "clear_row row w =
     (let blank = blank_cell w
      in for_each [0..<BUFFER_WIDTH] (\<lambda>col w. write_cell w row col blank) w)"

definition new_line :: "writer \<Rightarrow> writer result" where
  "new_line w =
     bind_result
       (for_each [1..<BUFFER_HEIGHT] (\<lambda>row.
          for_each [0..<BUFFER_WIDTH] (\<lambda>col w.
            bind_result (read_cell w row col) (write_cell w (row - 1) col))) w)
       (\<lambda>w. bind_result (clear_row (BUFFER_HEIGHT - 1) w)
         (\<lambda>w. Inr (w\<lparr>column_position := 0\<rparr>)))"

definition write_byte :: "writer \<Rightarrow> u8 \<Rightarrow> writer result" where
  "write_byte w byte =
     (if byte = 0x0A then new_line w
      else if byte = 0x08 then
        (if column_position w > 0 then
           let w = w\<lparr>column_position := column_position w - 1\<rparr>
           in write_cell w (BUFFER_HEIGHT - 1) (column_position w) (blank_cell w)
         else Inr w)
      else
        bind_result (if column_position w \<ge> BUFFER_WIDTH then new_line w else Inr w)
          (\<lambda>w. bind_result
             (write_cell w (BUFFER_HEIGHT - 1) (column_position w)
               \<lparr>ascii_character = byte, cell_color = writer_color w\<rparr>)
             (\<lambda>w. Inr (w\<lparr>column_position := column_position w + 1\<rparr>))))"

definition printable :: "nat \<Rightarrow> bool" where
  "printable c \<longleftrightarrow> 0x20 \<le> c \<and> c \<le> 0x7E"

definition write_string :: "nat list \<Rightarrow> writer \<Rightarrow> writer result" where
  "write_string s w =
     for_each s (\<lambda>c w. if printable c \<or> c = 0x0A \<or> c = 0x08
                        then write_byte w (of_nat c) else write_byte w 0xFE) w"

definition writer_init :: "screen_char list list \<Rightarrow> writer" where
  "writer_init vga_memory =
     \<lparr>column_position = 0, writer_color = ColorCode_new Yellow Black, chars = vga_memory\<rparr>"

section \<open>The invariant\<close>

definition writer_ok :: "writer \<Rightarrow> bool" where
  "writer_ok w \<longleftrightarrow> length (chars w) = BUFFER_HEIGHT
     \<and> (\<forall>row \<in> set (chars w). length row = BUFFER_WIDTH)
     \<and> column_position w \<le> BUFFER_WIDTH"

lemma writer_ok_row [simp]:
  "writer_ok w \<Longrightarrow> row < BUFFER_HEIGHT \<Longrightarrow> length (chars w ! row) = BUFFER_WIDTH"
  by (simp add: writer_ok_def)

lemma writer_ok_height [simp]: "writer_ok w \<Longrightarrow> length (chars w) = BUFFER_HEIGHT"
  by (simp add: writer_ok_def)

lemma write_cell_ok:
  assumes "writer_ok w" and "row < BUFFER_HEIGHT" and "col < BUFFER_WIDTH"
  shows "write_cell w row col c = Inr (w\<lparr>chars := (chars w)[row := (chars w ! row)[col := c]]\<rparr>)"
    and "writer_ok (w\<lparr>chars := (chars w)[row := (chars w ! row)[col := c]]\<rparr>)"
proof -
  show "write_cell w row col c = Inr (w\<lparr>chars := (chars w)[row := (chars w ! row)[col := c]]\<rparr>)"
    using assms by (simp add: write_cell_def)
  have "\<forall>r \<in> set ((chars w)[row := (chars w ! row)[col := c]]). length r = BUFFER_WIDTH"
    using assms set_update_subset_insert [of "chars w" row "(chars w ! row)[col := c]"]
    by (auto simp: writer_ok_def)
  then show "writer_ok (w\<lparr>chars := (chars w)[row := (chars w ! row)[col := c]]\<rparr>)"
    using assms by (simp add: writer_ok_def)
qed

text \<open>A row is overwritten cell by cell: after \<open>k\<close> steps its first \<open>k\<close> cells are the new ones.\<close>

lemma take_drop_update:
  "i < length xs \<Longrightarrow> length xs = length ys \<Longrightarrow>
   (take i ys @ drop i xs)[i := ys ! i] = take (Suc i) ys @ drop (Suc i) xs"
  by (simp add: list_update_append Cons_nth_drop_Suc [symmetric] take_Suc_conv_app_nth)

lemma overwrite_row:
  assumes ok: "writer_ok w" and row: "row < BUFFER_HEIGHT" and len: "length ys = BUFFER_WIDTH"
    and body: "\<And>i v zs. i < BUFFER_WIDTH \<Longrightarrow> writer_ok v \<Longrightarrow> v = w\<lparr>chars := (chars w)[row := zs]\<rparr>
      \<Longrightarrow> body i v = write_cell v row i (ys ! i)"
  shows "for_each [0..<BUFFER_WIDTH] body w = Inr (w\<lparr>chars := (chars w)[row := ys]\<rparr>)
    \<and> writer_ok (w\<lparr>chars := (chars w)[row := ys]\<rparr>)"
proof -
  let ?zs = "\<lambda>i. take i ys @ drop i (chars w ! row)"
  let ?P = "\<lambda>i v. v = w\<lparr>chars := (chars w)[row := ?zs i]\<rparr> \<and> writer_ok v"
  have "\<exists>v. for_each [0..<BUFFER_WIDTH] body w = Inr v \<and> ?P BUFFER_WIDTH v"
  proof (rule for_each_upt [where P = ?P])
    show "?P 0 w" using ok by simp
    show "0 \<le> BUFFER_WIDTH" by simp
  next
    fix i v
    assume i: "i < BUFFER_WIDTH" and P: "?P i v"
    let ?v' = "v\<lparr>chars := (chars v)[row := (chars v ! row)[i := ys ! i]]\<rparr>"
    have "(?zs i)[i := ys ! i] = ?zs (Suc i)"
      using take_drop_update [of i "chars w ! row" ys] i ok row len by simp
    then have eq: "?v' = w\<lparr>chars := (chars w)[row := ?zs (Suc i)]\<rparr>"
      using P row ok by simp
    have v: "v = w\<lparr>chars := (chars w)[row := ?zs i]\<rparr>" "writer_ok v"
      using P by blast+
    have "body i v = Inr ?v'"
      by (simp only: body [OF i v(2,1)] write_cell_ok(1) [OF v(2) row i])
    moreover have "writer_ok ?v'" by (rule write_cell_ok(2) [OF v(2) row i])
    ultimately show "\<exists>v'. body i v = Inr v' \<and> ?P (Suc i) v'"
      using eq by blast
  qed
  then show ?thesis using ok row len by auto
qed

lemma clear_row_spec:
  assumes "writer_ok w" and "row < BUFFER_HEIGHT"
  shows "clear_row row w =
      Inr (w\<lparr>chars := (chars w)[row := replicate BUFFER_WIDTH (blank_cell w)]\<rparr>)
    \<and> writer_ok (w\<lparr>chars := (chars w)[row := replicate BUFFER_WIDTH (blank_cell w)]\<rparr>)"
  using overwrite_row [OF assms, of "replicate BUFFER_WIDTH (blank_cell w)"]
  by (simp add: clear_row_def)

text \<open>One round of the outer loop of \<open>new_line\<close> copies row \<open>row\<close> onto the row above it.\<close>

lemma copy_row_up:
  assumes "writer_ok w" and "0 < row" and "row < BUFFER_HEIGHT"
  shows "for_each [0..<BUFFER_WIDTH]
      (\<lambda>col w. bind_result (read_cell w row col) (write_cell w (row - 1) col)) w
    = Inr (w\<lparr>chars := (chars w)[row - 1 := chars w ! row]\<rparr>)
    \<and> writer_ok (w\<lparr>chars := (chars w)[row - 1 := chars w ! row]\<rparr>)"
  using assms by (intro overwrite_row) (simp_all add: read_cell_def)

lemma copy_rows_up:
  assumes "writer_ok w"
  shows "for_each [1..<BUFFER_HEIGHT] (\<lambda>row.
          for_each [0..<BUFFER_WIDTH] (\<lambda>col w.
            bind_result (read_cell w row col) (write_cell w (row - 1) col))) w
    = Inr (w\<lparr>chars := tl (chars w) @ [last (chars w)]\<rparr>)
    \<and> writer_ok (w\<lparr>chars := tl (chars w) @ [last (chars w)]\<rparr>)"
proof -
  let ?zs = "\<lambda>k. take (k - 1) (tl (chars w)) @ drop (k - 1) (chars w)"
  let ?P = "\<lambda>k v. v = w\<lparr>chars := ?zs k\<rparr> \<and> writer_ok v"
  have "\<exists>v. for_each [1..<BUFFER_HEIGHT] (\<lambda>row.
          for_each [0..<BUFFER_WIDTH] (\<lambda>col w.
            bind_result (read_cell w row col) (write_cell w (row - 1) col))) w = Inr v
      \<and> ?P BUFFER_HEIGHT v"
  proof (rule for_each_upt [where P = ?P])
    show "?P 1 w" using assms by simp
    show "1 \<le> BUFFER_HEIGHT" by (simp add: vga_consts)
  next
    fix k v
    assume k: "1 \<le> k" "k < BUFFER_HEIGHT" and P: "?P k v"
    have len: "length (chars w) = BUFFER_HEIGHT" using assms by simp
    have "?zs k ! k = chars w ! k" using k len by (auto simp: nth_append)
    moreover have "(?zs k)[k - 1 := chars w ! k] = ?zs (Suc k)"
      using k len by (cases k) (simp_all add: list_update_append nth_tl
        Cons_nth_drop_Suc [symmetric] take_Suc_conv_app_nth)
    ultimately have "v\<lparr>chars := (chars v)[k - 1 := chars v ! k]\<rparr> = w\<lparr>chars := ?zs (Suc k)\<rparr>"
      using P by simp
    moreover have v: "writer_ok v" "0 < k" using P k by auto
    ultimately show "\<exists>v'. for_each [0..<BUFFER_WIDTH]
        (\<lambda>col w. bind_result (read_cell w k col) (write_cell w (k - 1) col)) v = Inr v'
      \<and> ?P (Suc k) v'"
      using copy_row_up [OF v k(2)] by blast
  qed
  moreover have "?zs BUFFER_HEIGHT = tl (chars w) @ [last (chars w)]"
  proof -
    have "chars w \<noteq> []" using assms by (auto simp: writer_ok_def vga_consts)
    moreover have "drop (length (chars w) - 1) (chars w) = [last (chars w)]"
      using \<open>chars w \<noteq> []\<close> by (metis append_butlast_last_id append_eq_conv_conj length_butlast)
    ultimately show ?thesis using assms by simp
  qed
  ultimately show ?thesis by auto
qed

lemma new_line_eq:
  assumes "writer_ok w"
  shows "new_line w =
      Inr (w\<lparr>chars := tl (chars w) @ [replicate BUFFER_WIDTH (blank_cell w)], column_position := 0\<rparr>)
    \<and> writer_ok (w\<lparr>chars := tl (chars w) @ [replicate BUFFER_WIDTH (blank_cell w)], column_position := 0\<rparr>)"
proof -
  let ?v = "w\<lparr>chars := tl (chars w) @ [last (chars w)]\<rparr>"
  have "length (tl (chars w)) = BUFFER_HEIGHT - 1" using assms by simp
  then have upd: "(chars ?v)[BUFFER_HEIGHT - 1 := replicate BUFFER_WIDTH (blank_cell w)] =
      tl (chars w) @ [replicate BUFFER_WIDTH (blank_cell w)]"
    by (simp add: list_update_append)
  have ok: "writer_ok ?v" using copy_rows_up [OF assms] by simp
  have "blank_cell ?v = blank_cell w" by (simp add: blank_cell_def)
  with clear_row_spec [OF ok, of "BUFFER_HEIGHT - 1"] upd
  have cl: "clear_row (BUFFER_HEIGHT - 1) ?v =
      Inr (w\<lparr>chars := tl (chars w) @ [replicate BUFFER_WIDTH (blank_cell w)]\<rparr>)
    \<and> writer_ok (w\<lparr>chars := tl (chars w) @ [replicate BUFFER_WIDTH (blank_cell w)]\<rparr>)"
    by (simp add: vga_consts)
  then show ?thesis
    using copy_rows_up [OF assms] by (simp add: new_line_def writer_ok_def)
qed

section \<open>What the operations do\<close>

definition printed_cell :: "writer \<Rightarrow> u8 \<Rightarrow> screen_char" where
  "printed_cell w b = \<lparr>ascii_character = b, cell_color = writer_color w\<rparr>"

definition put_bottom :: "writer \<Rightarrow> nat \<Rightarrow> screen_char \<Rightarrow> writer" where
  "put_bottom w col c =
     w\<lparr>chars := (chars w)[BUFFER_HEIGHT - 1 := (chars w ! (BUFFER_HEIGHT - 1))[col := c]]\<rparr>"

lemma put_bottom_simps [simp]:
  "column_position (put_bottom w col c) = column_position w"
  "writer_color (put_bottom w col c) = writer_color w"
  by (simp_all add: put_bottom_def)

lemma put_bottom_ok [simp]:
  "writer_ok w \<Longrightarrow> col < BUFFER_WIDTH \<Longrightarrow> writer_ok (put_bottom w col c)"
  using write_cell_ok(2) [of w "BUFFER_HEIGHT - 1" col c]
  by (simp add: put_bottom_def vga_consts)

lemma write_cell_bottom:
  "writer_ok w \<Longrightarrow> col < BUFFER_WIDTH \<Longrightarrow>
   write_cell w (BUFFER_HEIGHT - 1) col c = Inr (put_bottom w col c)"
  using write_cell_ok(1) [of w "BUFFER_HEIGHT - 1" col c]
  by (simp add: put_bottom_def vga_consts)

lemma write_byte_backspace:
  assumes "writer_ok w"
  shows "write_byte w 0x08 =
    Inr (if column_position w = 0 then w
         else put_bottom (w\<lparr>column_position := column_position w - 1\<rparr>)
                (column_position w - 1) (blank_cell w))"
proof (cases "column_position w = 0")
  case True
  then show ?thesis by (simp add: write_byte_def)
next
  case False
  let ?v = "w\<lparr>column_position := column_position w - 1\<rparr>"
  have "writer_ok ?v" "column_position ?v < BUFFER_WIDTH"
    using assms False by (auto simp: writer_ok_def)
  moreover have "blank_cell ?v = blank_cell w" by (simp add: blank_cell_def)
  ultimately show ?thesis
    using False write_cell_bottom [of ?v "column_position ?v" "blank_cell ?v"]
    by (simp add: write_byte_def)
qed

lemma write_byte_plain:
  assumes "writer_ok w" and "column_position w < BUFFER_WIDTH" and "b \<noteq> 0x0A" and "b \<noteq> 0x08"
  shows "write_byte w b = Inr ((put_bottom w (column_position w) (printed_cell w b))
    \<lparr>column_position := column_position w + 1\<rparr>)"
  using assms write_cell_bottom [OF assms(1,2), of "printed_cell w b"]
  by (simp add: write_byte_def printed_cell_def)

lemma write_byte_total:
  assumes "writer_ok w"
  shows "\<exists>w'. write_byte w b = Inr w' \<and> writer_ok w' \<and> writer_color w' = writer_color w"
proof (cases "b = 0x0A \<or> b = 0x08")
  case True
  then show ?thesis
  proof
    assume "b = 0x0A"
    then show ?thesis using new_line_eq [OF assms] by (simp add: write_byte_def)
  next
    assume b: "b = 0x08"
    have "writer_ok (w\<lparr>column_position := column_position w - 1\<rparr>)"
      using assms by (auto simp: writer_ok_def)
    moreover have "column_position w \<noteq> 0 \<Longrightarrow> column_position w - 1 < BUFFER_WIDTH"
      using assms by (auto simp: writer_ok_def)
    ultimately show ?thesis using write_byte_backspace [OF assms] assms b by simp
  qed
next
  case False
  obtain v where v: "(if column_position w \<ge> BUFFER_WIDTH then new_line w else Inr w) = Inr v"
      "writer_ok v" "column_position v < BUFFER_WIDTH" "writer_color v = writer_color w"
    using new_line_eq [OF assms] assms
    by (cases "column_position w \<ge> BUFFER_WIDTH") (simp_all add: vga_consts)
  then have "write_byte w b = write_byte v b"
    using False by (simp add: write_byte_def)
  moreover have "writer_ok ((put_bottom v (column_position v) (printed_cell v b))
      \<lparr>column_position := column_position v + 1\<rparr>)"
    using put_bottom_ok [OF v(2,3)] v(3) by (simp add: writer_ok_def)
  ultimately show ?thesis using write_byte_plain [OF v(2,3)] False v(4) by simp
qed

lemma write_string_returns:
  assumes "writer_ok w"
  shows "\<exists>w'. write_string s w = Inr w' \<and> writer_ok w' \<and> writer_color w' = writer_color w"
  using assms
proof (induction s arbitrary: w)
  case Nil
  then show ?case by (simp add: write_string_def)
next
  case (Cons c s)
  let ?b = "if printable c \<or> c = 0x0A \<or> c = 0x08 then of_nat c else 0xFE :: u8"
  obtain w1 where w1: "write_byte w ?b = Inr w1" "writer_ok w1" "writer_color w1 = writer_color w"
    using write_byte_total [OF Cons.prems] by blast
  then have "write_string (c # s) w = write_string s w1"
    by (auto simp: write_string_def split: if_splits)
  then show ?case using Cons.IH [OF w1(2)] w1(3) by simp
qed

lemma writer_init_ok:
  "length mem = BUFFER_HEIGHT \<Longrightarrow> \<forall>row \<in> set mem. length row = BUFFER_WIDTH \<Longrightarrow>
   writer_ok (writer_init mem)"
  by (simp add: writer_ok_def writer_init_def)

text \<open>
  C38. Whatever texts the kernel prints, one after the other, on the writer it starts with,
  no access \<open>chars[row][col]\<close> is out of bounds: printing always returns, the buffer stays
  25 by 80, and the column never passes the end of the line.
\<close>

theorem vga_printing_never_panics:
  assumes "length mem = BUFFER_HEIGHT" and "\<forall>row \<in> set mem. length row = BUFFER_WIDTH"
  shows "\<exists>w. for_each texts write_string (writer_init mem) = Inr w \<and> writer_ok w"
proof -
  have "writer_ok v \<Longrightarrow> \<exists>w. for_each texts write_string v = Inr w \<and> writer_ok w" for v
  proof (induction texts arbitrary: v)
    case Nil
    then show ?case by simp
  next
    case (Cons t ts)
    then obtain v1 where "write_string t v = Inr v1" "writer_ok v1"
      using write_string_returns by blast
    with Cons.IH show ?case by simp
  qed
  then show ?thesis using writer_init_ok [OF assms] by blast
qed

theorem vga_printing_never_panics_witness:
  "\<exists>w. for_each [[0x48, 0x69], [0x0A, 0x2713, 0x08]] write_string
     (writer_init (replicate 25 (replicate 80 \<lparr>ascii_character = 0x20, cell_color = 0x0E\<rparr>)))
     = Inr w \<and> writer_ok w"
  by (rule vga_printing_never_panics) (simp_all add: vga_consts)

lemma printable_plain: "printable c \<Longrightarrow> (of_nat c :: u8) \<noteq> 0x0A \<and> (of_nat c :: u8) \<noteq> 0x08"
proof -
  assume "printable c"
  then have "unat (of_nat c :: u8) = c" "32 \<le> c"
    by (simp_all add: printable_def unat_of_nat)
  then show ?thesis by (auto dest: arg_cong [where f = unat])
qed

lemma write_string_Cons:
  "printable c \<Longrightarrow> write_string (c # s) w = bind_result (write_byte w (of_nat c)) (write_string s)"
  by (cases "write_byte w (of_nat c)") (simp_all add: write_string_def)

lemma write_string_append:
  "write_string (s @ t) w = bind_result (write_string s w) (write_string t)"
  by (cases "write_string s w") (simp_all add: write_string_def for_each_append)

lemma write_string_newline: "write_string [0x0A] w = new_line w"
  by (cases "new_line w") (simp_all add: write_string_def write_byte_def)

text \<open>Printable text that fits on the current line lands in the bottom row, in order.\<close>

lemma write_string_line:
  assumes "writer_ok w" and "\<forall>c \<in> set s. printable c"
    and "column_position w + length s \<le> BUFFER_WIDTH"
  shows "write_string s w = Inr (w\<lparr>
      chars := (chars w)[BUFFER_HEIGHT - 1 :=
        overwrite (chars w ! (BUFFER_HEIGHT - 1)) (column_position w)
          (map (\<lambda>c. printed_cell w (of_nat c)) s)],
      column_position := column_position w + length s\<rparr>)"
  using assms
proof (induction s arbitrary: w)
  case Nil
  then show ?case by (simp add: write_string_def overwrite_def)
next
  case (Cons c s)
  let ?col = "column_position w" and ?last = "BUFFER_HEIGHT - 1"
  let ?v = "(put_bottom w ?col (printed_cell w (of_nat c)))\<lparr>column_position := ?col + 1\<rparr>"
  have col: "?col < BUFFER_WIDTH" using Cons.prems by simp
  have c: "printable c" "(of_nat c :: u8) \<noteq> 0x0A" "(of_nat c :: u8) \<noteq> 0x08"
    using Cons.prems(2) printable_plain by auto
  have last: "?last < length (chars w)" "length (chars w ! ?last) = BUFFER_WIDTH"
    using Cons.prems(1) by (simp_all add: vga_consts writer_ok_def)
  have "write_string (c # s) w = write_string s ?v"
    using write_byte_plain [OF Cons.prems(1) col c(2,3)] c(1) by (simp add: write_string_Cons)
  moreover have "writer_ok ?v"
    using put_bottom_ok [OF Cons.prems(1) col, of "printed_cell w (of_nat c)"] col
    by (simp add: writer_ok_def)
  moreover have "printed_cell ?v = printed_cell w" by (simp add: printed_cell_def fun_eq_iff)
  moreover have "overwrite ((chars w ! ?last)[?col := printed_cell w (of_nat c)]) (?col + 1)
        (map (\<lambda>c. printed_cell w (of_nat c)) s)
      = overwrite (chars w ! ?last) ?col (map (\<lambda>c. printed_cell w (of_nat c)) (c # s))"
    using col last(2) by (simp add: overwrite_def take_Suc_conv_app_nth)
  ultimately show ?case
    using Cons.IH [of ?v] Cons.prems(2,3) last by (simp add: put_bottom_def)
qed

text \<open>
  C39. Printing a newline, a line of at most 80 printable characters and a newline (what the
  test \<open>test_println_output\<close> prints) scrolls the old screen up two rows and leaves the
  line, padded with blanks, as the row above the blank bottom row.
\<close>

theorem println_output:
  assumes "writer_ok w" and "\<forall>c \<in> set s. printable c" and "length s \<le> BUFFER_WIDTH"
  shows "write_string ([0x0A] @ s @ [0x0A]) w = Inr (w\<lparr>
      chars := drop 2 (chars w)
        @ [map (\<lambda>c. printed_cell w (of_nat c)) s @ replicate (BUFFER_WIDTH - length s) (blank_cell w),
           replicate BUFFER_WIDTH (blank_cell w)],
      column_position := 0\<rparr>)"
proof -
  let ?blank = "replicate BUFFER_WIDTH (blank_cell w)"
  let ?line = "map (\<lambda>c. printed_cell w (of_nat c)) s @ replicate (BUFFER_WIDTH - length s) (blank_cell w)"
  let ?w1 = "w\<lparr>chars := tl (chars w) @ [?blank], column_position := 0\<rparr>"
  let ?w2 = "w\<lparr>chars := tl (chars w) @ [?line], column_position := length s\<rparr>"
  have w1: "new_line w = Inr ?w1" "writer_ok ?w1" using new_line_eq [OF assms(1)] by auto
  have len: "length (tl (chars w)) = BUFFER_HEIGHT - 1" using assms(1) by simp
  have "printed_cell ?w1 = printed_cell w" by (simp add: printed_cell_def fun_eq_iff)
  moreover have "overwrite ?blank 0 (map (\<lambda>c. printed_cell w (of_nat c)) s) = ?line"
    by (simp add: overwrite_def)
  ultimately have w2: "write_string s ?w1 = Inr ?w2"
    using write_string_line [OF w1(2) assms(2)] assms(3) len
    by (simp add: nth_append list_update_append)
  moreover have ok2: "writer_ok ?w2"
    using write_string_returns [OF w1(2), of s] w2 by simp
  moreover have "tl (tl (chars w) @ [?line]) = drop 2 (chars w) @ [?line]"
    using len by (cases "tl (chars w)") (auto simp: vga_consts drop_Suc numeral_2_eq_2)
  moreover have "blank_cell ?w2 = blank_cell w" by (simp add: blank_cell_def)
  ultimately show ?thesis
    using w1(1) new_line_eq [OF ok2]
    by (simp add: write_string_append write_string_newline del: append_Cons)
qed

theorem println_output_witness:
  "write_string ([0x0A] @ [0x6F, 0x6B] @ [0x0A])
     (writer_init (replicate 25 (replicate 80 \<lparr>ascii_character = 0x20, cell_color = 0x0E\<rparr>)))
   = Inr ((writer_init (replicate 25 (replicate 80 \<lparr>ascii_character = 0x20, cell_color = 0x0E\<rparr>)))
      \<lparr>chars := replicate 23 (replicate 80 \<lparr>ascii_character = 0x20, cell_color = 0x0E\<rparr>)
        @ [\<lparr>ascii_character = 0x6F, cell_color = 0x0E\<rparr> # \<lparr>ascii_character = 0x6B, cell_color = 0x0E\<rparr>
            # replicate 78 \<lparr>ascii_character = 0x20, cell_color = 0x0E\<rparr>,
           replicate 80 \<lparr>ascii_character = 0x20, cell_color = 0x0E\<rparr>],
       column_position := 0\<rparr>)"
proof -
  let ?w = "writer_init (replicate 25 (replicate 80 \<lparr>ascii_character = 0x20, cell_color = 0x0E\<rparr>))"
  have ok: "writer_ok ?w" by (rule writer_init_ok) (simp_all add: vga_consts)
  show ?thesis
    using println_output [OF ok, of "[0x6F, 0x6B]"]
    by (simp add: printable_def vga_consts printed_cell_def blank_cell_def writer_init_def
      ColorCode_new_def)
qed

text \<open>
  A backspace after a printed character restores the column and blanks exactly the
  cell the character was written to; a backspace at column 0 changes nothing.
\<close>

theorem backspace_erases_last_char:
  assumes "writer_ok w" and "column_position w < BUFFER_WIDTH" and "b \<noteq> 0x0A" and "b \<noteq> 0x08"
  shows "bind_result (write_byte w b) (\<lambda>w. write_byte w 0x08) =
      Inr (put_bottom w (column_position w) (blank_cell w))
    \<and> write_byte (w\<lparr>column_position := 0\<rparr>) 0x08 = Inr (w\<lparr>column_position := 0\<rparr>)"
proof -
  let ?v = "(put_bottom w (column_position w) (printed_cell w b))\<lparr>column_position := column_position w + 1\<rparr>"
  have "writer_ok ?v"
    using put_bottom_ok [OF assms(1,2), of "printed_cell w b"] assms(2) by (simp add: writer_ok_def)
  moreover have "blank_cell ?v = blank_cell w" by (simp add: blank_cell_def)
  ultimately have "write_byte ?v 0x08 = Inr (put_bottom w (column_position w) (blank_cell w))"
    using assms(1) write_byte_backspace [of ?v] by (simp add: put_bottom_def vga_consts)
  then show ?thesis
    using write_byte_plain [OF assms] by (simp add: write_byte_def)
qed

theorem backspace_erases_last_char_witness:
  "bind_result (write_byte (writer_init (replicate 25 (replicate 80 \<lparr>ascii_character = 0x20, cell_color = 0x0E\<rparr>))) 0x78)
     (\<lambda>w. write_byte w 0x08)
   = Inr (put_bottom (writer_init (replicate 25 (replicate 80 \<lparr>ascii_character = 0x20, cell_color = 0x0E\<rparr>))) 0
       \<lparr>ascii_character = 0x20, cell_color = 0x0E\<rparr>)"
proof -
  let ?w = "writer_init (replicate 25 (replicate 80 \<lparr>ascii_character = 0x20, cell_color = 0x0E\<rparr>))"
  have ok: "writer_ok ?w" by (rule writer_init_ok) (simp_all add: vga_consts)
  have "column_position ?w = 0" "blank_cell ?w = \<lparr>ascii_character = 0x20, cell_color = 0x0E\<rparr>"
    by (simp_all add: writer_init_def blank_cell_def ColorCode_new_def)
  then show ?thesis
    using backspace_erases_last_char [OF ok, where b = "0x78"] by (simp add: vga_consts)
qed

text \<open>
  The colour byte packs both colours without loss: the low nibble is the foreground
  and the high nibble the background.
\<close>

theorem color_code_unpack:
  "ColorCode_new f b AND 0x0F = color_code f \<and> drop_bit 4 (ColorCode_new f b) = color_code b"
  by (cases f; cases b) (simp_all add: ColorCode_new_def)

end
