(* ===== verification/Keyboard.thy ===== *)
theory Keyboard
  imports Ring_Queue Vga
begin

text \<open>
  Keyboard input, \<open>src/task/keyboard.rs\<close>: the ring buffer \<open>InputQueue\<close> of decoded bytes that
  \<open>syscall::sys_read\<close> drains, the interrupt handler's \<open>add_scancode\<close>, the stream's
  \<open>poll_next\<close>, and the body of the \<open>print_keypresses\<close> loop with its table of escape
  sequences.

  The crates the module calls are arguments of the definitions: the scancode queue
  (\<open>crossbeam_queue::ArrayQueue\<close>, \<open>aq_push\<close> with \<open>None\<close> for the error of a full queue, and
  \<open>aq_pop\<close>), the \<open>AtomicWaker\<close> (\<open>aw_wake\<close>, \<open>aw_register\<close>, \<open>aw_take\<close>) and the scancode
  decoder of \<open>pc_keyboard\<close> (\<open>kb_add_byte\<close>, \<open>kb_process\<close>). A \<open>OnceCell\<close> that is not
  initialised yet is \<open>None\<close>.
\<close>

section \<open>The queue of decoded bytes\<close>

definition INPUT_QUEUE_CAPACITY :: nat where "INPUT_QUEUE_CAPACITY = 128"

record input_queue =
  iq_bytes :: "u8 list"
  iq_head :: nat
  iq_len :: nat

definition InputQueue_new :: input_queue where
  "InputQueue_new = \<lparr>iq_bytes = replicate INPUT_QUEUE_CAPACITY 0, iq_head = 0, iq_len = 0\<rparr>"

definition InputQueue_push :: "input_queue \<Rightarrow> u8 \<Rightarrow> input_queue" where
  "InputQueue_push q byte =
     (if iq_len q = INPUT_QUEUE_CAPACITY then q
      else let index = (iq_head q + iq_len q) mod INPUT_QUEUE_CAPACITY
           in q\<lparr>iq_bytes := (iq_bytes q)[index := byte], iq_len := iq_len q + 1\<rparr>)"

definition InputQueue_pop :: "input_queue \<Rightarrow> u8 option \<times> input_queue" where
  "InputQueue_pop q =
     (if iq_len q = 0 then (None, q)
      else (Some (iq_bytes q ! iq_head q),
            q\<lparr>iq_head := (iq_head q + 1) mod INPUT_QUEUE_CAPACITY, iq_len := iq_len q - 1\<rparr>))"

definition push_input_byte :: "u8 \<Rightarrow> input_queue \<Rightarrow> input_queue" where
  "push_input_byte byte q = InputQueue_push q byte"

definition try_pop_input_byte :: "input_queue \<Rightarrow> u8 option \<times> input_queue" where
  "try_pop_input_byte q = InputQueue_pop q"

text \<open>
  The array has its capacity as its length (in Rust by its type), the head is an index of
  it and the length does not pass the capacity, so every index above is in range.
\<close>

definition input_queue_ok :: "input_queue \<Rightarrow> bool" where
  "input_queue_ok q \<longleftrightarrow> length (iq_bytes q) = INPUT_QUEUE_CAPACITY
     \<and> iq_head q < INPUT_QUEUE_CAPACITY \<and> iq_len q \<le> INPUT_QUEUE_CAPACITY"

definition input_list :: "input_queue \<Rightarrow> u8 list" where
  "input_list q = ring_list (iq_bytes q) (iq_head q) (iq_len q)"

definition input_push_opt :: "input_queue \<Rightarrow> u8 \<Rightarrow> input_queue option" where
  "input_push_opt q b =
     (if iq_len q = INPUT_QUEUE_CAPACITY then None else Some (InputQueue_push q b))"

section \<open>Scancodes and decoded keys\<close>

datatype key_code = ArrowUp | ArrowDown | ArrowRight | ArrowLeft | Home | Insert | End
  | PageUp | PageDown | F1 | F2 | F3 | F4 | F5 | F6 | F7 | F8 | F9 | F10 | F11 | F12
  | LShift | RShift | LControl | RControl | CapsLock | NumpadLock | RAltGr | RControl2
  | OtherKey nat

datatype decoded_key = Unicode nat | RawKey key_code

fun ansi_escape_sequence :: "key_code \<Rightarrow> u8 list option" where
  "ansi_escape_sequence ArrowUp = Some [0x1B, 0x5B, 0x41]"
| "ansi_escape_sequence ArrowDown = Some [0x1B, 0x5B, 0x42]"
| "ansi_escape_sequence ArrowRight = Some [0x1B, 0x5B, 0x43]"
| "ansi_escape_sequence ArrowLeft = Some [0x1B, 0x5B, 0x44]"
| "ansi_escape_sequence Home = Some [0x1B, 0x5B, 0x31, 0x7E]"
| "ansi_escape_sequence Insert = Some [0x1B, 0x5B, 0x32, 0x7E]"
| "ansi_escape_sequence End = Some [0x1B, 0x5B, 0x34, 0x7E]"
| "ansi_escape_sequence PageUp = Some [0x1B, 0x5B, 0x35, 0x7E]"
| "ansi_escape_sequence PageDown = Some [0x1B, 0x5B, 0x36, 0x7E]"
| "ansi_escape_sequence F1 = Some [0x1B, 0x5B, 0x31, 0x31, 0x7E]"
| "ansi_escape_sequence F2 = Some [0x1B, 0x5B, 0x31, 0x32, 0x7E]"
| "ansi_escape_sequence F3 = Some [0x1B, 0x5B, 0x31, 0x33, 0x7E]"
| "ansi_escape_sequence F4 = Some [0x1B, 0x5B, 0x31, 0x34, 0x7E]"
| "ansi_escape_sequence F5 = Some [0x1B, 0x5B, 0x31, 0x35, 0x7E]"
| "ansi_escape_sequence F6 = Some [0x1B, 0x5B, 0x31, 0x37, 0x7E]"
| "ansi_escape_sequence F7 = Some [0x1B, 0x5B, 0x31, 0x38, 0x7E]"
| "ansi_escape_sequence F8 = Some [0x1B, 0x5B, 0x31, 0x39, 0x7E]"
| "ansi_escape_sequence F9 = Some [0x1B, 0x5B, 0x32, 0x30, 0x7E]"
| "ansi_escape_sequence F10 = Some [0x1B, 0x5B, 0x32, 0x31, 0x7E]"
| "ansi_escape_sequence F11 = Some [0x1B, 0x5B, 0x32, 0x33, 0x7E]"
| "ansi_escape_sequence F12 = Some [0x1B, 0x5B, 0x32, 0x34, 0x7E]"
| "ansi_escape_sequence _ = None"

definition modifier_key :: "key_code \<Rightarrow> bool" where
  "modifier_key k \<longleftrightarrow> k \<in> {LShift, RShift, LControl, RControl, CapsLock, NumpadLock, RAltGr, RControl2}"

definition println :: "string \<Rightarrow> writer \<Rightarrow> writer result" where
  "println msg w = write_string (map of_char msg @ [0x0A]) w"

text \<open>
  \<open>add_scancode\<close>, called by the keyboard interrupt: the new queue cell, waker and screen, and
  the task that was woken, if any.
\<close>

definition add_scancode ::
  "('q \<Rightarrow> u8 \<Rightarrow> 'q option) \<Rightarrow> ('w \<Rightarrow> nat option \<times> 'w) \<Rightarrow> u8 \<Rightarrow> 'q option \<Rightarrow> 'w \<Rightarrow> writer
   \<Rightarrow> ('q option \<times> 'w \<times> writer \<times> nat option) result" where
  "add_scancode aq_push aw_wake scancode cell waker screen =
     (case cell of
        Some queue \<Rightarrow>
          (case aq_push queue scancode of
             None \<Rightarrow> bind_result (println ''WARNING: scancode queue full; dropping keyboard input'' screen)
                       (\<lambda>screen. Inr (Some queue, waker, screen, None))
           | Some queue \<Rightarrow> (let (woken, waker) = aw_wake waker in Inr (Some queue, waker, screen, woken)))
      | None \<Rightarrow> bind_result (println ''WARNING: scancode queue uninitialized'' screen)
                  (\<lambda>screen. Inr (None, waker, screen, None)))"

definition init_queue :: "(nat \<Rightarrow> 'q) \<Rightarrow> 'q option \<Rightarrow> 'q option result" where
  "init_queue aq_new cell =
     (case cell of
        None \<Rightarrow> Inr (Some (aq_new 100))
      | Some _ \<Rightarrow> panic ''keyboard::init_queue should only be called once'')"

datatype 'a poll = Ready 'a | Pending

definition poll_next ::
  "('q \<Rightarrow> u8 option \<times> 'q) \<Rightarrow> ('w \<Rightarrow> nat \<Rightarrow> 'w) \<Rightarrow> ('w \<Rightarrow> 'w) \<Rightarrow> nat \<Rightarrow> 'q option \<Rightarrow> 'w
   \<Rightarrow> (u8 option poll \<times> 'q option \<times> 'w) result" where
  "poll_next aq_pop aw_register aw_take task cell waker =
     bind_result (expect ''scancode queue not initialized'' cell)
       (\<lambda>queue.
          (case aq_pop queue of
             (Some scancode, queue) \<Rightarrow> Inr (Ready (Some scancode), Some queue, waker)
           | (None, queue) \<Rightarrow>
               (let waker = aw_register waker task
                in case aq_pop queue of
                     (Some scancode, queue) \<Rightarrow> Inr (Ready (Some scancode), Some queue, aw_take waker)
                   | (None, queue) \<Rightarrow> Inr (Pending, Some queue, waker))))"

section \<open>Handling a decoded key\<close>

definition handle_key :: "decoded_key \<Rightarrow> writer \<times> input_queue \<Rightarrow> (writer \<times> input_queue) result" where
  "handle_key key s =
     (case s of (screen, queue) \<Rightarrow>
        (case key of
           Unicode character \<Rightarrow>
             bind_result (write_string [character] screen)
               (\<lambda>screen. Inr (screen, if character < 128 then push_input_byte (of_nat character) queue else queue))
         | RawKey k \<Rightarrow>
             if modifier_key k then Inr (screen, queue)
             else (case ansi_escape_sequence k of
                     None \<Rightarrow> Inr (screen, queue)
                   | Some sequence \<Rightarrow> Inr (screen, fold push_input_byte sequence queue))))"

text \<open>
  One round of the loop of \<open>print_keypresses\<close>: \<open>kb_add_byte\<close> is \<open>None\<close> for a decoding error,
  \<open>Some None\<close> while a multi-byte scancode is incomplete.
\<close>

definition print_keypress ::
  "('k \<Rightarrow> u8 \<Rightarrow> 'ev option option \<times> 'k) \<Rightarrow> ('k \<Rightarrow> 'ev \<Rightarrow> decoded_key option \<times> 'k) \<Rightarrow> u8
   \<Rightarrow> 'k \<times> writer \<times> input_queue \<Rightarrow> ('k \<times> writer \<times> input_queue) result" where
  "print_keypress kb_add_byte kb_process scancode s =
     (case s of (keyboard, screen, queue) \<Rightarrow>
        (case kb_add_byte keyboard scancode of
           (Some (Some key_event), keyboard) \<Rightarrow>
             (case kb_process keyboard key_event of
                (Some key, keyboard) \<Rightarrow>
                  bind_result (handle_key key (screen, queue))
                    (\<lambda>(screen, queue). Inr (keyboard, screen, queue))
              | (None, keyboard) \<Rightarrow> Inr (keyboard, screen, queue))
         | (_, keyboard) \<Rightarrow> Inr (keyboard, screen, queue)))"

section \<open>The queue implements the bounded first-in first-out interface\<close>

lemma input_queue_push_room:
  assumes "input_queue_ok q" and "length (input_list q) < INPUT_QUEUE_CAPACITY"
  shows "input_queue_ok (InputQueue_push q b) \<and> input_list (InputQueue_push q b) = input_list q @ [b]"
proof -
  have len: "length (iq_bytes q) = INPUT_QUEUE_CAPACITY" "iq_len q < INPUT_QUEUE_CAPACITY"
    using assms by (simp_all add: input_queue_ok_def input_list_def)
  then show ?thesis
    using assms(1) ring_list_write_back [of "iq_len q" "iq_bytes q" "iq_head q" b]
    by (simp add: InputQueue_push_def input_queue_ok_def input_list_def Let_def)
qed

lemma input_queue_pop_cons:
  assumes "input_queue_ok q" and "input_list q = y # ys"
  shows "\<exists>q'. InputQueue_pop q = (Some y, q') \<and> input_queue_ok q' \<and> input_list q' = ys"
proof -
  have pos: "0 < iq_len q" using assms(2) by (cases "iq_len q") (auto simp: input_list_def)
  have len: "length (iq_bytes q) = INPUT_QUEUE_CAPACITY" "iq_head q < INPUT_QUEUE_CAPACITY"
    using assms(1) by (simp_all add: input_queue_ok_def)
  then show ?thesis
    using assms pos ring_list_pop_front [OF pos, of "iq_bytes q" "iq_head q"]
    by (simp add: InputQueue_pop_def input_queue_ok_def input_list_def)
qed

interpretation input_fifo: bounded_fifo InputQueue_new input_push_opt InputQueue_pop
  input_list input_queue_ok INPUT_QUEUE_CAPACITY
proof
  show "input_queue_ok InputQueue_new"
    by (simp add: InputQueue_new_def input_queue_ok_def INPUT_QUEUE_CAPACITY_def)
  show "input_list InputQueue_new = []"
    by (simp add: InputQueue_new_def input_list_def)
next
  fix q
  assume ok: "input_queue_ok q"
  then show "length (input_list q) \<le> INPUT_QUEUE_CAPACITY"
    by (simp add: input_queue_ok_def input_list_def)
  show "input_list q = [] \<Longrightarrow> InputQueue_pop q = (None, q)"
    by (simp add: input_list_def InputQueue_pop_def flip: length_0_conv)
  fix b
  show "length (input_list q) = INPUT_QUEUE_CAPACITY \<Longrightarrow> input_push_opt q b = None"
    by (simp add: input_push_opt_def input_list_def)
  show "length (input_list q) < INPUT_QUEUE_CAPACITY \<Longrightarrow>
      \<exists>q'. input_push_opt q b = Some q' \<and> input_queue_ok q' \<and> input_list q' = input_list q @ [b]"
    using input_queue_push_room [OF ok] by (auto simp: input_push_opt_def input_list_def)
  fix ys
  show "input_list q = b # ys \<Longrightarrow>
      \<exists>q'. InputQueue_pop q = (Some b, q') \<and> input_queue_ok q' \<and> input_list q' = ys"
    using input_queue_pop_cons [OF ok] by blast
qed

lemma push_input_byte_contents:
  assumes "input_queue_ok q"
  shows "input_queue_ok (push_input_byte b q)
    \<and> input_list (push_input_byte b q) = take INPUT_QUEUE_CAPACITY (input_list q @ [b])"
proof (cases "length (input_list q) < INPUT_QUEUE_CAPACITY")
  case True
  then show ?thesis using input_queue_push_room [OF assms] by (simp add: push_input_byte_def)
next
  case False
  then have "iq_len q = INPUT_QUEUE_CAPACITY"
    using assms by (simp add: input_queue_ok_def input_list_def)
  with assms show ?thesis by (simp add: push_input_byte_def InputQueue_push_def input_list_def)
qed

lemma take_take_append: "take n (take n xs @ ys) = take n (xs @ ys)"
  by (cases "n \<le> length xs") (simp_all add: min_def)

lemma push_input_bytes_contents:
  assumes "input_queue_ok q"
  shows "input_queue_ok (fold push_input_byte bs q)
    \<and> input_list (fold push_input_byte bs q) = take INPUT_QUEUE_CAPACITY (input_list q @ bs)"
  using assms
proof (induction bs arbitrary: q)
  case Nil
  then show ?case using input_fifo.contents_bound by simp
next
  case (Cons b bs)
  have "input_queue_ok (push_input_byte b q)"
    and c: "input_list (push_input_byte b q) = take INPUT_QUEUE_CAPACITY (input_list q @ [b])"
    using push_input_byte_contents [OF Cons.prems] by blast+
  then have "input_queue_ok (fold push_input_byte bs (push_input_byte b q))
      \<and> input_list (fold push_input_byte bs (push_input_byte b q))
          = take INPUT_QUEUE_CAPACITY (take INPUT_QUEUE_CAPACITY (input_list q @ [b]) @ bs)"
    using Cons.IH by metis
  then show ?case by (simp only: take_take_append fold_simps append_assoc append_Cons append_Nil)
qed

section \<open>Properties\<close>

text \<open>
  The bytes a key delivers to \<open>sys_read\<close>: its character when it is ASCII, its escape
  sequence when it is a key without a character, nothing otherwise.
\<close>

definition key_bytes :: "decoded_key \<Rightarrow> u8 list" where
  "key_bytes key =
     (case key of
        Unicode c \<Rightarrow> if c < 128 then [of_nat c] else []
      | RawKey k \<Rightarrow> (case ansi_escape_sequence k of None \<Rightarrow> [] | Some sequence \<Rightarrow> sequence))"

lemma modifier_no_sequence: "modifier_key k \<Longrightarrow> ansi_escape_sequence k = None"
  by (auto simp: modifier_key_def)

lemma handle_key_queue:
  "handle_key key (screen, q) = Inr (screen', q') \<Longrightarrow> q' = fold push_input_byte (key_bytes key) q"
  by (auto simp: handle_key_def key_bytes_def bind_result_Inr_iff modifier_no_sequence
      split: decoded_key.splits option.splits if_splits)

lemma handle_key_returns:
  assumes "writer_ok screen"
  shows "\<exists>screen'. handle_key key (screen, q) = Inr (screen', fold push_input_byte (key_bytes key) q)
    \<and> writer_ok screen'"
proof -
  have "\<exists>screen' q'. handle_key key (screen, q) = Inr (screen', q') \<and> writer_ok screen'"
  proof (cases key)
    case (Unicode c)
    obtain screen' where "write_string [c] screen = Inr screen'" "writer_ok screen'"
      using write_string_returns [OF assms] by blast
    then show ?thesis by (simp add: Unicode handle_key_def)
  next
    case (RawKey k)
    then show ?thesis using assms by (simp add: handle_key_def split: option.split)
  qed
  then show ?thesis using handle_key_queue by blast
qed

text \<open>The keys that a decoder makes of a sequence of scancodes, in order.\<close>

fun decode_keys ::
  "('k \<Rightarrow> u8 \<Rightarrow> 'ev option option \<times> 'k) \<Rightarrow> ('k \<Rightarrow> 'ev \<Rightarrow> decoded_key option \<times> 'k)
   \<Rightarrow> 'k \<Rightarrow> u8 list \<Rightarrow> decoded_key list" where
  "decode_keys kb_add_byte kb_process kb [] = []"
| "decode_keys kb_add_byte kb_process kb (sc # scs) =
     (case kb_add_byte kb sc of
        (Some (Some ev), kb1) \<Rightarrow>
          (case kb_process kb1 ev of
             (Some key, kb2) \<Rightarrow> key # decode_keys kb_add_byte kb_process kb2 scs
           | (None, kb2) \<Rightarrow> decode_keys kb_add_byte kb_process kb2 scs)
      | (_, kb1) \<Rightarrow> decode_keys kb_add_byte kb_process kb1 scs)"

lemma print_keypress_step:
  assumes "writer_ok screen"
  shows "\<exists>keys kb' screen'. print_keypress add proc sc (kb, screen, q)
           = Inr (kb', screen', fold push_input_byte (concat (map key_bytes keys)) q)
      \<and> writer_ok screen'
      \<and> (\<forall>scs. decode_keys add proc kb (sc # scs) = keys @ decode_keys add proc kb' scs)"
proof (cases "add kb sc")
  case (Pair r kb1)
  show ?thesis
  proof (cases "\<exists>ev. r = Some (Some ev)")
    case False
    then have "print_keypress add proc sc (kb, screen, q) = Inr (kb1, screen, q)"
      and "\<forall>scs. decode_keys add proc kb (sc # scs) = decode_keys add proc kb1 scs"
      by (auto simp: print_keypress_def Pair split: option.splits)
    then show ?thesis using assms by (intro exI [of _ "[]"]) simp
  next
    case True
    then obtain ev where r: "r = Some (Some ev)" by blast
    obtain k kb2 where p: "proc kb1 ev = (k, kb2)" by force
    show ?thesis
    proof (cases k)
      case None
      then show ?thesis using assms
        by (intro exI [of _ "[]"]) (simp add: print_keypress_def Pair r p)
    next
      case (Some key)
      obtain screen' where
        h: "handle_key key (screen, q) = Inr (screen', fold push_input_byte (key_bytes key) q)"
        and w: "writer_ok screen'"
        using handle_key_returns [OF assms] by blast
      show ?thesis
        by (intro exI [of _ "[key]"]) (simp add: print_keypress_def Pair r p Some h w)
    qed
  qed
qed

lemma print_keypresses_loop:
  assumes "writer_ok screen"
  shows "\<exists>kb' screen'. for_each scs (print_keypress add proc) (kb, screen, q)
           = Inr (kb', screen', fold push_input_byte (concat (map key_bytes (decode_keys add proc kb scs))) q)
      \<and> writer_ok screen'"
  using assms
proof (induction scs arbitrary: kb screen q)
  case Nil
  then show ?case by simp
next
  case (Cons sc scs)
  obtain keys kb1 screen1 where step: "print_keypress add proc sc (kb, screen, q)
      = Inr (kb1, screen1, fold push_input_byte (concat (map key_bytes keys)) q)"
    and ok: "writer_ok screen1"
    and dec: "decode_keys add proc kb (sc # scs) = keys @ decode_keys add proc kb1 scs"
    using print_keypress_step [OF Cons.prems, of add proc sc kb q] by blast
  show ?case
    unfolding dec using Cons.IH [OF ok, of kb1 "fold push_input_byte (concat (map key_bytes keys)) q"]
    by (simp add: step del: decode_keys.simps)
qed

text \<open>
  C37. Keyboard input reaches \<open>sys_read\<close> in order and without loss up to the queue's capacity.
  Whatever scancodes the loop of \<open>print_keypresses\<close> handles, it never panics, the queue stays
  well-formed, and it then holds its old contents followed by the bytes of the decoded keys,
  cut at 128 bytes: a full queue drops new bytes and never overwrites unread ones. Taking
  \<open>n\<close> bytes out returns the first \<open>n\<close> of them.
\<close>

theorem keypresses_reach_the_reader:
  assumes "writer_ok screen" and "input_queue_ok q"
  shows "\<exists>kb' screen' q'. for_each scs (print_keypress add proc) (kb, screen, q) = Inr (kb', screen', q')
    \<and> writer_ok screen' \<and> input_queue_ok q'
    \<and> input_list q' = take INPUT_QUEUE_CAPACITY
        (input_list q @ concat (map key_bytes (decode_keys add proc kb scs)))
    \<and> fst (pop_upto try_pop_input_byte n q') = take n (input_list q')"
proof -
  let ?q' = "fold push_input_byte (concat (map key_bytes (decode_keys add proc kb scs))) q"
  obtain kb' screen' where "for_each scs (print_keypress add proc) (kb, screen, q) = Inr (kb', screen', ?q')"
    and "writer_ok screen'"
    using print_keypresses_loop [OF assms(1), where add = add and proc = proc and scs = scs and kb = kb and q = q]
    by blast
  moreover have "input_queue_ok ?q'" and "input_list ?q' = take INPUT_QUEUE_CAPACITY
        (input_list q @ concat (map key_bytes (decode_keys add proc kb scs)))"
    using push_input_bytes_contents [OF assms(2)] by blast+
  moreover from \<open>input_queue_ok ?q'\<close>
  have "fst (pop_upto try_pop_input_byte n ?q') = take n (input_list ?q')"
    using input_fifo.pop_upto_contents by (auto simp: try_pop_input_byte_def [abs_def])
  ultimately show ?thesis by blast
qed

theorem keypresses_reach_the_reader_witness:
  "\<exists>kb' screen' q'. for_each [0x61, 0x48, 0x62]
      (print_keypress (\<lambda>k b. (Some (Some b), k))
         (\<lambda>k ev. (Some (if ev = 0x48 then RawKey ArrowUp else Unicode (unat ev)), k)))
      ((), writer_init (replicate 25 (replicate 80 \<lparr>ascii_character = 0x20, cell_color = 0x0E\<rparr>)), InputQueue_new)
      = Inr (kb', screen', q')
    \<and> input_list q' = [0x61, 0x1B, 0x5B, 0x41, 0x62]
    \<and> fst (pop_upto try_pop_input_byte 2 q') = [0x61, 0x1B]"
proof -
  let ?w = "writer_init (replicate 25 (replicate 80 \<lparr>ascii_character = 0x20, cell_color = 0x0E\<rparr>))"
  have ok: "writer_ok ?w" by (rule writer_init_ok) (simp_all add: vga_consts)
  show ?thesis
    using keypresses_reach_the_reader [OF ok input_fifo.invar_empty, where n = 2 and kb = "()"
        and scs = "[0x61, 0x48, 0x62]" and add = "\<lambda>k b. (Some (Some b), k)"
        and proc = "\<lambda>k ev. (Some (if ev = 0x48 then RawKey ArrowUp else Unicode (unat ev)), k)"]
    by (auto simp: input_fifo.contents_empty key_bytes_def INPUT_QUEUE_CAPACITY_def)
qed

text \<open>
  The escape sequences are uniquely decodable: no sequence is a prefix of the sequence of
  another key, so a program that reads the bytes can tell which keys were pressed.
\<close>

theorem escape_sequences_prefix_free:
  assumes "ansi_escape_sequence k = Some s" and "ansi_escape_sequence k' = Some s'" and "s' = s @ t"
  shows "k = k' \<and> t = []"
  using assms by (cases k; cases k'; force)

theorem escape_sequences_prefix_free_witness:
  "ansi_escape_sequence F5 = Some [0x1B, 0x5B, 0x31, 0x35, 0x7E]
   \<and> [0x1B, 0x5B, 0x31, 0x35, 0x7E] = [0x1B, 0x5B, 0x31, 0x35, 0x7E] @ ([] :: u8 list) \<and> F5 = F5"
  using escape_sequences_prefix_free [of F5 "[0x1B, 0x5B, 0x31, 0x35, 0x7E]" F5
      "[0x1B, 0x5B, 0x31, 0x35, 0x7E]" "[]"] by simp

end
