(* ===== verification/Ata.thy ===== *)
theory Ata
  imports Prelude
begin

text \<open>
  The polling disk driver, \<open>src/ata.rs\<close>. Port input and output is the argument \<open>io\<close>: three
  functions on the state of the device. What the driver relies on is \<open>ata_contract\<close>, the
  documented behaviour of an ATA device in PIO mode: after a read command with LBA addressing
  the device is busy for a while and then hands out the addressed sector word by word.
\<close>

type_synonym port = "16 word"

record 'd port_io =
  in8 :: "port \<Rightarrow> 'd \<Rightarrow> u8 \<times> 'd"
  in16 :: "port \<Rightarrow> 'd \<Rightarrow> u16 \<times> 'd"
  out8 :: "port \<Rightarrow> u8 \<Rightarrow> 'd \<Rightarrow> 'd"

section \<open>The driver\<close>

definition DATA :: port where "DATA = 0x1F0"
definition SECTOR_COUNT :: port where "SECTOR_COUNT = 0x1F2"
definition LBA_LOW :: port where "LBA_LOW = 0x1F3"
definition LBA_MID :: port where "LBA_MID = 0x1F4"
definition LBA_HIGH :: port where "LBA_HIGH = 0x1F5"
definition DRIVE_HEAD :: port where "DRIVE_HEAD = 0x1F6"
definition COMMAND_STATUS :: port where "COMMAND_STATUS = 0x1F7"

lemmas ata_ports = DATA_def SECTOR_COUNT_def LBA_LOW_def LBA_MID_def LBA_HIGH_def DRIVE_HEAD_def
  COMMAND_STATUS_def

definition CMD_READ_SECTORS :: u8 where "CMD_READ_SECTORS = 0x20"

definition STATUS_ERR :: u8 where "STATUS_ERR = 1"
definition STATUS_DRQ :: u8 where "STATUS_DRQ = 8"
definition STATUS_BSY :: u8 where "STATUS_BSY = 0x80"

definition POLL_ATTEMPTS :: nat where "POLL_ATTEMPTS = 10000000"

definition SECTOR_SIZE :: nat where "SECTOR_SIZE = 512"

datatype drive = Primary | Secondary

definition select_bit :: "drive \<Rightarrow> u8" where
  "select_bit drive = (case drive of Primary \<Rightarrow> 0x00 | Secondary \<Rightarrow> 0x10)"

text \<open>The two polling loops, with the number of attempts that are left.\<close>

fun poll_not_busy :: "'d port_io \<Rightarrow> nat \<Rightarrow> 'd \<Rightarrow> 'd result" where
  "poll_not_busy io 0 d = panic ''ATA: drive stayed busy for too long''"
| "poll_not_busy io (Suc n) d =
     (let (status, d) = in8 io COMMAND_STATUS d
      in if status AND STATUS_BSY = 0 then Inr d else poll_not_busy io n d)"

definition wait_until_not_busy :: "'d port_io \<Rightarrow> 'd \<Rightarrow> 'd result" where
  "wait_until_not_busy io d = poll_not_busy io POLL_ATTEMPTS d"

fun poll_data :: "'d port_io \<Rightarrow> nat \<Rightarrow> 'd \<Rightarrow> 'd result" where
  "poll_data io 0 d = panic ''ATA: drive never became ready to transfer data''"
| "poll_data io (Suc n) d =
     (let (status, d) = in8 io COMMAND_STATUS d
      in if status AND STATUS_ERR \<noteq> 0 then panic ''ATA: drive reported an error''
         else if status AND STATUS_BSY = 0 \<and> status AND STATUS_DRQ \<noteq> 0 then Inr d
         else poll_data io n d)"

definition wait_for_data :: "'d port_io \<Rightarrow> 'd \<Rightarrow> 'd result" where
  "wait_for_data io d = poll_data io POLL_ATTEMPTS d"

text \<open>The transfer of \<open>n\<close> words into consecutive byte pairs of the buffer.\<close>

fun read_words :: "'d port_io \<Rightarrow> nat \<Rightarrow> 'd \<Rightarrow> u8 list \<times> 'd" where
  "read_words io 0 d = ([], d)"
| "read_words io (Suc n) d =
     (let (word, d) = in16 io DATA d;
          (rest, d) = read_words io n d
      in (ucast (word AND 0xFF) # ucast (drop_bit 8 word) # rest, d))"

definition read_sector :: "'d port_io \<Rightarrow> drive \<Rightarrow> u32 \<Rightarrow> 'd \<Rightarrow> (u8 list \<times> 'd) result" where
  "read_sector io drive lba d =
     (if \<not> lba < 2 ^ 28 then panic ''LBA28 only supports 28-bit sector addresses''
      else
        bind_result (wait_until_not_busy io d) (\<lambda>d.
        let d = out8 io DRIVE_HEAD (0xE0 OR select_bit drive OR ucast (drop_bit 24 lba AND 0x0F)) d;
            d = out8 io SECTOR_COUNT 1 d;
            d = out8 io LBA_LOW (ucast (lba AND 0xFF)) d;
            d = out8 io LBA_MID (ucast (drop_bit 8 lba AND 0xFF)) d;
            d = out8 io LBA_HIGH (ucast (drop_bit 16 lba AND 0xFF)) d;
            d = out8 io COMMAND_STATUS CMD_READ_SECTORS d
        in bind_result (wait_for_data io d) (\<lambda>d. Inr (read_words io (SECTOR_SIZE div 2) d))))"

section \<open>The device\<close>

text \<open>
  The view of a device: the last value written to each register, for how many more status
  reads it stays busy, and the words it has ready to transfer. \<open>disk\<close> gives the sectors of
  the drive selected by bit 4 of the drive register.
\<close>

record ata_view =
  regs :: "port \<Rightarrow> u8"
  busy_for :: nat
  transfer :: "u16 list"

definition selected_lba :: "(port \<Rightarrow> u8) \<Rightarrow> u32" where
  "selected_lba r = ucast (r LBA_LOW) OR push_bit 8 (ucast (r LBA_MID))
     OR push_bit 16 (ucast (r LBA_HIGH)) OR push_bit 24 (ucast (r DRIVE_HEAD AND 0x0F))"

definition sector_words :: "u8 list \<Rightarrow> u16 list" where
  "sector_words bytes = map (\<lambda>i. from_le_bytes (take 2 (drop (2 * i) bytes))) [0..<length bytes div 2]"

definition ata_contract :: "'d port_io \<Rightarrow> ('d \<Rightarrow> ata_view) \<Rightarrow> (bool \<Rightarrow> u32 \<Rightarrow> u8 list) \<Rightarrow> bool" where
  "ata_contract io view disk \<longleftrightarrow>
     (\<forall>d. \<exists>status d'. in8 io COMMAND_STATUS d = (status, d')
        \<and> (if busy_for (view d) = 0
           then view d' = view d \<and> status AND STATUS_BSY = 0 \<and> status AND STATUS_ERR = 0
             \<and> (status AND STATUS_DRQ \<noteq> 0 \<longleftrightarrow> transfer (view d) \<noteq> [])
           else view d' = (view d)\<lparr>busy_for := busy_for (view d) - 1\<rparr>
             \<and> status AND STATUS_BSY \<noteq> 0 \<and> status AND STATUS_ERR = 0))
   \<and> (\<forall>p v d. p \<noteq> COMMAND_STATUS \<longrightarrow> view (out8 io p v d) = (view d)\<lparr>regs := (regs (view d))(p := v)\<rparr>)
   \<and> (\<forall>d. regs (view d) SECTOR_COUNT = 1 \<and> regs (view d) DRIVE_HEAD AND 0xE0 = 0xE0 \<longrightarrow>
        (\<exists>n < POLL_ATTEMPTS. view (out8 io COMMAND_STATUS CMD_READ_SECTORS d) =
           (view d)\<lparr>busy_for := n,
             transfer := sector_words (disk (bit (regs (view d) DRIVE_HEAD) 4) (selected_lba (regs (view d))))\<rparr>))
   \<and> (\<forall>d w ws. busy_for (view d) = 0 \<and> transfer (view d) = w # ws \<longrightarrow>
        (\<exists>d'. in16 io DATA d = (w, d') \<and> view d' = (view d)\<lparr>transfer := ws\<rparr>))"

section \<open>Reading a sector\<close>

lemma status_read:
  assumes "ata_contract io view disk"
  obtains status d' where "in8 io COMMAND_STATUS d = (status, d')" "status AND STATUS_ERR = 0"
    "status AND STATUS_BSY = 0 \<longleftrightarrow> busy_for (view d) = 0"
    "view d' = (view d)\<lparr>busy_for := busy_for (view d) - 1\<rparr>"
    "busy_for (view d) = 0 \<Longrightarrow> status AND STATUS_DRQ \<noteq> 0 \<longleftrightarrow> transfer (view d) \<noteq> []"
proof -
  obtain status d' where "in8 io COMMAND_STATUS d = (status, d')"
    and "if busy_for (view d) = 0
           then view d' = view d \<and> status AND STATUS_BSY = 0 \<and> status AND STATUS_ERR = 0
             \<and> (status AND STATUS_DRQ \<noteq> 0 \<longleftrightarrow> transfer (view d) \<noteq> [])
           else view d' = (view d)\<lparr>busy_for := busy_for (view d) - 1\<rparr>
             \<and> status AND STATUS_BSY \<noteq> 0 \<and> status AND STATUS_ERR = 0"
    using assms unfolding ata_contract_def by blast
  then show thesis using that [of status d'] by (cases "busy_for (view d) = 0") auto
qed

lemma poll_not_busy_ready:
  assumes "ata_contract io view disk" and "busy_for (view d) < n"
  shows "\<exists>d'. poll_not_busy io n d = Inr d' \<and> view d' = (view d)\<lparr>busy_for := 0\<rparr>"
  using assms(2)
proof (induction n arbitrary: d)
  case (Suc n)
  obtain status d' where r: "in8 io COMMAND_STATUS d = (status, d')"
    "status AND STATUS_BSY = 0 \<longleftrightarrow> busy_for (view d) = 0"
    "view d' = (view d)\<lparr>busy_for := busy_for (view d) - 1\<rparr>"
    using status_read [OF assms(1)] by metis
  show ?case
  proof (cases "busy_for (view d) = 0")
    case True
    then show ?thesis using r by simp
  next
    case False
    then have "busy_for (view d') < n" using r(3) Suc.prems by auto
    from Suc.IH [OF this] r False show ?thesis by simp
  qed
qed simp

lemma poll_data_ready:
  assumes "ata_contract io view disk" and "busy_for (view d) < n" and "transfer (view d) \<noteq> []"
  shows "\<exists>d'. poll_data io n d = Inr d' \<and> view d' = (view d)\<lparr>busy_for := 0\<rparr>"
  using assms(2,3)
proof (induction n arbitrary: d)
  case (Suc n)
  obtain status d' where r: "in8 io COMMAND_STATUS d = (status, d')" "status AND STATUS_ERR = 0"
    "status AND STATUS_BSY = 0 \<longleftrightarrow> busy_for (view d) = 0"
    "view d' = (view d)\<lparr>busy_for := busy_for (view d) - 1\<rparr>"
    "busy_for (view d) = 0 \<longrightarrow> (status AND STATUS_DRQ \<noteq> 0 \<longleftrightarrow> transfer (view d) \<noteq> [])"
    using status_read [OF assms(1)] by metis
  show ?case
  proof (cases "busy_for (view d) = 0")
    case True
    then show ?thesis using r Suc.prems by simp
  next
    case False
    then have "busy_for (view d') < n" "transfer (view d') \<noteq> []" using r(4) Suc.prems by auto
    from Suc.IH [OF this] r False show ?thesis by simp
  qed
qed simp

lemma mask_FF: "(0xFF :: 'a::len word) = mask 8"
  by (simp add: mask_eq_exp_minus_1)

lemma word_of_bytes:
  "ucast ((from_le_bytes [a, b] :: u16) AND 0xFF) = a" "ucast (drop_bit 8 (from_le_bytes [a, b] :: u16)) = b"
proof -
  show "ucast ((from_le_bytes [a, b] :: u16) AND 0xFF) = a"
    unfolding mask_FF take_bit_eq_mask [symmetric]
    by (rule bit_word_eqI) (simp add: bit_ucast_iff bit_take_bit_iff bit_or_iff bit_push_bit_iff)
  show "ucast (drop_bit 8 (from_le_bytes [a, b] :: u16)) = b"
    by (rule bit_word_eqI) (auto simp: bit_ucast_iff bit_drop_bit_eq bit_or_iff bit_push_bit_iff
        dest: bit_imp_le_length)
qed

lemma sector_words_Cons:
  "sector_words (a # b # bs) = from_le_bytes [a, b] # sector_words bs"
proof -
  have "[0..<Suc (length bs div 2)] = 0 # map Suc [0..<length bs div 2]" by (simp add: upt_conv_Cons map_Suc_upt)
  then show ?thesis by (simp add: sector_words_def del: upt_Suc)
qed

lemma read_words_transfer:
  assumes c: "ata_contract io view disk"
  shows "even (length bytes) \<Longrightarrow> busy_for (view d) = 0 \<Longrightarrow> transfer (view d) = sector_words bytes \<Longrightarrow>
    \<exists>d'. read_words io (length bytes div 2) d = (bytes, d') \<and> view d' = (view d)\<lparr>transfer := []\<rparr>"
proof (induction bytes arbitrary: d rule: induct_list012)
  case 1
  then show ?case by (simp add: sector_words_def)
next
  case (3 a b bs)
  then have t: "transfer (view d) = from_le_bytes [a, b] # sector_words bs" by (simp only: sector_words_Cons)
  obtain d1 where r: "in16 io DATA d = (from_le_bytes [a, b], d1)"
    and v: "view d1 = (view d)\<lparr>transfer := sector_words bs\<rparr>"
    using c "3.prems"(2) t unfolding ata_contract_def by blast
  have "\<exists>d'. read_words io (length bs div 2) d1 = (bs, d') \<and> view d' = (view d1)\<lparr>transfer := []\<rparr>"
    using "3.prems" v by (intro "3.IH") simp_all
  then show ?case using r v word_of_bytes [of a b] by (auto simp del: from_le_bytes.simps)
qed simp

lemma mask_0F: "(0x0F :: 'a::len word) = mask 4"
  by (simp add: mask_eq_exp_minus_1)

definition drive_head :: "drive \<Rightarrow> u32 \<Rightarrow> u8" where
  "drive_head drive lba = 0xE0 OR select_bit drive OR ucast (drop_bit 24 lba AND 0x0F)"

lemma drive_head_fields:
  "drive_head drive lba AND 0xE0 = 0xE0"
  "bit (drive_head drive lba) 4 \<longleftrightarrow> drive = Secondary"
  "drive_head drive lba AND 0x0F = ucast (drop_bit 24 lba AND 0x0F)"
proof -
  show "drive_head drive lba AND 0xE0 = 0xE0"
    unfolding drive_head_def by (rule bit_word_eqI) (auto simp: bit_and_iff bit_or_iff)
  show "bit (drive_head drive lba) 4 \<longleftrightarrow> drive = Secondary"
    unfolding drive_head_def mask_0F take_bit_eq_mask [symmetric]
    by (cases drive) (simp_all add: bit_or_iff bit_ucast_iff bit_take_bit_iff select_bit_def)
  have "take_bit 4 (select_bit drive) = 0" by (cases drive) (simp_all add: select_bit_def)
  moreover have "take_bit 4 (ucast (take_bit 4 (drop_bit 24 lba)) :: u8) = ucast (take_bit 4 (drop_bit 24 lba))"
    by (rule bit_word_eqI) (auto simp: bit_take_bit_iff bit_ucast_iff)
  ultimately show "drive_head drive lba AND 0x0F = ucast (drop_bit 24 lba AND 0x0F)"
    unfolding drive_head_def mask_0F take_bit_eq_mask [symmetric] by (simp add: take_bit_or)
qed

lemma take_bit_u32_self:
  fixes w :: u32
  assumes "n < 32" and "w < 2 ^ n"
  shows "take_bit n w = w"
proof -
  have "(2 :: nat) ^ n < 2 ^ 32" by (rule power_strict_increasing) (use assms(1) in simp_all)
  then have "unat (of_nat (2 ^ n) :: u32) = 2 ^ n" unfolding unat_of_nat by simp
  then have "unat (2 ^ n :: u32) = 2 ^ n" unfolding of_nat_power of_nat_numeral .
  then have "unat w < 2 ^ n" using assms(2) by (simp add: word_less_nat_alt)
  then have "take_bit n (unat w) = unat w" by (rule take_bit_nat_eq_self)
  then show ?thesis by (metis unsigned_take_bit_eq word_unat_eq_iff)
qed

lemma selected_lba_written:
  assumes "lba < 2 ^ 28"
    and "r LBA_LOW = ucast (lba AND 0xFF)" "r LBA_MID = ucast (drop_bit 8 lba AND 0xFF)"
    "r LBA_HIGH = ucast (drop_bit 16 lba AND 0xFF)" "r DRIVE_HEAD = drive_head drive lba"
  shows "selected_lba r = lba"
proof (rule bit_word_eqI)
  fix n assume "n < LENGTH(32)"
  have "take_bit 28 lba = lba" by (rule take_bit_u32_self) (use assms(1) in simp_all)
  then have b: "bit lba n \<Longrightarrow> n < 28" by (metis bit_take_bit_iff)
  have "bit (selected_lba r) n \<longleftrightarrow> n < 8 \<and> bit lba n \<or> 8 \<le> n \<and> n < 16 \<and> bit lba n
      \<or> 16 \<le> n \<and> n < 24 \<and> bit lba n \<or> 24 \<le> n \<and> n < 28 \<and> bit lba n"
    unfolding selected_lba_def assms(2-) drive_head_fields
    unfolding mask_FF mask_0F take_bit_eq_mask [symmetric]
    using \<open>n < LENGTH(32)\<close>
    by (auto simp: bit_or_iff bit_ucast_iff bit_push_bit_iff bit_take_bit_iff bit_drop_bit_eq)
  then show "bit (selected_lba r) n = bit lba n" using b by auto
qed

lemma read_sector_returns:
  assumes c: "ata_contract io view disk" and lba: "lba < 2 ^ 28" and "busy_for (view d) < POLL_ATTEMPTS"
    and len: "length (disk (drive = Secondary) lba) = SECTOR_SIZE"
  shows "\<exists>d'. read_sector io drive lba d = Inr (disk (drive = Secondary) lba, d')
    \<and> busy_for (view d') = 0 \<and> transfer (view d') = []"
proof -
  obtain d0 where d0: "wait_until_not_busy io d = Inr d0" "view d0 = (view d)\<lparr>busy_for := 0\<rparr>"
    unfolding wait_until_not_busy_def using poll_not_busy_ready [OF c assms(3)] by blast
  define d1 where "d1 = out8 io LBA_HIGH (ucast (drop_bit 16 lba AND 0xFF))
    (out8 io LBA_MID (ucast (drop_bit 8 lba AND 0xFF)) (out8 io LBA_LOW (ucast (lba AND 0xFF))
    (out8 io SECTOR_COUNT 1 (out8 io DRIVE_HEAD (drive_head drive lba) d0))))"
  let ?r = "(regs (view d))(DRIVE_HEAD := drive_head drive lba, SECTOR_COUNT := 1,
    LBA_LOW := ucast (lba AND 0xFF), LBA_MID := ucast (drop_bit 8 lba AND 0xFF),
    LBA_HIGH := ucast (drop_bit 16 lba AND 0xFF))"
  have "view (out8 io p v e) = (view e)\<lparr>regs := (regs (view e))(p := v)\<rparr>" if "p \<noteq> COMMAND_STATUS" for p v e
    using c that unfolding ata_contract_def by blast
  then have v1: "view d1 = (view d)\<lparr>busy_for := 0, regs := ?r\<rparr>"
    by (simp add: d1_def d0(2) ata_ports)
  have ready: "regs (view d1) SECTOR_COUNT = 1 \<and> regs (view d1) DRIVE_HEAD AND 0xE0 = 0xE0"
    by (simp add: v1 drive_head_fields) (simp add: ata_ports drive_head_fields)
  have sel: "bit (regs (view d1) DRIVE_HEAD) 4 = (drive = Secondary)"
    by (simp add: v1) (simp add: ata_ports drive_head_fields)
  have adr: "selected_lba (regs (view d1)) = lba"
    by (rule selected_lba_written [OF lba, of _ drive]) (simp_all add: v1 ata_ports)
  have "\<exists>n < POLL_ATTEMPTS. view (out8 io COMMAND_STATUS CMD_READ_SECTORS d1) = (view d1)\<lparr>busy_for := n,
      transfer := sector_words (disk (bit (regs (view d1) DRIVE_HEAD) 4) (selected_lba (regs (view d1))))\<rparr>"
    using c ready unfolding ata_contract_def by blast
  then obtain n where n: "n < POLL_ATTEMPTS" "view (out8 io COMMAND_STATUS CMD_READ_SECTORS d1) =
      (view d1)\<lparr>busy_for := n, transfer := sector_words (disk (drive = Secondary) lba)\<rparr>"
    unfolding sel adr by blast
  have "sector_words (disk (drive = Secondary) lba) \<noteq> []"
    using len by (simp add: sector_words_def SECTOR_SIZE_def)
  then obtain d2 where d2: "wait_for_data io (out8 io COMMAND_STATUS CMD_READ_SECTORS d1) = Inr d2"
    "busy_for (view d2) = 0" "transfer (view d2) = sector_words (disk (drive = Secondary) lba)"
    unfolding wait_for_data_def using n
      poll_data_ready [OF c, of "out8 io COMMAND_STATUS CMD_READ_SECTORS d1" POLL_ATTEMPTS]
    by auto
  obtain d3 where "read_words io (SECTOR_SIZE div 2) d2 = (disk (drive = Secondary) lba, d3)"
    "view d3 = (view d2)\<lparr>transfer := []\<rparr>"
    using read_words_transfer [OF c _ d2(2,3)] len by (auto simp: SECTOR_SIZE_def)
  then show ?thesis
    using lba d0(1) d2 by (simp add: read_sector_def Let_def flip: d1_def drive_head_def)
qed

text \<open>
  C36. Reading a sector reads that sector. On a device that follows the documented protocol and
  that becomes ready within the polling bound, \<open>read_sector\<close> does not panic for any LBA below
  \<open>2^28\<close> and fills the buffer with exactly the bytes of the sector with that number on
  the selected drive: the address survives its split over four registers and the bytes their
  transfer as 16-bit words. Afterwards the device is idle again.
\<close>

theorem read_sector_correct:
  assumes "ata_contract io view disk" and "lba < 2 ^ 28" and "busy_for (view d) < POLL_ATTEMPTS"
    and "length (disk (drive = Secondary) lba) = SECTOR_SIZE"
  shows "\<exists>d'. read_sector io drive lba d = Inr (disk (drive = Secondary) lba, d')
    \<and> busy_for (view d') = 0 \<and> transfer (view d') = []"
  by (rule read_sector_returns [OF assms])

text \<open>A device with given disks that is busy for three status reads after a command.\<close>

definition ref_io :: "(bool \<Rightarrow> u32 \<Rightarrow> u8 list) \<Rightarrow> ata_view port_io" where
  "ref_io disk =
     \<lparr>in8 = (\<lambda>p d. if busy_for d = 0 then (if transfer d = [] then 0 else STATUS_DRQ, d)
        else (STATUS_BSY, d\<lparr>busy_for := busy_for d - 1\<rparr>)),
      in16 = (\<lambda>p d. (hd (transfer d), d\<lparr>transfer := tl (transfer d)\<rparr>)),
      out8 = (\<lambda>p v d. if p = COMMAND_STATUS
        then d\<lparr>busy_for := 3, transfer := sector_words (disk (bit (regs d DRIVE_HEAD) 4) (selected_lba (regs d)))\<rparr>
        else d\<lparr>regs := (regs d)(p := v)\<rparr>)\<rparr>"

definition ref_idle :: ata_view where
  "ref_idle = \<lparr>regs = \<lambda>_. 0, busy_for = 5, transfer = []\<rparr>"

lemma ref_io_contract: "ata_contract (ref_io disk) id disk"
  unfolding ata_contract_def
proof (intro conjI allI impI)
  show "\<exists>n < POLL_ATTEMPTS. id (out8 (ref_io disk) COMMAND_STATUS CMD_READ_SECTORS d) = (id d)\<lparr>busy_for := n,
      transfer := sector_words (disk (bit (regs (id d) DRIVE_HEAD) 4) (selected_lba (regs (id d))))\<rparr>" for d
    by (rule exI [of _ 3]) (simp add: ref_io_def POLL_ATTEMPTS_def)
qed (auto simp: ref_io_def STATUS_DRQ_def STATUS_BSY_def STATUS_ERR_def)

text \<open>Two disks whose sectors hold their number (plus one on the second disk) in every byte.\<close>

definition ref_disk :: "bool \<Rightarrow> u32 \<Rightarrow> u8 list" where
  "ref_disk slave lba = replicate 512 (ucast lba + (if slave then 1 else 0))"

theorem read_sector_correct_witness:
  "\<exists>d'. read_sector (ref_io ref_disk) Secondary 0x0ABCDEF ref_idle
     = Inr (ref_disk True 0x0ABCDEF, d') \<and> busy_for d' = 0 \<and> transfer d' = []"
  using read_sector_correct [OF ref_io_contract, of "0x0ABCDEF" ref_idle ref_disk Secondary]
  by (simp add: POLL_ATTEMPTS_def ref_disk_def SECTOR_SIZE_def ref_idle_def)

end
