(* ===== verification/Scheduler.thy ===== *)
theory Scheduler
  imports Threads Context Paging Keyboard Ata
begin

text \<open>
  The scheduler, \<open>src/scheduler/mod.rs\<close>: every operation on the scheduler's state, from
  \<open>init\<close> to \<open>schedule\<close>, over the state of the whole kernel.

  The kernel's state holds the statics of the source (the scheduler, the frame allocator, the
  offset of physical memory, the screen, the input queue, RSP0 in the task state segment) and
  the machine: the registers, the interrupt flag, physical memory, the heap and the disk. The
  locks around the statics have no counterpart: the kernel runs on one processor and each
  critical section runs with interrupts disabled.

  The record \<open>platform\<close> collects what the repository does not define: the crates for page
  tables and the heap, the ports of the disk, the addresses that the compiler gives to code,
  and the base and size of the stack of \<open>kernel_main\<close>.
\<close>

datatype map_error = FrameAllocationFailed | ParentEntryHugePage | PageAlreadyMapped

record ('h, 'd) platform =
  x86 :: x86_api
  heap_alloc :: "u64 \<Rightarrow> u64 \<Rightarrow> 'h \<Rightarrow> u64 \<times> 'h"
  heap_dealloc :: "u64 \<Rightarrow> u64 \<Rightarrow> u64 \<Rightarrow> 'h \<Rightarrow> 'h"
  translate_page :: "pmem \<Rightarrow> phys_frame \<Rightarrow> virt_addr \<Rightarrow> phys_frame option"
  map_to :: "phys_frame \<Rightarrow> virt_addr \<Rightarrow> phys_frame \<Rightarrow> u64 \<Rightarrow> pmem \<times> frame_allocator option
    \<Rightarrow> (map_error option \<times> pmem \<times> frame_allocator option) result"
  ata_ports :: "'d port_io"
  thread_trampoline_addr :: u64
  ring3_trampoline_addr :: u64
  schedule_return_addr :: u64
  exit_return_addr :: u64
  boot_stack :: "u64 \<times> u64"

record ('h, 'd) kernel =
  scheduler :: "scheduler_state option"
  cpu_regs :: cpu
  rsp0 :: virt_addr
  interrupts_enabled :: bool
  heap :: 'h
  frames :: "frame_allocator option"
  memory :: pmem
  physical_memory_offset :: "virt_addr option"
  screen :: writer
  input :: input_queue
  disk :: 'd

text \<open>The processor instructions \<open>cli\<close>, \<open>sti\<close> and \<open>mov cr3\<close>, and \<open>interrupts::without_interrupts\<close>.\<close>

definition disable :: "('h, 'd) kernel \<Rightarrow> ('h, 'd) kernel" where
  "disable k = k\<lparr>interrupts_enabled := False\<rparr>"

definition restore_interrupts :: "bool \<Rightarrow> ('h, 'd) kernel \<Rightarrow> ('h, 'd) kernel" where
  "restore_interrupts were_enabled k = (if were_enabled then k\<lparr>interrupts_enabled := True\<rparr> else k)"

definition without_interrupts ::
  "(('h, 'd) kernel \<Rightarrow> ('r \<times> ('h, 'd) kernel) result) \<Rightarrow> ('h, 'd) kernel \<Rightarrow> ('r \<times> ('h, 'd) kernel) result" where
  "without_interrupts body k =
     bind_result (body (disable k)) (\<lambda>(r, k'). Inr (r, restore_interrupts (interrupts_enabled k) k'))"

definition cr3_write :: "phys_frame \<Rightarrow> ('h, 'd) kernel \<Rightarrow> ('h, 'd) kernel" where
  "cr3_write l4 k = k\<lparr>cpu_regs := (cpu_regs k)\<lparr>cr3 := l4\<rparr>\<rparr>"

section \<open>Start and queries\<close>

definition boot_thread :: thread where
  "boot_thread = \<lparr>stack_pointer = 0, stack_base = 0, stack_size = 0, entry = None, page_table = None,
     kernel_stack_top = 0, open_files = replicate MAX_OPEN_FILES None, user_entry = None,
     interrupts_were_enabled = None\<rparr>"

definition init :: "('h, 'd) kernel \<Rightarrow> (unit \<times> ('h, 'd) kernel) result" where
  "init k =
     (let ts = map (\<lambda>i. if i = 0 then Some boot_thread else None) [0..<MAX_THREADS];
          generations = (replicate MAX_THREADS 0)[0 := 1]
      in without_interrupts (\<lambda>k.
           let l4 = cr3 (cpu_regs k) in
           Inr ((), k\<lparr>scheduler := Some \<lparr>threads = ts, ready_queue = ReadyQueue_new, current = 0,
             kernel_page_table = l4, zombie = None,
             slot_generations = generations\<rparr>\<rparr>)) k)"

definition kernel_page_table_of :: "('h, 'd) kernel \<Rightarrow> (phys_frame \<times> ('h, 'd) kernel) result" where
  "kernel_page_table_of =
     without_interrupts (\<lambda>k.
       bind_result (expect ''scheduler not initialized'' (scheduler k)) (\<lambda>state.
       Inr (kernel_page_table state, k)))"

definition set_thread :: "nat \<Rightarrow> thread option \<Rightarrow> scheduler_state \<Rightarrow> scheduler_state" where
  "set_thread i t state = state\<lparr>threads := (threads state)[i := t]\<rparr>"

definition thread_at :: "string \<Rightarrow> scheduler_state \<Rightarrow> nat \<Rightarrow> thread result" where
  "thread_at msg state i = bind_result (index_at (threads state) i) (expect msg)"

definition with_current_thread ::
  "(thread \<Rightarrow> ('r \<times> thread) result) \<Rightarrow> ('h, 'd) kernel \<Rightarrow> ('r \<times> ('h, 'd) kernel) result" where
  "with_current_thread f =
     without_interrupts (\<lambda>k.
       let caller_page_table = cr3 (cpu_regs k) in
       bind_result (expect ''scheduler not initialized'' (scheduler k)) (\<lambda>state.
       let needs_switch = caller_page_table \<noteq> kernel_page_table state;
           k = (if needs_switch then cr3_write (kernel_page_table state) k else k) in
       bind_result (thread_at ''current thread missing from thread table'' state (current state)) (\<lambda>thread.
       bind_result (f thread) (\<lambda>(result, thread).
       let k = k\<lparr>scheduler := Some (set_thread (current state) (Some thread) state)\<rparr>;
           k = (if needs_switch then cr3_write caller_page_table k else k)
       in Inr (result, k)))))"

definition open_file :: "u8 list \<Rightarrow> ('h, 'd) kernel \<Rightarrow> (u64 option \<times> ('h, 'd) kernel) result" where
  "open_file bytes = with_current_thread (open_file_in bytes)"

definition read_open_file ::
  "u64 \<Rightarrow> u8 list \<Rightarrow> ('h, 'd) kernel \<Rightarrow> ((nat option \<times> u8 list) \<times> ('h, 'd) kernel) result" where
  "read_open_file fd buf = with_current_thread (read_open_file_in fd buf)"

definition close_file :: "u64 \<Rightarrow> ('h, 'd) kernel \<Rightarrow> (bool \<times> ('h, 'd) kernel) result" where
  "close_file fd = with_current_thread (close_file_in fd)"

definition thread_alive :: "u64 \<Rightarrow> ('h, 'd) kernel \<Rightarrow> (bool \<times> ('h, 'd) kernel) result" where
  "thread_alive pid k =
     (let (slot, generation) = unpack_pid pid in
      without_interrupts (\<lambda>k.
        bind_result (expect ''scheduler not initialized'' (scheduler k)) (\<lambda>state.
        if \<not> slot < MAX_THREADS then Inr (False, k)
        else bind_result (index_at (threads state) slot) (\<lambda>thread.
          if thread = None then Inr (False, k)
          else bind_result (index_at (slot_generations state) slot) (\<lambda>g. Inr (g = generation, k))))) k)"

section \<open>Spawning\<close>

text \<open>The allocation of a stack that both ways of spawning begin with.\<close>

definition alloc_stack :: "('h, 'd) platform \<Rightarrow> ('h, 'd) kernel \<Rightarrow> ((u64 \<times> u64) \<times> ('h, 'd) kernel) result" where
  "alloc_stack p k =
     (let (base, h) = heap_alloc p STACK_SIZE 4096 (heap k);
          k = k\<lparr>heap := h\<rparr> in
      if base = 0 then panic ''kernel thread stack allocation failed''
      else bind_result (build_initial_stack (thread_trampoline_addr p) base (stack_mem (cpu_regs k)))
        (\<lambda>(sp, mem).
         Inr ((base, sp), k\<lparr>cpu_regs := (cpu_regs k)\<lparr>stack_mem := mem\<rparr>\<rparr>)))"

definition new_thread ::
  "u64 \<Rightarrow> u64 \<Rightarrow> u64 \<Rightarrow> phys_frame option \<Rightarrow> u64 \<Rightarrow> (virt_addr \<times> virt_addr \<times> virt_addr \<times> u64) option \<Rightarrow> thread" where
  "new_thread sp base start l4 kst user =
     \<lparr>stack_pointer = sp, stack_base = base, stack_size = STACK_SIZE,
      entry = Some start, page_table = l4, kernel_stack_top = kst,
      open_files = replicate MAX_OPEN_FILES None, user_entry = user,
      interrupts_were_enabled = None\<rparr>"

text \<open>The entry of a new thread into the table and the rotation, which ends both.\<close>

definition add_thread ::
  "u64 \<Rightarrow> u64 \<Rightarrow> u64 \<Rightarrow> phys_frame option \<Rightarrow> (virt_addr \<times> virt_addr \<times> virt_addr \<times> u64) option
   \<Rightarrow> scheduler_state \<Rightarrow> ((nat \<times> u64) \<times> scheduler_state) result" where
  "add_thread base sp start l4 user state =
     bind_result (expect ''thread table full (MAX_THREADS exceeded)''
        (position (\<lambda>t. t = None) (threads state))) (\<lambda>i.
     bind_result (index_at (slot_generations state) i) (\<lambda>g.
     bind_result (add_ovf g 1) (\<lambda>generation.
     let state = state\<lparr>slot_generations := (slot_generations state)[i := generation]\<rparr> in
     bind_result (add_ovf base STACK_SIZE) (\<lambda>top.
     let t = new_thread sp base start l4 top user;
         state = set_thread i (Some t) state in
     bind_result (push_back i (ready_queue state)) (\<lambda>q.
     Inr ((i, generation), state\<lparr>ready_queue := q\<rparr>))))))"

definition spawn :: "('h, 'd) platform \<Rightarrow> u64 \<Rightarrow> ('h, 'd) kernel \<Rightarrow> (unit \<times> ('h, 'd) kernel) result" where
  "spawn p start =
     without_interrupts (\<lambda>k.
       bind_result (alloc_stack p k) (\<lambda>((base, sp), k).
       bind_result (expect ''scheduler::init must be called before spawn'' (scheduler k)) (\<lambda>state.
       bind_result (add_thread base sp start None None state) (\<lambda>(_, state).
       Inr ((), k\<lparr>scheduler := Some state\<rparr>)))))"

definition share_stack_page ::
  "('h, 'd) platform \<Rightarrow> phys_frame \<Rightarrow> phys_frame \<Rightarrow> virt_addr \<Rightarrow> nat
   \<Rightarrow> pmem \<times> frame_allocator option \<Rightarrow> (pmem \<times> frame_allocator option) result" where
  "share_stack_page p kernel_mapper isolated_mapper first_page i m =
     bind_result (page_add (x86 p) first_page (of_nat i)) (\<lambda>page.
     bind_result (expect ''thread stack page vanished right after being allocated''
        (translate_page p (fst m) kernel_mapper page)) (\<lambda>frame.
     bind_result (map_to p isolated_mapper page frame (PRESENT OR WRITABLE) m) (\<lambda>(err, m).
     if err \<noteq> None then panic ''failed to share a thread stack page into its isolated address space''
     else Inr m)))"

definition spawn_isolated_inner ::
  "('h, 'd) platform \<Rightarrow> u64 \<Rightarrow> (virt_addr \<times> virt_addr \<times> virt_addr \<times> u64) option \<Rightarrow> phys_frame
   \<Rightarrow> phys_frame \<Rightarrow> phys_frame \<Rightarrow> ('h, 'd) kernel \<Rightarrow> (u64 \<times> ('h, 'd) kernel) result" where
  "spawn_isolated_inner p start user l4 kernel_mapper isolated_mapper =
     without_interrupts (\<lambda>k.
       bind_result (alloc_stack p k) (\<lambda>((base, sp), k).
       bind_result (virt_new (x86 p) base) (\<lambda>stack_start.
       let first_page = page_containing (x86 p) stack_start;
           page_count = unat STACK_SIZE div 4096 in
       bind_result (for_each [0..<page_count]
           (share_stack_page p kernel_mapper isolated_mapper first_page) (memory k, frames k)) (\<lambda>(pm, fs).
       let k = k\<lparr>memory := pm, frames := fs\<rparr> in
       bind_result (expect ''scheduler::init must be called before spawn_isolated'' (scheduler k)) (\<lambda>state.
       bind_result (add_thread base sp start (Some l4) user state)
         (\<lambda>((i, generation), state).
       Inr (pack_pid i generation, k\<lparr>scheduler := Some state\<rparr>)))))))"

definition spawn_isolated ::
  "('h, 'd) platform \<Rightarrow> u64 \<Rightarrow> phys_frame \<Rightarrow> phys_frame \<Rightarrow> phys_frame \<Rightarrow> ('h, 'd) kernel
   \<Rightarrow> (u64 \<times> ('h, 'd) kernel) result" where
  "spawn_isolated p start l4 kernel_mapper isolated_mapper =
     spawn_isolated_inner p start None l4 kernel_mapper isolated_mapper"

definition spawn_user ::
  "('h, 'd) platform \<Rightarrow> virt_addr \<Rightarrow> virt_addr \<Rightarrow> virt_addr \<Rightarrow> u64 \<Rightarrow> phys_frame \<Rightarrow> phys_frame \<Rightarrow> phys_frame
   \<Rightarrow> ('h, 'd) kernel \<Rightarrow> (u64 \<times> ('h, 'd) kernel) result" where
  "spawn_user p user user_stack_top args_ptr args_len l4 kernel_mapper isolated_mapper =
     spawn_isolated_inner p (ring3_trampoline_addr p) (Some (user, user_stack_top, args_ptr, args_len))
       l4 kernel_mapper isolated_mapper"

section \<open>Where threads start\<close>

text \<open>
  Both trampolines end in a jump: \<open>thread_trampoline\<close> to the entry it returns here,
  \<open>ring3_trampoline\<close> to \<open>enter_ring3\<close> with the four values it returns.
\<close>

definition thread_trampoline :: "('h, 'd) kernel \<Rightarrow> (u64 \<times> ('h, 'd) kernel) result" where
  "thread_trampoline k =
     bind_result (without_interrupts (\<lambda>k.
       bind_result (expect ''scheduler not initialized'' (scheduler k)) (\<lambda>state.
       bind_result (index_at (threads state) (current state)) (\<lambda>thread.
       case thread of
         None \<Rightarrow> panic ''thread_trampoline entered for a thread with no entry point''
       | Some t \<Rightarrow>
           bind_result (expect ''thread_trampoline entered for a thread with no entry point'' (entry t)) (\<lambda>e.
           Inr (e, k\<lparr>scheduler := Some (set_thread (current state) (Some (t\<lparr>entry := None\<rparr>)) state)\<rparr>))))) k)
     (\<lambda>(e, k). Inr (e, k\<lparr>interrupts_enabled := True\<rparr>))"

definition ring3_trampoline ::
  "('h, 'd) kernel \<Rightarrow> ((virt_addr \<times> virt_addr \<times> virt_addr \<times> u64) \<times> ('h, 'd) kernel) result" where
  "ring3_trampoline =
     without_interrupts (\<lambda>k.
       bind_result (expect ''scheduler not initialized'' (scheduler k)) (\<lambda>state.
       bind_result (index_at (threads state) (current state)) (\<lambda>thread.
       case thread of
         None \<Rightarrow> panic ''ring3_trampoline entered for a thread with no user entry point''
       | Some t \<Rightarrow>
           bind_result (expect ''ring3_trampoline entered for a thread with no user entry point'' (user_entry t)) (\<lambda>e.
           Inr (e, k\<lparr>scheduler := Some (set_thread (current state) (Some (t\<lparr>user_entry := None\<rparr>)) state)\<rparr>)))))"

section \<open>Reaping\<close>

text \<open>
  \<open>Layout::from_size_align(size, align).unwrap()\<close>: the size rounded up to the alignment must
  not exceed \<open>isize::MAX\<close>.
\<close>

definition layout_from_size_align :: "u64 \<Rightarrow> u64 \<Rightarrow> unit result" where
  "layout_from_size_align sz align =
     (if unat sz + (unat align - 1) < 2 ^ 63 then Inr () else panic ''LayoutError'')"

definition take_zombie :: "scheduler_state \<Rightarrow> ((thread \<times> phys_frame) option \<times> scheduler_state) result" where
  "take_zombie state =
     (case zombie state of
        None \<Rightarrow> Inr (None, state)
      | Some zombie_id \<Rightarrow>
          (let state = state\<lparr>zombie := None\<rparr> in
           bind_result (index_at (threads state) zombie_id) (\<lambda>t.
           case t of
             None \<Rightarrow> Inr (None, state)
           | Some dead \<Rightarrow> Inr (Some (dead, kernel_page_table state), set_thread zombie_id None state))))"

definition free_thread :: "('h, 'd) platform \<Rightarrow> thread \<Rightarrow> ('h, 'd) kernel \<Rightarrow> ('h, 'd) kernel result" where
  "free_thread p thread k =
     bind_result (add_ovf (stack_base thread) (stack_size thread)) (\<lambda>stack_end.
     let stack_range = (stack_base thread, stack_end) in
     bind_result (layout_from_size_align (stack_size thread) 4096) (\<lambda>_.
     let k = k\<lparr>heap := heap_dealloc p (stack_base thread) (stack_size thread) 4096 (heap k)\<rparr> in
     case page_table thread of
       None \<Rightarrow> Inr k
     | Some l4_frame \<Rightarrow>
         bind_result (expect ''memory::set_physical_memory_offset was never called'' (physical_memory_offset k)) (\<lambda>offset.
         bind_result (free_address_space (x86 p) (memory k) global_deallocate_frame l4_frame offset stack_range (frames k))
           (\<lambda>fs. Inr (k\<lparr>frames := fs\<rparr>)))))"

text \<open>The critical section at the start of \<open>reap_zombie\<close>, and all of it.\<close>

definition reap_take :: "('h, 'd) kernel \<Rightarrow> ((thread \<times> phys_frame) option \<times> ('h, 'd) kernel) result" where
  "reap_take =
     without_interrupts (\<lambda>k.
       bind_result (expect ''scheduler not initialized'' (scheduler k)) (\<lambda>state.
       bind_result (take_zombie state) (\<lambda>(reaped, state).
       Inr (reaped, k\<lparr>scheduler := Some state\<rparr>))))"

definition reap_zombie :: "('h, 'd) platform \<Rightarrow> ('h, 'd) kernel \<Rightarrow> ('h, 'd) kernel result" where
  "reap_zombie p k =
     bind_result (reap_take k) (\<lambda>(reaped, k).
     case reaped of
       None \<Rightarrow> Inr k
     | Some (t, l4) \<Rightarrow> free_thread p t (cr3_write l4 k))"

section \<open>Switching\<close>

text \<open>
  The common end of \<open>schedule\<close> and \<open>exit_current_thread\<close>: look up both threads, set RSP0 and
  switch. \<open>were_enabled\<close> is what the suspended call has in its local variable. After the switch
  the next thread runs: when it is suspended in a call of \<open>schedule\<close>, it finishes that call,
  restoring interrupts to what it had; a fresh thread is at \<open>thread_trampoline\<close>.
\<close>

definition switch_threads ::
  "('h, 'd) platform \<Rightarrow> u64 \<Rightarrow> bool option \<Rightarrow> nat \<Rightarrow> nat \<Rightarrow> scheduler_state \<Rightarrow> ('h, 'd) kernel
   \<Rightarrow> ('h, 'd) kernel result" where
  "switch_threads p return_addr were_enabled previous nxt state k =
     bind_result (thread_at ''current thread missing from thread table'' state previous) (\<lambda>previous_thread.
     bind_result (thread_at ''next thread missing from thread table'' state nxt) (\<lambda>next_thread.
     let new_stack = stack_pointer next_thread;
         new_page_table = (case page_table next_thread of None \<Rightarrow> kernel_page_table state | Some l4 \<Rightarrow> l4) in
     bind_result (virt_new (x86 p) (kernel_stack_top next_thread)) (\<lambda>new_rsp0.
     let (sp, c) = call_switch_to return_addr new_stack new_page_table (cpu_regs k);
         state = set_thread previous (Some (previous_thread\<lparr>stack_pointer := sp,
           interrupts_were_enabled := were_enabled\<rparr>)) state;
         k = k\<lparr>scheduler := Some state, cpu_regs := c, rsp0 := new_rsp0\<rparr>
     in Inr (restore_interrupts (interrupts_were_enabled next_thread = Some True) k))))"

definition schedule_switch :: "('h, 'd) platform \<Rightarrow> ('h, 'd) kernel \<Rightarrow> ('h, 'd) kernel result" where
  "schedule_switch p k =
     (let were_enabled = interrupts_enabled k;
          k = disable k in
      case scheduler k of
        None \<Rightarrow> Inr (restore_interrupts were_enabled k)
      | Some state \<Rightarrow>
          bind_result (pop_front (ready_queue state)) (\<lambda>(popped, q).
          case popped of
            None \<Rightarrow> Inr (restore_interrupts were_enabled (k\<lparr>scheduler := Some (state\<lparr>ready_queue := q\<rparr>)\<rparr>))
          | Some nxt \<Rightarrow>
              (let previous = current state in
               bind_result (push_back previous q) (\<lambda>q.
               switch_threads p (schedule_return_addr p) (Some were_enabled) previous nxt
                 (state\<lparr>ready_queue := q, current := nxt\<rparr>) k))))"

definition schedule :: "('h, 'd) platform \<Rightarrow> ('h, 'd) kernel \<Rightarrow> ('h, 'd) kernel result" where
  "schedule p k = bind_result (reap_zombie p k) (schedule_switch p)"

definition tick :: "('h, 'd) platform \<Rightarrow> ('h, 'd) kernel \<Rightarrow> ('h, 'd) kernel result" where
  "tick p = schedule p"

definition yield_now :: "('h, 'd) platform \<Rightarrow> ('h, 'd) kernel \<Rightarrow> ('h, 'd) kernel result" where
  "yield_now p = schedule p"

definition exit_switch :: "('h, 'd) platform \<Rightarrow> ('h, 'd) kernel \<Rightarrow> ('h, 'd) kernel result" where
  "exit_switch p k =
     (let k = disable k in
      bind_result (expect ''scheduler not initialized'' (scheduler k)) (\<lambda>state.
      let i = current state in
      if i = 0 then panic ''the boot thread can't exit''
      else bind_result (pop_front (ready_queue state)) (\<lambda>(popped, q).
      bind_result (expect ''exit_current_thread: no other thread left to run'' popped) (\<lambda>nxt.
      switch_threads p (exit_return_addr p) None i nxt
        (state\<lparr>ready_queue := q, current := nxt, zombie := Some i\<rparr>) k))))"

definition exit_current_thread :: "('h, 'd) platform \<Rightarrow> ('h, 'd) kernel \<Rightarrow> ('h, 'd) kernel result" where
  "exit_current_thread p k = bind_result (reap_zombie p k) (exit_switch p)"

definition kill_current_thread :: "('h, 'd) platform \<Rightarrow> string \<Rightarrow> ('h, 'd) kernel \<Rightarrow> ('h, 'd) kernel result" where
  "kill_current_thread p reason k =
     bind_result (println (''[proc]  thread killed: '' @ reason) (screen k)) (\<lambda>w.
     exit_current_thread p (k\<lparr>screen := w\<rparr>))"

end
