(* ===== verification/Elf.thy ===== *)
theory Elf
  imports Scheduler
begin

text \<open>
  The ELF loader (\<open>src/elf.rs\<close>): reads of the file header and the program headers, the mapping
  of a segment and the loader itself.

  A function that returns an \<open>Option\<close> and changes memory has a result and a state: \<open>try_opt\<close> is
  the operator \<open>?\<close>, which ends the function with \<open>None\<close> and keeps what was changed so far.
  Physical memory is written through the mapping of all of it at \<open>physical_memory_offset\<close>.
\<close>

type_synonym mem_state = "pmem \<times> frame_allocator option"

definition try_opt :: "'a option \<Rightarrow> 's \<Rightarrow> ('a \<Rightarrow> ('b option \<times> 's) result) \<Rightarrow> ('b option \<times> 's) result" where
  "try_opt x s f = (case x of None \<Rightarrow> Inr (None, s) | Some v \<Rightarrow> f v)"

definition try_call :: "('a option \<times> 's) result \<Rightarrow> ('a \<Rightarrow> 's \<Rightarrow> ('b option \<times> 's) result) \<Rightarrow> ('b option \<times> 's) result" where
  "try_call m f = bind_result m (\<lambda>(x, s). try_opt x s (\<lambda>v. f v s))"

lemma try_opt_simps [simp]: "try_opt None s f = Inr (None, s)" "try_opt (Some v) s f = f v"
  by (simp_all add: try_opt_def)

lemma try_call_simps [simp]:
  "try_call (Inl e) f = Inl e" "try_call (Inr (None, s)) f = Inr (None, s)" "try_call (Inr (Some v, s)) f = f v s"
  by (simp_all add: try_call_def)

section \<open>Constants and fields\<close>

definition EI_MAG :: "u8 list" where "EI_MAG = [0x7f, 0x45, 0x4C, 0x46]"
definition ELFCLASS64 :: u8 where "ELFCLASS64 = 2"
definition ELFDATA2LSB :: u8 where "ELFDATA2LSB = 1"
definition ET_EXEC :: u16 where "ET_EXEC = 2"
definition EM_X86_64 :: u16 where "EM_X86_64 = 0x3e"
definition PT_LOAD :: u32 where "PT_LOAD = 1"
definition PF_W :: u32 where "PF_W = 0x2"
definition PAGE_SIZE :: u64 where "PAGE_SIZE = 4096"
definition USER_STACK_SIZE :: u64 where "USER_STACK_SIZE = PAGE_SIZE"
definition ARGS_SIZE :: u64 where "ARGS_SIZE = PAGE_SIZE"

lemmas elf_consts = EI_MAG_def ELFCLASS64_def ELFDATA2LSB_def ET_EXEC_def EM_X86_64_def PT_LOAD_def PF_W_def
lemmas size_consts = PAGE_SIZE_def USER_STACK_SIZE_def ARGS_SIZE_def

record LoadedElf =
  elf_page_table :: phys_frame
  elf_entry :: virt_addr
  elf_stack_top :: virt_addr
  elf_args_ptr :: virt_addr
  elf_args_len :: u64

text \<open>\<open>bytes.get(start..end)\<close> of \<open>n\<close> bytes at \<open>base + offset\<close>, with the additions checked.\<close>

definition field :: "nat \<Rightarrow> u8 list \<Rightarrow> u64 \<Rightarrow> u64 \<Rightarrow> u8 list option" where
  "field n bytes base offset =
     Option.bind (checked_add base offset) (\<lambda>start.
     Option.bind (checked_add start (of_nat n)) (\<lambda>end.
     get_range bytes (unat start) (unat end)))"

definition read_u16 :: "u8 list \<Rightarrow> u64 \<Rightarrow> u64 \<Rightarrow> u16 option" where
  "read_u16 bytes base offset = map_option from_le_bytes (field 2 bytes base offset)"

definition read_u32 :: "u8 list \<Rightarrow> u64 \<Rightarrow> u64 \<Rightarrow> u32 option" where
  "read_u32 bytes base offset = map_option from_le_bytes (field 4 bytes base offset)"

definition read_u64 :: "u8 list \<Rightarrow> u64 \<Rightarrow> u64 \<Rightarrow> u64 option" where
  "read_u64 bytes base offset = map_option from_le_bytes (field 8 bytes base offset)"

definition align_up :: "u64 \<Rightarrow> u64 \<Rightarrow> u64 option result" where
  "align_up addr align =
     bind_result (sub_ovf align 1) (\<lambda>m. Inr (map_option (\<lambda>a. a AND NOT m) (checked_add addr m)))"

section \<open>Segments\<close>

text \<open>\<open>write_bytes\<close> with zeros over a frame, and \<open>copy_nonoverlapping\<close> to its start.\<close>

definition zero_frame :: "phys_frame \<Rightarrow> pmem \<Rightarrow> pmem" where
  "zero_frame frame pm = pm(frame := (\<lambda>i. if i < 4096 then 0 else pm frame i))"

definition copy_to_frame :: "phys_frame \<Rightarrow> u8 list \<Rightarrow> pmem \<Rightarrow> pmem" where
  "copy_to_frame frame bs pm = pm(frame := (\<lambda>i. if i < length bs then bs ! i else pm frame i))"

definition load_page ::
  "('h, 'd) platform \<Rightarrow> phys_frame \<Rightarrow> u8 list \<Rightarrow> u64 \<Rightarrow> virt_addr \<Rightarrow> nat \<Rightarrow> mem_state \<Rightarrow> mem_state result" where
  "load_page p mapper file_bytes flags start_page i m =
     bind_result (page_add (x86 p) start_page (of_nat i)) (\<lambda>page.
     bind_result (global_allocate_frame (x86 p) (snd m)) (\<lambda>(frame, fs).
     bind_result (expect ''no physical frames left to load ELF segment'' frame) (\<lambda>frame.
     bind_result (map_to p mapper page frame flags (fst m, fs)) (\<lambda>(err, pm, fs).
     if err \<noteq> None then panic ''failed to map ELF segment page''
     else let pm = zero_frame frame pm in
     bind_result (mul_ovf (of_nat i) PAGE_SIZE) (\<lambda>page_offset_in_segment.
     let off = unat page_offset_in_segment;
         pm = (if off < length file_bytes
               then copy_to_frame frame (take (min (length file_bytes - off) (unat PAGE_SIZE)) (drop off file_bytes)) pm
               else pm)
     in Inr (pm, fs))))))"

definition map_segment ::
  "('h, 'd) platform \<Rightarrow> phys_frame \<Rightarrow> u8 list \<Rightarrow> u64 \<Rightarrow> u64 \<Rightarrow> bool \<Rightarrow> mem_state \<Rightarrow> (unit option \<times> mem_state) result" where
  "map_segment p mapper file_bytes vaddr mem_size writable m =
     (if mem_size = 0 then Inr (Some (), m)
      else if vaddr mod PAGE_SIZE \<noteq> 0 \<or> 0x0000800000000000 \<le> vaddr then Inr (None, m)
      else
        let flags = (if writable then (PRESENT OR USER_ACCESSIBLE) OR WRITABLE else PRESENT OR USER_ACCESSIBLE) in
        try_opt (checked_add vaddr mem_size) m (\<lambda>segment_end.
        try_opt (checked_sub segment_end 1) m (\<lambda>last_byte.
        try_opt (virt_try_new (x86 p) vaddr) m (\<lambda>start_addr.
        try_opt (virt_try_new (x86 p) last_byte) m (\<lambda>end_addr.
        let start_page = page_containing (x86 p) start_addr;
            end_page = page_containing (x86 p) end_addr in
        bind_result (page_sub (x86 p) end_page start_page) (\<lambda>pages.
        bind_result (add_ovf pages 1) (\<lambda>page_count.
        bind_result (for_each [0..<unat page_count] (load_page p mapper file_bytes flags start_page) m) (\<lambda>m.
        Inr (Some (), m)))))))))"

section \<open>The loader\<close>

text \<open>The body of the loop over the program headers; the first component is \<open>highest_mapped\<close>.\<close>

definition load_segment ::
  "('h, 'd) platform \<Rightarrow> u8 list \<Rightarrow> phys_frame \<Rightarrow> u64 \<Rightarrow> u64 \<Rightarrow> nat \<Rightarrow> u64 \<Rightarrow> mem_state \<Rightarrow> (u64 option \<times> mem_state) result" where
  "load_segment p bytes mapper phoff phentsize i highest_mapped m =
     try_opt (checked_mul (of_nat i) phentsize) m (\<lambda>d.
     try_opt (checked_add phoff d) m (\<lambda>ph.
     try_opt (read_u32 bytes ph 0) m (\<lambda>p_type.
     if p_type \<noteq> PT_LOAD then Inr (Some highest_mapped, m)
     else
     try_opt (read_u32 bytes ph 4) m (\<lambda>p_flags.
     try_opt (read_u64 bytes ph 8) m (\<lambda>p_offset.
     try_opt (read_u64 bytes ph 16) m (\<lambda>p_vaddr.
     try_opt (read_u64 bytes ph 32) m (\<lambda>p_filesz.
     try_opt (read_u64 bytes ph 40) m (\<lambda>p_memsz.
     let writable = (p_flags AND PF_W \<noteq> 0) in
     try_opt (checked_add p_offset p_filesz) m (\<lambda>file_end.
     try_opt (get_range bytes (unat p_offset) (unat file_end)) m (\<lambda>file_bytes.
     try_call (map_segment p mapper file_bytes p_vaddr p_memsz writable m) (\<lambda>_ m.
     try_opt (checked_add p_vaddr p_memsz) m (\<lambda>segment_end.
     Inr (Some (max highest_mapped segment_end), m)))))))))))))"

fun load_headers ::
  "('h, 'd) platform \<Rightarrow> u8 list \<Rightarrow> phys_frame \<Rightarrow> u64 \<Rightarrow> u64 \<Rightarrow> nat list \<Rightarrow> u64 \<Rightarrow> mem_state \<Rightarrow> (u64 option \<times> mem_state) result" where
  "load_headers p bytes mapper phoff phentsize [] highest_mapped m = Inr (Some highest_mapped, m)"
| "load_headers p bytes mapper phoff phentsize (i # is) highest_mapped m =
     try_call (load_segment p bytes mapper phoff phentsize i highest_mapped m)
       (load_headers p bytes mapper phoff phentsize is)"

definition load_segments_and_stack ::
  "('h, 'd) platform \<Rightarrow> u8 list \<Rightarrow> phys_frame \<Rightarrow> u8 list \<Rightarrow> mem_state
   \<Rightarrow> ((virt_addr \<times> virt_addr \<times> virt_addr \<times> u64) option \<times> mem_state) result" where
  "load_segments_and_stack p bytes mapper args m =
     try_opt (read_u64 bytes 0 24) m (\<lambda>start.
     try_opt (read_u64 bytes 0 32) m (\<lambda>phoff.
     try_opt (read_u16 bytes 0 54) m (\<lambda>phentsize.
     try_opt (read_u16 bytes 0 56) m (\<lambda>phnum.
     try_call (load_headers p bytes mapper phoff (ucast phentsize) [0..<unat phnum] 0 m) (\<lambda>highest_mapped m.
     bind_result (align_up highest_mapped PAGE_SIZE) (\<lambda>aligned.
     try_opt aligned m (\<lambda>aligned.
     try_opt (checked_add aligned PAGE_SIZE) m (\<lambda>stack_bottom.
     try_call (map_segment p mapper [] stack_bottom USER_STACK_SIZE True m) (\<lambda>_ m.
     try_opt (checked_add stack_bottom USER_STACK_SIZE) m (\<lambda>stack_end.
     try_opt (checked_sub stack_end 16) m (\<lambda>sp.
     try_opt (virt_try_new (x86 p) sp) m (\<lambda>stack_top.
     try_opt (virt_try_new (x86 p) start) m (\<lambda>start.
     try_opt (checked_add stack_bottom USER_STACK_SIZE) m (\<lambda>args_bottom.
     try_call (map_segment p mapper args args_bottom ARGS_SIZE False m) (\<lambda>_ m.
     try_opt (virt_try_new (x86 p) args_bottom) m (\<lambda>args_ptr.
     Inr (Some (start, stack_top, args_ptr, of_nat (length args)), m)))))))))))))))))"

text \<open>The checks of the file header, which come before any allocation.\<close>

definition header_ok :: "u8 list \<Rightarrow> bool" where
  "header_ok bytes \<longleftrightarrow> 64 \<le> length bytes
     \<and> take 4 bytes = EI_MAG \<and> bytes ! 4 = ELFCLASS64 \<and> bytes ! 5 = ELFDATA2LSB
     \<and> read_u16 bytes 0 16 = Some ET_EXEC \<and> read_u16 bytes 0 18 = Some EM_X86_64"

definition load ::
  "('h, 'd) platform \<Rightarrow> u8 list \<Rightarrow> virt_addr \<Rightarrow> u8 list \<Rightarrow> phys_frame \<Rightarrow> mem_state
   \<Rightarrow> ((phys_frame \<times> LoadedElf) option \<times> mem_state) result" where
  "load p bytes offset args active_l4 m =
     (if \<not> header_ok bytes then Inr (None, m)
      else
        bind_result (new_address_space (x86 p) (global_allocate_frame (x86 p)) offset active_l4 (fst m) (snd m))
          (\<lambda>(l4_frame, m).
        bind_result (load_segments_and_stack p bytes l4_frame args m) (\<lambda>(loaded, m).
        case loaded of
          Some (start, stack_top, args_ptr, args_len) \<Rightarrow>
            Inr (Some (l4_frame, \<lparr>elf_page_table = l4_frame, elf_entry = start, elf_stack_top = stack_top,
              elf_args_ptr = args_ptr, elf_args_len = args_len\<rparr>), m)
        | None \<Rightarrow>
            bind_result (free_address_space (x86 p) (fst m) global_deallocate_frame l4_frame offset (0, 0) (snd m))
              (\<lambda>fs. Inr (None, fst m, fs)))))"

end
