(* ===== verification/Fs.thy ===== *)
theory Fs
  imports Ata
begin

text \<open>
  The read-only FAT16 driver, \<open>src/fs.rs\<close>: the boot sector's parameter block, the scan of the
  root directory, and the walk along a file's cluster chain. Each function that touches the disk
  takes the sector reader \<open>rd\<close> and threads the device's state; the kernel's reader is
  \<open>fs_read_sector\<close>, the ATA driver on the secondary drive. The locale \<open>sector_device\<close>
  is what the file system relies on, and it is interpreted on that driver.

  Sector numbers are 32-bit words with the overflow checks of the source. A file name is the
  list of the bytes of the Rust string.
\<close>

section \<open>The parameter block\<close>

definition FS_DRIVE :: drive where "FS_DRIVE = Secondary"
definition DIR_ENTRY_SIZE :: nat where "DIR_ENTRY_SIZE = 32"
definition DIR_ENTRY_FREE :: u8 where "DIR_ENTRY_FREE = 0xE5"
definition DIR_ENTRY_END :: u8 where "DIR_ENTRY_END = 0x00"
definition ATTR_LONG_NAME :: u8 where "ATTR_LONG_NAME = 0x0F"
definition ATTR_VOLUME_ID :: u8 where "ATTR_VOLUME_ID = 0x08"
definition ATTR_DIRECTORY :: u8 where "ATTR_DIRECTORY = 0x10"

lemmas fs_consts = DIR_ENTRY_SIZE_def DIR_ENTRY_FREE_def DIR_ENTRY_END_def ATTR_LONG_NAME_def
  ATTR_VOLUME_ID_def ATTR_DIRECTORY_def SECTOR_SIZE_def

definition fs_read_u16 :: "u8 list \<Rightarrow> nat \<Rightarrow> u16 result" where
  "fs_read_u16 bytes offset =
     bind_result (expect ''range end index out of range'' (get_range bytes offset (offset + 2)))
       (\<lambda>bs. Inr (from_le_bytes bs))"

definition fs_read_u32 :: "u8 list \<Rightarrow> nat \<Rightarrow> u32 result" where
  "fs_read_u32 bytes offset =
     bind_result (expect ''range end index out of range'' (get_range bytes offset (offset + 4)))
       (\<lambda>bs. Inr (from_le_bytes bs))"

record bpb =
  reserved_sector_count :: u16
  num_fats :: u8
  root_entry_count :: u16
  fat_size_sectors :: u16
  sectors_per_cluster :: u8

definition bpb_parse :: "u8 list \<Rightarrow> bpb option result" where
  "bpb_parse boot_sector =
     bind_result (fs_read_u16 boot_sector 0x0B) (\<lambda>bytes_per_sector.
     if unat bytes_per_sector \<noteq> SECTOR_SIZE then Inr None
     else
       bind_result (fs_read_u16 boot_sector 0x0E) (\<lambda>reserved.
       bind_result (fs_read_u16 boot_sector 0x11) (\<lambda>root_entries.
       bind_result (fs_read_u16 boot_sector 0x16) (\<lambda>fat_size.
       Inr (Some \<lparr>reserved_sector_count = reserved, num_fats = boot_sector ! 0x10,
                  root_entry_count = root_entries, fat_size_sectors = fat_size,
                  sectors_per_cluster = boot_sector ! 0x0D\<rparr>)))))"

definition first_fat_sector :: "bpb \<Rightarrow> u32" where
  "first_fat_sector b = ucast (reserved_sector_count b)"

definition div_ceil :: "u32 \<Rightarrow> u32 \<Rightarrow> u32" where
  "div_ceil a b = (if 0 < a mod b then a div b + 1 else a div b)"

definition root_dir_sector_count :: "bpb \<Rightarrow> u32 result" where
  "root_dir_sector_count b =
     bind_result (mul_ovf (ucast (root_entry_count b)) (of_nat DIR_ENTRY_SIZE)) (\<lambda>root_dir_bytes.
     Inr (div_ceil root_dir_bytes (of_nat SECTOR_SIZE)))"

definition first_root_dir_sector :: "bpb \<Rightarrow> u32 result" where
  "first_root_dir_sector b =
     bind_result (mul_ovf (ucast (num_fats b)) (ucast (fat_size_sectors b))) (\<lambda>fats.
     add_ovf (first_fat_sector b) fats)"

definition first_data_sector :: "bpb \<Rightarrow> u32 result" where
  "first_data_sector b =
     bind_result (first_root_dir_sector b) (\<lambda>root.
     bind_result (root_dir_sector_count b) (\<lambda>count.
     add_ovf root count))"

definition cluster_to_lba :: "bpb \<Rightarrow> u16 \<Rightarrow> u32 result" where
  "cluster_to_lba b cluster =
     bind_result (first_data_sector b) (\<lambda>data.
     bind_result (sub_ovf (ucast cluster) 2) (\<lambda>index.
     bind_result (mul_ovf index (ucast (sectors_per_cluster b))) (\<lambda>offset.
     add_ovf data offset)))"

definition fs_read_sector :: "'d port_io \<Rightarrow> u32 \<Rightarrow> 'd \<Rightarrow> (u8 list \<times> 'd) result" where
  "fs_read_sector io lba d = read_sector io FS_DRIVE lba d"

section \<open>Names\<close>

fun split_once :: "u8 \<Rightarrow> u8 list \<Rightarrow> (u8 list \<times> u8 list) option" where
  "split_once c [] = None"
| "split_once c (x # xs) =
     (if x = c then Some ([], xs)
      else map_option (\<lambda>(base, ext). (x # base, ext)) (split_once c xs))"

definition to_ascii_uppercase :: "u8 \<Rightarrow> u8" where
  "to_ascii_uppercase b = (if 0x61 \<le> b \<and> b \<le> 0x7A then b - 0x20 else b)"

definition to_fat_83 :: "u8 list \<Rightarrow> u8 list option" where
  "to_fat_83 name =
     (let (base, ext) = (case split_once 0x2E name of Some (base, ext) \<Rightarrow> (base, ext) | None \<Rightarrow> (name, []))
      in if base = [] \<or> 8 < length base \<or> 3 < length ext then None
         else let fat_name = replicate 11 0x20;
                  fat_name = overwrite fat_name 0 (map to_ascii_uppercase base);
                  fat_name = overwrite fat_name 8 (map to_ascii_uppercase ext)
              in Some fat_name)"

section \<open>The root directory\<close>

record dir_entry =
  first_cluster :: u16
  file_size :: u32

definition chunks_exact :: "nat \<Rightarrow> 'a list \<Rightarrow> 'a list list" where
  "chunks_exact n xs = map (\<lambda>i. take n (drop (n * i) xs)) [0..<length xs div n]"

text \<open>The body of the scan of one sector: an entry is found, the directory ends, or neither.\<close>

datatype dir_scan = Found dir_entry | End_of_directory | Not_here

fun scan_entries :: "u8 list \<Rightarrow> u8 list list \<Rightarrow> dir_scan result" where
  "scan_entries name [] = Inr Not_here"
| "scan_entries name (entry # entries) =
     (if entry ! 0 = DIR_ENTRY_END then Inr End_of_directory
      else if entry ! 0 = DIR_ENTRY_FREE then scan_entries name entries
      else let attributes = entry ! 0x0B in
      if attributes = ATTR_LONG_NAME \<or> attributes AND ATTR_VOLUME_ID \<noteq> 0 then scan_entries name entries
      else if attributes AND ATTR_DIRECTORY \<noteq> 0 then scan_entries name entries
      else if take 11 entry = name
      then bind_result (fs_read_u16 entry 0x1A) (\<lambda>cluster.
           bind_result (fs_read_u32 entry 0x1C) (\<lambda>size.
           Inr (Found \<lparr>first_cluster = cluster, file_size = size\<rparr>)))
      else scan_entries name entries)"

fun scan_sectors ::
  "(u32 \<Rightarrow> 'd \<Rightarrow> (u8 list \<times> 'd) result) \<Rightarrow> u8 list \<Rightarrow> u32 \<Rightarrow> u32 list \<Rightarrow> 'd \<Rightarrow> (dir_entry option \<times> 'd) result" where
  "scan_sectors rd name first_sector [] d = Inr (None, d)"
| "scan_sectors rd name first_sector (i # is) d =
     bind_result (add_ovf first_sector i) (\<lambda>lba.
     bind_result (rd lba d) (\<lambda>(sector, d).
     bind_result (scan_entries name (chunks_exact DIR_ENTRY_SIZE sector)) (\<lambda>r.
       case r of
         Found entry \<Rightarrow> Inr (Some entry, d)
       | End_of_directory \<Rightarrow> Inr (None, d)
       | Not_here \<Rightarrow> scan_sectors rd name first_sector is d)))"

definition find_in_root_dir ::
  "(u32 \<Rightarrow> 'd \<Rightarrow> (u8 list \<times> 'd) result) \<Rightarrow> bpb \<Rightarrow> u8 list \<Rightarrow> 'd \<Rightarrow> (dir_entry option \<times> 'd) result" where
  "find_in_root_dir rd b name d =
     bind_result (first_root_dir_sector b) (\<lambda>first_sector.
     bind_result (root_dir_sector_count b) (\<lambda>sector_count.
     scan_sectors rd name first_sector (map of_nat [0..<unat sector_count]) d))"

section \<open>Cluster chains\<close>

definition next_cluster ::
  "(u32 \<Rightarrow> 'd \<Rightarrow> (u8 list \<times> 'd) result) \<Rightarrow> bpb \<Rightarrow> u16 \<Rightarrow> 'd \<Rightarrow> (u16 option \<times> 'd) result" where
  "next_cluster rd b cluster d =
     bind_result (mul_ovf (ucast cluster) 2) (\<lambda>fat_byte_offset.
     bind_result (add_ovf (first_fat_sector b) (fat_byte_offset div of_nat SECTOR_SIZE)) (\<lambda>sector.
     let offset_in_sector = unat (fat_byte_offset mod of_nat SECTOR_SIZE) in
     bind_result (rd sector d) (\<lambda>(fat_sector, d).
     bind_result (fs_read_u16 fat_sector offset_in_sector) (\<lambda>entry.
     Inr (if 0xFFF8 \<le> entry \<or> entry = 0xFFF7 then None else Some entry, d)))))"

text \<open>The sectors of one cluster: whether the file is complete, and the data read so far.\<close>

fun read_cluster ::
  "(u32 \<Rightarrow> 'd \<Rightarrow> (u8 list \<times> 'd) result) \<Rightarrow> nat \<Rightarrow> u32 \<Rightarrow> u32 list \<Rightarrow> u8 list \<Rightarrow> 'd
   \<Rightarrow> (bool \<times> u8 list \<times> 'd) result" where
  "read_cluster rd file_len first_lba [] data d = Inr (False, data, d)"
| "read_cluster rd file_len first_lba (i # is) data d =
     bind_result (add_ovf first_lba i) (\<lambda>lba.
     bind_result (rd lba d) (\<lambda>(sector, d).
     if file_len < length data then panic ''attempt to subtract with overflow''
     else
       let remaining = file_len - length data;
           count = min remaining SECTOR_SIZE;
           data = data @ take count sector
       in if file_len \<le> length data then Inr (True, data, d)
          else read_cluster rd file_len first_lba is data d))"

partial_function (option) read_chain ::
  "(u32 \<Rightarrow> 'd \<Rightarrow> (u8 list \<times> 'd) result) \<Rightarrow> bpb \<Rightarrow> nat \<Rightarrow> u16 \<Rightarrow> u8 list \<Rightarrow> 'd
   \<Rightarrow> (u8 list \<times> 'd) result option" where
  "read_chain rd b file_len cluster data d =
     (case bind_result (cluster_to_lba b cluster) (\<lambda>first_lba.
             read_cluster rd file_len first_lba (map of_nat [0..<unat (sectors_per_cluster b)]) data d) of
        Inl e \<Rightarrow> Some (Inl e)
      | Inr (complete, data, d) \<Rightarrow>
          if complete then Some (Inr (data, d))
          else (case next_cluster rd b cluster d of
                  Inl e \<Rightarrow> Some (Inl e)
                | Inr (None, d) \<Rightarrow> Some (Inr (data, d))
                | Inr (Some next, d) \<Rightarrow> read_chain rd b file_len next data d))"

text \<open>
  \<open>Vec::with_capacity\<close>: nothing is allocated for an empty vector, and a request that the heap cannot
  serve panics. Whether the heap has room for a block of so many bytes is the argument \<open>room\<close>. The
  vector of a file never grows beyond this capacity.
\<close>

definition with_capacity :: "(nat \<Rightarrow> bool) \<Rightarrow> nat \<Rightarrow> u8 list result" where
  "with_capacity room n = (if n = 0 \<or> room n then Inr [] else panic ''memory allocation failed'')"

definition read_file ::
  "(u32 \<Rightarrow> 'd \<Rightarrow> (u8 list \<times> 'd) result) \<Rightarrow> (nat \<Rightarrow> bool) \<Rightarrow> u8 list \<Rightarrow> 'd \<Rightarrow> (u8 list option \<times> 'd) result option" where
  "read_file rd room name d =
     (case to_fat_83 name of
        None \<Rightarrow> Some (Inr (None, d))
      | Some fat_name \<Rightarrow>
          (case bind_result (rd 0 d) (\<lambda>(boot_sector, d).
                bind_result (bpb_parse boot_sector) (\<lambda>b.
                  case b of
                    None \<Rightarrow> Inr (None, d)
                  | Some b \<Rightarrow>
                      bind_result (find_in_root_dir rd b fat_name d) (\<lambda>(entry, d).
                      Inr (map_option (Pair b) entry, d)))) of
             Inl e \<Rightarrow> Some (Inl e)
           | Inr (None, d) \<Rightarrow> Some (Inr (None, d))
           | Inr (Some (b, entry), d) \<Rightarrow>
               (case with_capacity room (unat (file_size entry)) of
                  Inl e \<Rightarrow> Some (Inl e)
                | Inr data \<Rightarrow>
                    if file_size entry = 0 then Some (Inr (Some data, d))
                    else map_option (\<lambda>r. bind_result r (\<lambda>(data, d). Inr (Some data, d)))
                           (read_chain rd b (unat (file_size entry)) (first_cluster entry) data d))))"

section \<open>Layout: no overflow, every sector below the LBA limit\<close>

lemma unat_u16_le: "unat (w :: u16) \<le> 65535"
  by (rule less_Suc_eq_le [THEN iffD1], rule less_le_trans [OF unsigned_less]) simp

lemma unat_u8_le: "unat (w :: u8) \<le> 255"
  by (rule less_Suc_eq_le [THEN iffD1], rule less_le_trans [OF unsigned_less]) simp

lemma unat_ucast_u16: "unat (ucast (w :: u16) :: u32) = unat w"
  unfolding unsigned_ucast_eq using unat_u16_le [of w] by (intro take_bit_nat_eq_self) simp

lemma unat_ucast_u8: "unat (ucast (w :: u8) :: u32) = unat w"
  unfolding unsigned_ucast_eq using unat_u8_le [of w] by (intro take_bit_nat_eq_self) simp

lemmas unat_fields = unat_ucast_u16 unat_ucast_u8

text \<open>The layout as natural numbers.\<close>

definition root_start :: "bpb \<Rightarrow> nat" where
  "root_start b = unat (reserved_sector_count b) + unat (num_fats b) * unat (fat_size_sectors b)"

definition root_sectors :: "bpb \<Rightarrow> nat" where
  "root_sectors b = (unat (root_entry_count b) * 32 + 511) div 512"

definition cluster_start :: "bpb \<Rightarrow> u16 \<Rightarrow> nat" where
  "cluster_start b c = root_start b + root_sectors b + (unat c - 2) * unat (sectors_per_cluster b)"

lemma fats_bound: "unat (num_fats b) * unat (fat_size_sectors b) \<le> 255 * 65535"
  by (intro mult_le_mono unat_u8_le unat_u16_le)

lemma clusters_bound: "(unat (c :: u16) - 2) * unat (w :: u8) \<le> 65535 * 255"
  using unat_u16_le [of c] by (intro mult_le_mono unat_u8_le) simp

lemma root_start_bound: "root_start b \<le> 65535 + 255 * 65535"
  unfolding root_start_def using fats_bound [of b] unat_u16_le [of "reserved_sector_count b"] by simp

lemma root_sectors_bound: "root_sectors b \<le> 4096"
  unfolding root_sectors_def using unat_u16_le [of "root_entry_count b"] by simp

lemma cluster_start_bound: "cluster_start b c + 255 < 2 ^ 28"
  unfolding cluster_start_def
  using root_start_bound [of b] root_sectors_bound [of b] clusters_bound [of c "sectors_per_cluster b"] by simp

lemma unat_of_nat_u32: "n < 2 ^ 32 \<Longrightarrow> unat (of_nat n :: u32) = n"
  by (simp add: unat_of_nat)

lemma first_root_dir_sector_eq: "first_root_dir_sector b = Inr (of_nat (root_start b))"
proof -
  let ?f = "of_nat (unat (num_fats b) * unat (fat_size_sectors b)) :: u32"
  have f: "unat ?f = unat (num_fats b) * unat (fat_size_sectors b)"
    using fats_bound [of b] by (intro unat_of_nat_u32) simp
  have r: "unat (of_nat (root_start b) :: u32) = root_start b"
    using root_start_bound [of b] by (intro unat_of_nat_u32) simp
  have "mul_ovf (ucast (num_fats b)) (ucast (fat_size_sectors b)) = Inr ?f"
    unfolding mul_ovf_Inr_iff unat_fields f ..
  moreover have "add_ovf (first_fat_sector b) ?f = Inr (of_nat (root_start b))"
    unfolding add_ovf_Inr_iff f r by (simp add: first_fat_sector_def unat_fields root_start_def)
  ultimately show ?thesis by (simp add: first_root_dir_sector_def)
qed

lemma ceil_div: "(if 0 < n mod 512 then n div 512 + 1 else n div 512) = (n + 511) div (512 :: nat)"
proof -
  define q r where "q = n div 512" and "r = n mod 512"
  have n: "n = 512 * q + r" and r: "r < 512" by (simp_all add: q_def r_def)
  have "(512 * q + r + 511) div 512 = q + (r + 511) div 512"
    using div_mult_self4 [of 512 q "r + 511"] by (simp add: add.assoc)
  moreover have "(r + 511) div 512 = (if 0 < r then 1 else 0)" 
  proof (cases "r = 0")
    case False
    then have "(r + 511) = 512 + (r - 1)" by simp
    then have "(r + 511) div 512 = 1 + (r - 1) div 512" by (metis div_add_self1 add.commute zero_neq_numeral)
    with r False show ?thesis by simp
  qed simp
  ultimately show ?thesis unfolding q_def [symmetric] r_def [symmetric] n [symmetric] by (simp add: n)
qed

lemma root_dir_sector_count_eq: "root_dir_sector_count b = Inr (of_nat (root_sectors b))"
proof -
  let ?n = "unat (root_entry_count b) * 32"
  have n: "unat (of_nat ?n :: u32) = ?n"
    using unat_u16_le [of "root_entry_count b"] by (intro unat_of_nat_u32) simp
  have "mul_ovf (ucast (root_entry_count b)) (of_nat DIR_ENTRY_SIZE) = Inr (of_nat ?n :: u32)"
    unfolding mul_ovf_Inr_iff n unat_fields by (simp add: DIR_ENTRY_SIZE_def)
  moreover have "unat (div_ceil (of_nat ?n) 512) = root_sectors b"
  proof -
    have "unat (of_nat ?n div 512 :: u32) = ?n div 512" "unat (of_nat ?n mod 512 :: u32) = ?n mod 512"
      unfolding unat_div unat_mod n by simp_all
    moreover have "unat (of_nat ?n div 512 + 1 :: u32) = ?n div 512 + 1"
      using calculation(1) unat_u16_le [of "root_entry_count b"] by (simp add: unat_word_ariths)
    ultimately show ?thesis
      unfolding root_sectors_def ceil_div [symmetric] div_ceil_def by (simp add: word_less_nat_alt)
  qed
  ultimately show ?thesis
    using root_sectors_bound [of b] 
    by (simp add: root_dir_sector_count_def SECTOR_SIZE_def word_unat_eq_iff unat_of_nat)
qed

lemma first_data_sector_eq: "first_data_sector b = Inr (of_nat (root_start b + root_sectors b))"
proof -
  have "unat (of_nat (root_start b) :: u32) = root_start b" "unat (of_nat (root_sectors b) :: u32) = root_sectors b"
    "unat (of_nat (root_start b + root_sectors b) :: u32) = root_start b + root_sectors b"
    using root_start_bound [of b] root_sectors_bound [of b] by (intro unat_of_nat_u32; simp)+
  then have "add_ovf (of_nat (root_start b)) (of_nat (root_sectors b) :: u32) = Inr (of_nat (root_start b + root_sectors b))"
    unfolding add_ovf_Inr_iff by simp
  then show ?thesis
    by (simp add: first_data_sector_def first_root_dir_sector_eq root_dir_sector_count_eq)
qed

lemma cluster_to_lba_eq:
  "cluster_to_lba b c = (if 2 \<le> c then Inr (of_nat (cluster_start b c))
     else panic ''attempt to subtract with overflow'')"
proof (cases "2 \<le> c")
  case True
  let ?i = "of_nat (unat c - 2) :: u32" and ?o = "of_nat ((unat c - 2) * unat (sectors_per_cluster b)) :: u32"
  have i: "unat ?i = unat c - 2" using unat_u16_le [of c] by (intro unat_of_nat_u32) simp
  have o: "unat ?o = (unat c - 2) * unat (sectors_per_cluster b)"
    using clusters_bound [of c "sectors_per_cluster b"] by (intro unat_of_nat_u32) simp
  have d: "unat (of_nat (root_start b + root_sectors b) :: u32) = root_start b + root_sectors b"
    using root_start_bound [of b] root_sectors_bound [of b] by (intro unat_of_nat_u32) simp
  have l: "unat (of_nat (cluster_start b c) :: u32) = cluster_start b c"
    using cluster_start_bound [of b c] by (intro unat_of_nat_u32) simp
  have "sub_ovf (ucast c) (2 :: u32) = Inr ?i"
    unfolding sub_ovf_Inr_iff i unat_fields using True by (simp add: word_le_nat_alt)
  moreover have "mul_ovf ?i (ucast (sectors_per_cluster b)) = Inr ?o"
    unfolding mul_ovf_Inr_iff i o unat_fields ..
  moreover have "add_ovf (of_nat (root_start b + root_sectors b)) ?o = Inr (of_nat (cluster_start b c))"
    unfolding add_ovf_Inr_iff d o l by (simp add: cluster_start_def)
  ultimately show ?thesis using True by (simp add: cluster_to_lba_def first_data_sector_eq)
next
  case False
  then have "sub_ovf (ucast c) (2 :: u32) = panic ''attempt to subtract with overflow''"
    by (simp add: sub_ovf_def checked_sub_def word_le_nat_alt unat_fields)
  then show ?thesis using False by (simp add: cluster_to_lba_def first_data_sector_eq)
qed

section \<open>The device the file system relies on\<close>

text \<open>
  Reading any sector below the LBA limit returns the 512 bytes that the disk holds there and keeps
  the device usable.
\<close>

locale sector_device =
  fixes rd :: "u32 \<Rightarrow> 'd \<Rightarrow> (u8 list \<times> 'd) result"
    and usable :: "'d \<Rightarrow> bool"
    and disk :: "u32 \<Rightarrow> u8 list"
  assumes serves: "usable d \<Longrightarrow> lba < 2 ^ 28 \<Longrightarrow>
      \<exists>d'. rd lba d = Inr (disk lba, d') \<and> usable d' \<and> length (disk lba) = 512"
begin

lemma serves_nat:
  assumes "usable d" and "n < 2 ^ 28"
  shows "\<exists>d'. rd (of_nat n) d = Inr (disk (of_nat n), d') \<and> usable d' \<and> length (disk (of_nat n)) = 512"
  using assms(2) by (intro serves [OF assms(1)]) (simp add: word_less_nat_alt unat_of_nat)

end

lemma add_ovf_of_nat:
  "m + n < 2 ^ 32 \<Longrightarrow> add_ovf (of_nat m :: u32) (of_nat n) = Inr (of_nat (m + n))"
  unfolding add_ovf_Inr_iff by (subst (1 2 3) unat_of_nat_u32) auto

section \<open>Finding a file\<close>

text \<open>
  The specification of the directory scan: the entries before the first end marker, and of these
  the first plain file with the name.
\<close>

definition plain_file :: "u8 list \<Rightarrow> bool" where
  "plain_file entry \<longleftrightarrow> entry ! 0 \<noteq> DIR_ENTRY_FREE \<and> entry ! 0x0B AND ATTR_VOLUME_ID = 0
     \<and> entry ! 0x0B AND ATTR_DIRECTORY = 0"

definition entry_of :: "u8 list \<Rightarrow> dir_entry" where
  "entry_of entry = \<lparr>first_cluster = from_le_bytes (take 2 (drop 0x1A entry)),
     file_size = from_le_bytes (take 4 (drop 0x1C entry))\<rparr>"

definition dir_lookup :: "u8 list \<Rightarrow> u8 list list \<Rightarrow> dir_entry option" where
  "dir_lookup name entries =
     map_option entry_of
       (find (\<lambda>e. plain_file e \<and> take 11 e = name) (takeWhile (\<lambda>e. e ! 0 \<noteq> DIR_ENTRY_END) entries))"

definition root_entries :: "(u32 \<Rightarrow> u8 list) \<Rightarrow> bpb \<Rightarrow> u8 list list" where
  "root_entries disk b =
     concat (map (\<lambda>i. chunks_exact 32 (disk (of_nat (root_start b + i)))) [0..<root_sectors b])"

lemma chunks_exact_length: "e \<in> set (chunks_exact 32 s) \<Longrightarrow> length e = 32"
proof -
  assume "e \<in> set (chunks_exact 32 s)"
  then obtain i where i: "i < length s div 32" "e = take 32 (drop (32 * i) s)" by (auto simp: chunks_exact_def)
  then have "32 * Suc i \<le> length s" using less_eq_div_iff_mult_less_eq [of 32 "Suc i" "length s"] by simp
  with i(2) show ?thesis by simp
qed

lemma read_entry_fields:
  assumes "length e = 32"
  shows "fs_read_u16 e 0x1A = Inr (first_cluster (entry_of e))" "fs_read_u32 e 0x1C = Inr (file_size (entry_of e))"
  using assms by (simp_all add: fs_read_u16_def fs_read_u32_def get_range_def entry_of_def)

lemma dir_lookup_Cons:
  "dir_lookup name (e # es) =
     (if e ! 0 = DIR_ENTRY_END then None
      else if plain_file e \<and> take 11 e = name then Some (entry_of e) else dir_lookup name es)"
  by (simp add: dir_lookup_def)

lemma scan_entries_spec:
  assumes "\<forall>e \<in> set es. length e = 32"
  shows "scan_entries name es = Inr (case dir_lookup name es of
      Some entry \<Rightarrow> Found entry
    | None \<Rightarrow> if \<exists>e \<in> set es. e ! 0 = DIR_ENTRY_END then End_of_directory else Not_here)"
  using assms
proof (induction es)
  case (Cons e es)
  have long: "e ! 0x0B = ATTR_LONG_NAME \<Longrightarrow> e ! 0x0B AND ATTR_VOLUME_ID \<noteq> 0"
    by (simp add: ATTR_LONG_NAME_def ATTR_VOLUME_ID_def)
  show ?case
  proof (cases "e ! 0 = DIR_ENTRY_END")
    case False
    show ?thesis
    proof (cases "plain_file e \<and> take 11 e = name")
      case True
      moreover from this long have "e ! 0x0B \<noteq> ATTR_LONG_NAME" by (auto simp: plain_file_def)
      moreover have "length e = 32" using Cons.prems by simp
      ultimately show ?thesis
        using False by (simp add: plain_file_def dir_lookup_Cons read_entry_fields Let_def)
    next
      case no: False
      then have "scan_entries name (e # es) = scan_entries name es"
        using False long by (auto simp: plain_file_def Let_def)
      moreover have "dir_lookup name (e # es) = dir_lookup name es"
        using no False by (simp only: dir_lookup_Cons if_False)
      ultimately show ?thesis using Cons False by (auto simp del: scan_entries.simps)
    qed
  qed (simp add: dir_lookup_Cons)
qed (simp add: dir_lookup_def)

lemma dir_lookup_append:
  "dir_lookup name (xs @ ys) = (case dir_lookup name xs of
      Some e \<Rightarrow> Some e
    | None \<Rightarrow> if \<exists>e \<in> set xs. e ! 0 = DIR_ENTRY_END then None else dir_lookup name ys)"
  by (induction xs) (auto simp: dir_lookup_def)

context sector_device
begin

lemma scan_sectors_spec:
  assumes "usable d" and "\<forall>i \<in> set is. start + i < 2 ^ 28"
  shows "\<exists>d'. scan_sectors rd name (of_nat start) (map of_nat is) d
      = Inr (dir_lookup name (concat (map (\<lambda>i. chunks_exact 32 (disk (of_nat (start + i)))) is)), d') \<and> usable d'"
  using assms
proof (induction "is" arbitrary: d)
  case Nil
  then show ?case by (simp add: dir_lookup_def)
next
  case (Cons i "is")
  let ?es = "chunks_exact 32 (disk (of_nat (start + i)))"
  obtain d1 where d1: "rd (of_nat (start + i)) d = Inr (disk (of_nat (start + i)), d1)" "usable d1"
    using serves_nat [OF Cons.prems(1), of "start + i"] Cons.prems(2) by auto
  have add: "add_ovf (of_nat start) (of_nat i :: u32) = Inr (of_nat (start + i))"
    using Cons.prems(2) by (intro add_ovf_of_nat) auto
  have scan: "scan_entries name ?es = Inr (case dir_lookup name ?es of Some entry \<Rightarrow> Found entry
      | None \<Rightarrow> if \<exists>e \<in> set ?es. e ! 0 = DIR_ENTRY_END then End_of_directory else Not_here)"
    by (rule scan_entries_spec) (use chunks_exact_length in blast)
  obtain d2 where d2: "scan_sectors rd name (of_nat start) (map of_nat is) d1
      = Inr (dir_lookup name (concat (map (\<lambda>i. chunks_exact 32 (disk (of_nat (start + i)))) is)), d2)" "usable d2"
    using Cons.IH [OF d1(2)] Cons.prems(2) by auto
  have step: "scan_sectors rd name (of_nat start) (map of_nat (i # is)) d =
      (case dir_lookup name ?es of
         Some entry \<Rightarrow> Inr (Some entry, d1)
       | None \<Rightarrow> if \<exists>e \<in> set ?es. e ! 0 = DIR_ENTRY_END then Inr (None, d1)
           else scan_sectors rd name (of_nat start) (map of_nat is) d1)"
    using add d1 scan by (auto simp add: DIR_ENTRY_SIZE_def simp del: of_nat_add split: option.split)
  have lookup: "dir_lookup name (concat (map (\<lambda>i. chunks_exact 32 (disk (of_nat (start + i)))) (i # is))) =
      (case dir_lookup name ?es of
         Some entry \<Rightarrow> Some entry
       | None \<Rightarrow> if \<exists>e \<in> set ?es. e ! 0 = DIR_ENTRY_END then None
           else dir_lookup name (concat (map (\<lambda>i. chunks_exact 32 (disk (of_nat (start + i)))) is)))"
    by (simp only: list.map concat.simps dir_lookup_append)
  show ?case
    unfolding step lookup using d1(2) d2
    by (cases "dir_lookup name ?es"; cases "\<exists>e \<in> set ?es. e ! 0 = DIR_ENTRY_END")
      (simp_all only: option.case if_True if_False sum.inject prod.inject, blast+)
qed

lemma find_in_root_dir_spec:
  assumes "usable d"
  shows "\<exists>d'. find_in_root_dir rd b name d = Inr (dir_lookup name (root_entries disk b), d') \<and> usable d'"
proof -
  have "\<forall>i \<in> set [0..<root_sectors b]. root_start b + i < 2 ^ 28"
    using root_start_bound [of b] root_sectors_bound [of b] by auto
  from scan_sectors_spec [OF assms this, of name] show ?thesis
    using root_sectors_bound [of b]
    by (simp add: find_in_root_dir_def first_root_dir_sector_eq root_dir_sector_count_eq root_entries_def
        unat_of_nat del: of_nat_add)
qed

end

section \<open>Following a cluster chain\<close>

definition cluster_bytes :: "(u32 \<Rightarrow> u8 list) \<Rightarrow> bpb \<Rightarrow> u16 \<Rightarrow> u8 list" where
  "cluster_bytes disk b c =
     concat (map (\<lambda>i. disk (of_nat (cluster_start b c + i))) [0..<unat (sectors_per_cluster b)])"

definition fat_entry :: "(u32 \<Rightarrow> u8 list) \<Rightarrow> bpb \<Rightarrow> u16 \<Rightarrow> u16" where
  "fat_entry disk b c =
     from_le_bytes (take 2 (drop (2 * unat c mod 512)
       (disk (of_nat (unat (reserved_sector_count b) + 2 * unat c div 512)))))"

definition fat_next :: "(u32 \<Rightarrow> u8 list) \<Rightarrow> bpb \<Rightarrow> u16 \<Rightarrow> u16 option" where
  "fat_next disk b c = (if 0xFFF7 \<le> fat_entry disk b c then None else Some (fat_entry disk b c))"

fun chain_ok :: "(u32 \<Rightarrow> u8 list) \<Rightarrow> bpb \<Rightarrow> u16 \<Rightarrow> u16 list \<Rightarrow> bool" where
  "chain_ok disk b c [] \<longleftrightarrow> 2 \<le> c"
| "chain_ok disk b c (c' # cs) \<longleftrightarrow> 2 \<le> c \<and> fat_next disk b c = Some c' \<and> chain_ok disk b c' cs"

lemma end_markers: "(0xFFF8 \<le> e \<or> e = 0xFFF7) \<longleftrightarrow> 0xFFF7 \<le> (e :: u16)"
proof -
  have "unat e = 0xFFF7 \<longleftrightarrow> e = 0xFFF7" by (simp add: word_unat_eq_iff)
  then show ?thesis by (auto simp: word_le_nat_alt)
qed

context sector_device
begin

lemma next_cluster_spec:
  assumes "usable d"
  shows "\<exists>d'. next_cluster rd b c d = Inr (fat_next disk b c, d') \<and> usable d'"
proof -
  let ?o = "of_nat (2 * unat c) :: u32" and ?s = "unat (reserved_sector_count b) + 2 * unat c div 512"
  have o: "unat ?o = 2 * unat c" using unat_u16_le [of c] by (intro unat_of_nat_u32) simp
  have q: "2 * unat c div 512 \<le> 255" using unat_u16_le [of c] by simp
  have s: "?s < 2 ^ 28" using q unat_u16_le [of "reserved_sector_count b"] by simp
  have mul: "mul_ovf (ucast c) 2 = Inr ?o" unfolding mul_ovf_Inr_iff o unat_fields by simp
  have "unat (?o div 512) = 2 * unat c div 512" unfolding unat_div o by simp
  moreover have "unat (of_nat ?s :: u32) = ?s" using s by (intro unat_of_nat_u32) simp
  ultimately have add: "add_ovf (first_fat_sector b) (?o div 512) = Inr (of_nat ?s)"
    unfolding add_ovf_Inr_iff first_fat_sector_def unat_fields by simp
  have m: "unat (?o mod 512) = 2 * unat c mod 512" unfolding unat_mod o by simp
  obtain d' where d': "rd (of_nat ?s) d = Inr (disk (of_nat ?s), d')" "usable d'" "length (disk (of_nat ?s)) = 512"
    using serves_nat [OF assms s] by blast
  have "2 * unat c mod 512 + 2 \<le> 512"
  proof -
    have "2 * unat c mod 512 = 2 * (unat c mod 256)" using mult_mod_right [of 2 "unat c" 256] by simp
    moreover have "unat c mod 256 < 256" by simp
    ultimately show ?thesis by linarith
  qed
  then have "fs_read_u16 (disk (of_nat ?s)) (2 * unat c mod 512) = Inr (fat_entry disk b c)"
    using d'(3) by (simp add: fs_read_u16_def get_range_def fat_entry_def del: of_nat_add)
  then show ?thesis
    using d' mul add m end_markers
    by (simp add: next_cluster_def SECTOR_SIZE_def fat_next_def Let_def del: of_nat_add of_nat_mult)
qed

lemma read_cluster_spec:
  assumes "usable d" and "\<forall>i \<in> set is. start + i < 2 ^ 28" and "length data < n"
  shows "\<exists>d'. read_cluster rd n (of_nat start) (map of_nat is) data d =
      Inr (n \<le> length (data @ concat (map (\<lambda>i. disk (of_nat (start + i))) is)),
           take n (data @ concat (map (\<lambda>i. disk (of_nat (start + i))) is)), d') \<and> usable d'"
  using assms
proof (induction "is" arbitrary: data d)
  case Nil
  then show ?case by simp
next
  case (Cons i "is")
  let ?s = "disk (of_nat (start + i))"
  obtain d1 where d1: "rd (of_nat (start + i)) d = Inr (?s, d1)" "usable d1" "length ?s = 512"
    using serves_nat [OF Cons.prems(1), of "start + i"] Cons.prems(2) by auto
  have add: "add_ovf (of_nat start) (of_nat i :: u32) = Inr (of_nat (start + i))"
    using Cons.prems(2) by (intro add_ovf_of_nat) auto
  have data: "data @ take (min (n - length data) SECTOR_SIZE) ?s = take n (data @ ?s)"
    using d1(3) Cons.prems(3) by (auto simp: SECTOR_SIZE_def min_def)
  have step: "read_cluster rd n (of_nat start) (map of_nat (i # is)) data d =
      (if n \<le> length (take n (data @ ?s)) then Inr (True, take n (data @ ?s), d1)
       else read_cluster rd n (of_nat start) (map of_nat is) (take n (data @ ?s)) d1)"
    using Cons.prems(3) d1(1) add by (simp only: list.map read_cluster.simps bind_result_simps prod.case Let_def data) simp
  show ?case
  proof (cases "n \<le> length (data @ ?s)")
    case True
    then show ?thesis unfolding step using d1(2,3) Cons.prems(3) by (simp del: of_nat_add)
  next
    case False
    then have "length (data @ ?s) < n" "take n (data @ ?s) = data @ ?s" by simp_all
    then show ?thesis
      unfolding step using Cons.IH [OF d1(2), of "data @ ?s"] Cons.prems(2) by (simp del: of_nat_add)
  qed
qed

lemma read_cluster_at:
  assumes "usable d" and "2 \<le> c" and "length data < n"
  shows "\<exists>d'. bind_result (cluster_to_lba b c) (\<lambda>first_lba.
        read_cluster rd n first_lba (map of_nat [0..<unat (sectors_per_cluster b)]) data d) =
      Inr (n \<le> length (data @ cluster_bytes disk b c), take n (data @ cluster_bytes disk b c), d') \<and> usable d'"
proof -
  have "\<forall>i \<in> set [0..<unat (sectors_per_cluster b)]. cluster_start b c + i < 2 ^ 28"
    using cluster_start_bound [of b c] unat_u8_le [of "sectors_per_cluster b"] by auto
  from read_cluster_spec [OF assms(1) this assms(3)] show ?thesis
    using assms(2) by (simp add: cluster_to_lba_eq cluster_bytes_def del: of_nat_add)
qed

lemma read_chain_spec:
  assumes "usable d" and "chain_ok disk b c cs" and "length data < n"
    and "fat_next disk b (last (c # cs)) = None \<or>
      n \<le> length (data @ concat (map (cluster_bytes disk b) (c # cs)))"
  shows "\<exists>d'. read_chain rd b n c data d =
      Some (Inr (take n (data @ concat (map (cluster_bytes disk b) (c # cs))), d')) \<and> usable d'"
  using assms
proof (induction cs arbitrary: c data d)
  case Nil
  have c2: "2 \<le> c" using Nil.prems(2) by simp
  obtain d1 where r: "bind_result (cluster_to_lba b c) (\<lambda>first_lba.
        read_cluster rd n first_lba (map of_nat [0..<unat (sectors_per_cluster b)]) data d) =
      Inr (n \<le> length (data @ cluster_bytes disk b c), take n (data @ cluster_bytes disk b c), d1)" "usable d1"
    using read_cluster_at [OF Nil.prems(1) c2 Nil.prems(3)] by blast
  obtain d2 where "next_cluster rd b c d1 = Inr (fat_next disk b c, d2)" "usable d2"
    using next_cluster_spec [OF r(2)] by blast
  then show ?case
    using Nil.prems(4) r(2) unfolding read_chain.simps [of rd b n c] r by auto
next
  case (Cons c' cs)
  have c2: "2 \<le> c" using Cons.prems(2) by simp
  obtain d1 where r: "bind_result (cluster_to_lba b c) (\<lambda>first_lba.
        read_cluster rd n first_lba (map of_nat [0..<unat (sectors_per_cluster b)]) data d) =
      Inr (n \<le> length (data @ cluster_bytes disk b c), take n (data @ cluster_bytes disk b c), d1)" "usable d1"
    using read_cluster_at [OF Cons.prems(1) c2 Cons.prems(3)] by blast
  obtain d2 where d2: "next_cluster rd b c d1 = Inr (Some c', d2)" "usable d2"
    using next_cluster_spec [OF r(2), of b c] Cons.prems(2) by auto
  show ?case
  proof (cases "n \<le> length (data @ cluster_bytes disk b c)")
    case True
    then show ?thesis using r(2) unfolding read_chain.simps [of rd b n c] r by auto
  next
    case False
    then have lt: "length (data @ cluster_bytes disk b c) < n" by simp
    have "\<exists>d'. read_chain rd b n c' (data @ cluster_bytes disk b c) d2 =
        Some (Inr (take n ((data @ cluster_bytes disk b c) @ concat (map (cluster_bytes disk b) (c' # cs))), d')) \<and> usable d'"
      by (rule Cons.IH [OF d2(2) _ lt]) (use Cons.prems in simp_all)
    then show ?thesis using False d2 unfolding read_chain.simps [of rd b n c] r by simp
  qed
qed

end

section \<open>Reading a file\<close>

text \<open>What the name of a file stands for: the parameter block and the directory entry, if any.\<close>

definition file_lookup :: "(u32 \<Rightarrow> u8 list) \<Rightarrow> u8 list \<Rightarrow> (bpb \<times> dir_entry) option" where
  "file_lookup disk name =
     (case (to_fat_83 name, bpb_parse (disk 0)) of
        (Some fat_name, Inr (Some b)) \<Rightarrow> map_option (Pair b) (dir_lookup fat_name (root_entries disk b))
      | _ \<Rightarrow> None)"

text \<open>The heap cannot hold the file.\<close>

definition too_big :: "(nat \<Rightarrow> bool) \<Rightarrow> dir_entry \<Rightarrow> bool" where
  "too_big room entry \<longleftrightarrow> file_size entry \<noteq> 0 \<and> \<not> room (unat (file_size entry))"

lemma with_capacity_entry:
  "with_capacity room (unat (file_size entry)) = (if too_big room entry then panic ''memory allocation failed'' else Inr [])"
  by (simp add: with_capacity_def too_big_def unat_eq_zero)

text \<open>Following the allocation table from the cluster \<open>c\<close> leads to a number that is no data cluster.\<close>

definition reaches_reserved :: "(u32 \<Rightarrow> u8 list) \<Rightarrow> bpb \<Rightarrow> u16 \<Rightarrow> bool" where
  "reaches_reserved disk b c \<longleftrightarrow> (\<exists>c'. (\<lambda>x y. fat_next disk b x = Some y)\<^sup>*\<^sup>* c c' \<and> c' < 2)"

lemma reaches_reserved_step: "fat_next disk b c = Some c' \<Longrightarrow> reaches_reserved disk b c' \<Longrightarrow> reaches_reserved disk b c"
  unfolding reaches_reserved_def by (blast intro: converse_rtranclp_into_rtranclp)

lemma reaches_reserved_here: "\<not> 2 \<le> c \<Longrightarrow> reaches_reserved disk b c"
  unfolding reaches_reserved_def by (blast intro: not_le_imp_less)

lemma bpb_parse_returns: "length s = 512 \<Longrightarrow> \<exists>b. bpb_parse s = Inr b"
  by (simp add: bpb_parse_def fs_read_u16_def get_range_def)

context sector_device
begin

lemma read_chain_total:
  assumes "usable d" and "0 < unat (sectors_per_cluster b)" and "length data < n"
  shows "\<exists>r. read_chain rd b n c data d = Some r
    \<and> ((\<exists>data d'. r = Inr (data, d') \<and> length data \<le> n)
       \<or> r = panic ''attempt to subtract with overflow'' \<and> reaches_reserved disk b c)"
  using assms(1,3)
proof (induction "n - length data" arbitrary: c data d rule: less_induct)
  case less
  show ?case
  proof (cases "2 \<le> c")
    case False
    then show ?thesis by (subst read_chain.simps) (simp add: cluster_to_lba_eq reaches_reserved_here)
  next
    case True
    obtain d1 where r: "bind_result (cluster_to_lba b c) (\<lambda>first_lba.
        read_cluster rd n first_lba (map of_nat [0..<unat (sectors_per_cluster b)]) data d) =
      Inr (n \<le> length (data @ cluster_bytes disk b c), take n (data @ cluster_bytes disk b c), d1)" "usable d1"
      using read_cluster_at [OF less.prems(1) True less.prems(2)] by blast
    obtain d2 where d2: "next_cluster rd b c d1 = Inr (fat_next disk b c, d2)" "usable d2"
      using next_cluster_spec [OF r(2)] by blast
    show ?thesis
    proof (cases "n \<le> length (data @ cluster_bytes disk b c) \<or> fat_next disk b c = None")
      case True
      then show ?thesis using d2 unfolding read_chain.simps [of rd b n c] r by auto
    next
      case False
      then obtain c' where c': "fat_next disk b c = Some c'" and lt: "length (data @ cluster_bytes disk b c) < n"
        by auto
      have "cluster_start b c + 0 < 2 ^ 28" using cluster_start_bound [of b c] by simp
      then have "length (disk (of_nat (cluster_start b c + 0))) = 512" using serves_nat [OF less.prems(1)] by blast
      then have "0 < length (cluster_bytes disk b c)"
        using assms(2) unfolding cluster_bytes_def by (subst upt_conv_Cons) simp_all
      then have "n - length (data @ cluster_bytes disk b c) < n - length data"
        using lt unfolding length_append by linarith
      from less.hyps [OF this d2(2) lt, of c'] show ?thesis
        using False c' d2 reaches_reserved_step [OF c'] unfolding read_chain.simps [of rd b n c] r by auto
    qed
  qed
qed

lemma read_file_lookup:
  assumes "usable d"
  shows "\<exists>d'. usable d' \<and> read_file rd room name d =
    (case file_lookup disk name of
       None \<Rightarrow> Some (Inr (None, d'))
     | Some (b, entry) \<Rightarrow>
         if too_big room entry then Some (panic ''memory allocation failed'')
         else if file_size entry = 0 then Some (Inr (Some [], d'))
         else map_option (\<lambda>r. bind_result r (\<lambda>(data, d). Inr (Some data, d)))
                (read_chain rd b (unat (file_size entry)) (first_cluster entry) [] d'))"
proof (cases "to_fat_83 name")
  case None
  then show ?thesis using assms by (auto simp: read_file_def file_lookup_def)
next
  case (Some fat_name)
  obtain d1 where d1: "rd 0 d = Inr (disk 0, d1)" "usable d1" "length (disk 0) = 512"
    using serves [OF assms, of 0] by auto
  obtain p where p: "bpb_parse (disk 0) = Inr p" using bpb_parse_returns [OF d1(3)] by blast
  show ?thesis
  proof (cases p)
    case None
    then show ?thesis using Some d1 p by (auto simp: read_file_def file_lookup_def)
  next
    case p': (Some b)
    obtain d2 where "find_in_root_dir rd b fat_name d1 = Inr (dir_lookup fat_name (root_entries disk b), d2)" "usable d2"
      using find_in_root_dir_spec [OF d1(2)] by blast
    then show ?thesis
      using Some d1 p p' by (cases "dir_lookup fat_name (root_entries disk b)") (auto simp: read_file_def file_lookup_def with_capacity_entry)
  qed
qed

lemma read_file_data:
  assumes "usable d" and "file_lookup disk name = Some (b, entry)"
    and "file_size entry \<noteq> 0 \<Longrightarrow> chain_ok disk b (first_cluster entry) cs
      \<and> (fat_next disk b (last (first_cluster entry # cs)) = None \<or>
         unat (file_size entry) \<le> length (concat (map (cluster_bytes disk b) (first_cluster entry # cs))))"
  shows "\<exists>d'. usable d' \<and> read_file rd room name d = Some (if too_big room entry then panic ''memory allocation failed'' else Inr (Some
      (take (unat (file_size entry)) (concat (map (cluster_bytes disk b) (first_cluster entry # cs)))), d'))"
proof -
  obtain d1 where d1: "usable d1" "read_file rd room name d =
      (if too_big room entry then Some (panic ''memory allocation failed'')
       else if file_size entry = 0 then Some (Inr (Some [], d1))
       else map_option (\<lambda>r. bind_result r (\<lambda>(data, d). Inr (Some data, d)))
              (read_chain rd b (unat (file_size entry)) (first_cluster entry) [] d1))"
    using read_file_lookup [OF assms(1), of room name] assms(2) by auto
  show ?thesis
  proof (cases "file_size entry = 0 \<or> too_big room entry")
    case True
    then show ?thesis using d1 by auto
  next
    case False
    then have "length [] < unat (file_size entry)" by (simp add: unat_gt_0)
    from read_chain_spec [OF d1(1) _ this, of b "first_cluster entry" cs] assms(3) False
    obtain d' where "usable d'" "read_chain rd b (unat (file_size entry)) (first_cluster entry) [] d1 =
        Some (Inr (take (unat (file_size entry)) (concat (map (cluster_bytes disk b) (first_cluster entry # cs))), d'))"
      by auto
    then show ?thesis using False d1(2) by auto
  qed
qed

lemma read_file_total:
  assumes "usable d"
    and "\<And>b entry. file_lookup disk name = Some (b, entry) \<Longrightarrow> 0 < unat (sectors_per_cluster b)"
  shows "\<exists>r. read_file rd room name d = Some r
    \<and> (case file_lookup disk name of
         None \<Rightarrow> \<exists>d'. r = Inr (None, d')
       | Some (b, entry) \<Rightarrow>
           if too_big room entry then r = panic ''memory allocation failed''
           else (\<exists>data d'. r = Inr (Some data, d') \<and> length data \<le> unat (file_size entry))
             \<or> r = panic ''attempt to subtract with overflow'' \<and> reaches_reserved disk b (first_cluster entry))"
proof -
  obtain d1 where d1: "usable d1" "read_file rd room name d =
    (case file_lookup disk name of
       None \<Rightarrow> Some (Inr (None, d1))
     | Some (b, entry) \<Rightarrow>
         if too_big room entry then Some (panic ''memory allocation failed'')
         else if file_size entry = 0 then Some (Inr (Some [], d1))
         else map_option (\<lambda>r. bind_result r (\<lambda>(data, d). Inr (Some data, d)))
                (read_chain rd b (unat (file_size entry)) (first_cluster entry) [] d1))"
    using read_file_lookup [OF assms(1)] by blast
  show ?thesis
  proof (cases "file_lookup disk name")
    case None
    then show ?thesis using d1 by simp
  next
    case (Some p)
    obtain b entry where p: "p = (b, entry)" by force
    show ?thesis
    proof (cases "file_size entry = 0 \<or> too_big room entry")
      case False
      then have "length [] < unat (file_size entry)" by (simp add: unat_gt_0)
      from read_chain_total [OF d1(1) _ this, of b "first_cluster entry"] assms(2) Some p
      obtain r where "read_chain rd b (unat (file_size entry)) (first_cluster entry) [] d1 = Some r"
        "(\<exists>data d'. r = Inr (data, d') \<and> length data \<le> unat (file_size entry))
           \<or> r = panic ''attempt to subtract with overflow'' \<and> reaches_reserved disk b (first_cluster entry)" by auto
      then show ?thesis using Some p False d1(2) by auto
    qed (use Some p d1 in auto)
  qed
qed

end

text \<open>The kernel's file system sits on the ATA driver.\<close>

definition disk_ready :: "'d port_io \<Rightarrow> ('d \<Rightarrow> ata_view) \<Rightarrow> (bool \<Rightarrow> u32 \<Rightarrow> u8 list) \<Rightarrow> 'd \<Rightarrow> bool" where
  "disk_ready io view disk d \<longleftrightarrow> ata_contract io view disk
     \<and> (\<forall>lba. lba < 2 ^ 28 \<longrightarrow> length (disk True lba) = SECTOR_SIZE) \<and> busy_for (view d) < POLL_ATTEMPTS"

interpretation ata_disk: sector_device "fs_read_sector io" "disk_ready io view disk" "disk True" for io view disk
proof
  fix d and lba :: u32
  assume ready: "disk_ready io view disk d" and lba: "lba < 2 ^ 28"
  have c: "ata_contract io view disk" and b: "busy_for (view d) < POLL_ATTEMPTS"
    and len: "length (disk True lba) = SECTOR_SIZE"
    using ready lba by (simp_all add: disk_ready_def)
  obtain d' where "read_sector io Secondary lba d = Inr (disk True lba, d')" "busy_for (view d') = 0"
    using read_sector_returns [OF c lba b, of Secondary] len by auto
  then show "\<exists>d'. fs_read_sector io lba d = Inr (disk True lba, d') \<and> disk_ready io view disk d'
      \<and> length (disk True lba) = 512"
    using ready len by (auto simp: fs_read_sector_def FS_DRIVE_def disk_ready_def SECTOR_SIZE_def POLL_ATTEMPTS_def)
qed

text \<open>
  C34. Opening a file delivers its contents. On a disk that answers as documented, let the
  name denote the entry \<open>entry\<close> (the first plain file of the root directory with that 8.3
  name, before the end marker), and let \<open>first_cluster entry # cs\<close> be its chain in the
  allocation table, either complete up to an end marker or long enough for the file's size.
  Then \<open>read_file\<close> returns the bytes of these clusters in order, cut at the file's size, unless
  the heap has no room for a vector of that size, which panics.
\<close>

theorem read_file_contents:
  assumes "disk_ready io view disk d" and "file_lookup (disk True) name = Some (b, entry)"
    and "file_size entry \<noteq> 0 \<Longrightarrow> chain_ok (disk True) b (first_cluster entry) cs
      \<and> (fat_next (disk True) b (last (first_cluster entry # cs)) = None \<or>
         unat (file_size entry) \<le> length (concat (map (cluster_bytes (disk True) b) (first_cluster entry # cs))))"
  shows "\<exists>d'. read_file (fs_read_sector io) room name d =
      Some (if too_big room entry then panic ''memory allocation failed'' else Inr (Some
        (take (unat (file_size entry)) (concat (map (cluster_bytes (disk True) b) (first_cluster entry # cs)))), d'))
    \<and> disk_ready io view disk d'"
  using ata_disk.read_file_data [OF assms] by blast

text \<open>
  C35. Reading a file ends on every disk, and every panic on the way is named. As long as the
  parameter block does not claim zero sectors per cluster, \<open>read_file\<close> returns whatever the allocation
  table holds, cycles included. A name that denotes no file gives \<open>None\<close>. A file for whose size the
  heap has no room panics. Otherwise the result has at most as many bytes as the directory entry
  says, or the chain of the file leads to a cluster number below 2 and the subtraction for it panics.
\<close>

theorem read_file_terminates:
  assumes "disk_ready io view disk d"
    and "\<And>b entry. file_lookup (disk True) name = Some (b, entry) \<Longrightarrow> 0 < unat (sectors_per_cluster b)"
  shows "\<exists>r. read_file (fs_read_sector io) room name d = Some r
    \<and> (case file_lookup (disk True) name of
         None \<Rightarrow> \<exists>d'. r = Inr (None, d')
       | Some (b, entry) \<Rightarrow>
           if too_big room entry then r = panic ''memory allocation failed''
           else (\<exists>data d'. r = Inr (Some data, d') \<and> length data \<le> unat (file_size entry))
             \<or> r = panic ''attempt to subtract with overflow'' \<and> reaches_reserved (disk True) b (first_cluster entry))"
  by (rule ata_disk.read_file_total [OF assms])

lemma split_once_Some_iff: "split_once c xs = Some (a, b) \<longleftrightarrow> xs = a @ c # b \<and> c \<notin> set a"
proof (induction xs arbitrary: a)
  case (Cons x xs)
  then show ?case by (cases a) auto
qed simp

lemma split_once_None_iff: "split_once c xs = None \<longleftrightarrow> c \<notin> set xs"
  by (induction xs) auto

lemma overwrite_blank_name:
  assumes "length base \<le> 8" and "length ext \<le> 3"
  shows "overwrite (overwrite (replicate 11 s) 0 base) 8 ext
    = base @ replicate (8 - length base) s @ ext @ replicate (3 - length ext) s"
proof -
  have "overwrite (replicate 11 s) 0 base = base @ replicate (11 - length base) s"
    by (simp add: overwrite_def)
  moreover have "take 8 (base @ replicate (11 - length base) s) = base @ replicate (8 - length base) s"
    using assms(1) by (simp add: min_def)
  moreover have "drop (8 + length ext) (base @ replicate (11 - length base) s) = replicate (3 - length ext) s"
    using assms by simp
  ultimately show ?thesis by (simp add: overwrite_def [of _ 8])
qed

definition name_parts :: "u8 list \<Rightarrow> u8 list \<times> u8 list" where
  "name_parts name = (case split_once 0x2E name of Some (base, ext) \<Rightarrow> (base, ext) | None \<Rightarrow> (name, []))"

lemma name_parts_iff:
  "name_parts name = (b, e) \<longleftrightarrow> (name = b @ 0x2E # e \<or> name = b \<and> e = []) \<and> 0x2E \<notin> set b"
proof (cases "split_once 0x2E name")
  case None
  then have "0x2E \<notin> set name" by (simp add: split_once_None_iff)
  then show ?thesis using None by (auto simp: name_parts_def)
next
  case (Some p)
  obtain base ext where p: "p = (base, ext)" by force
  then have "name = base @ 0x2E # ext" using Some split_once_Some_iff by auto
  then have "0x2E \<in> set name" by simp
  then show ?thesis using split_once_Some_iff [of "0x2E" name b e] Some p by (auto simp: name_parts_def)
qed

text \<open>
  C40. The conversion to the on-disk 8.3 form. A name is accepted exactly when the part before
  the first dot (or all of it) has 1 to 8 bytes and the part after it has at most 3, and
  the result is the two parts in upper case, padded with blanks to 8 and 3 bytes.
\<close>

theorem to_fat_83_spec:
  "to_fat_83 name = Some fat_name \<longleftrightarrow>
     (\<exists>base ext. (name = base @ 0x2E # ext \<or> name = base \<and> ext = []) \<and> 0x2E \<notin> set base
       \<and> 1 \<le> length base \<and> length base \<le> 8 \<and> length ext \<le> 3
       \<and> fat_name = map to_ascii_uppercase base @ replicate (8 - length base) 0x20
           @ map to_ascii_uppercase ext @ replicate (3 - length ext) 0x20)"
proof -
  obtain base ext where parts: "name_parts name = (base, ext)" by force
  have "to_fat_83 name = (if base = [] \<or> 8 < length base \<or> 3 < length ext then None
      else Some (map to_ascii_uppercase base @ replicate (8 - length base) 0x20
           @ map to_ascii_uppercase ext @ replicate (3 - length ext) 0x20))"
    unfolding to_fat_83_def name_parts_def [symmetric] parts by (simp add: Let_def overwrite_blank_name)
  moreover have "(name = b @ 0x2E # e \<or> name = b \<and> e = []) \<and> 0x2E \<notin> set b \<longleftrightarrow> b = base \<and> e = ext" for b e
    using name_parts_iff [of name b e] parts by auto
  ultimately show ?thesis
    by (simp only: conj_assoc [symmetric] ex_simps simp_thms) (auto simp: Suc_le_eq)
qed

section \<open>A sample disk\<close>

text \<open>
  A volume with one reserved sector, one allocation table of one sector, a root directory of one
  sector and clusters of one sector. It holds the file \<open>HELLO.TXT\<close> of three bytes in cluster 2.
\<close>

definition sample_bpb :: bpb where
  "sample_bpb = \<lparr>reserved_sector_count = 1, num_fats = 1, root_entry_count = 16, fat_size_sectors = 1,
     sectors_per_cluster = 1\<rparr>"

definition sample_entry :: "u8 list" where
  "sample_entry = [0x48, 0x45, 0x4C, 0x4C, 0x4F, 0x20, 0x20, 0x20, 0x54, 0x58, 0x54, 0x20,
     0, 0, 0, 0, 0, 0, 0, 0, 0, 0, 0, 0, 0, 0, 2, 0, 3, 0, 0, 0]"

definition sample_name :: "u8 list" where
  "sample_name = [0x48, 0x45, 0x4C, 0x4C, 0x4F, 0x2E, 0x54, 0x58, 0x54]"

definition sample_sector :: "u32 \<Rightarrow> u8 list" where
  "sample_sector lba =
     (if lba = 0 then replicate 11 0 @ [0, 2, 1, 1, 0, 1, 16, 0, 0, 0, 0, 1, 0] @ replicate 488 0
      else if lba = 1 then [0xF8, 0xFF, 0xFF, 0xFF, 0xFF, 0xFF] @ replicate 506 0
      else if lba = 2 then sample_entry @ replicate 480 0
      else if lba = 3 then [0x48, 0x69, 0x0A] @ replicate 509 0
      else replicate 512 0)"

lemma sample_disk_ready: "disk_ready (ref_io (\<lambda>_. sample_sector)) id (\<lambda>_. sample_sector) ref_idle"
  by (simp add: disk_ready_def ref_io_contract sample_sector_def sample_entry_def SECTOR_SIZE_def
      ref_idle_def POLL_ATTEMPTS_def)

lemma sample_parse: "bpb_parse (sample_sector 0) = Inr (Some sample_bpb)"
  by (simp add: bpb_parse_def fs_read_u16_def get_range_def sample_sector_def sample_bpb_def SECTOR_SIZE_def
      nth_append)

lemma sample_layout: "root_start sample_bpb = 2" "root_sectors sample_bpb = 1" "cluster_start sample_bpb 2 = 3"
  by (simp_all add: root_start_def root_sectors_def cluster_start_def sample_bpb_def)

lemma sample_entries: "\<exists>rest. root_entries sample_sector sample_bpb = sample_entry # replicate 32 0 # rest"
proof -
  have "chunks_exact 32 (sample_sector 2)
      = map (\<lambda>i. take 32 (drop (32 * i) (sample_sector 2))) (0 # 1 # [2..<16])"
    by (simp add: chunks_exact_def sample_sector_def sample_entry_def upt_rec)
  also have "\<dots> = sample_entry # replicate 32 0 # map (\<lambda>i. take 32 (drop (32 * i) (sample_sector 2))) [2..<16]"
    by (simp add: sample_sector_def sample_entry_def)
  finally show ?thesis by (simp add: root_entries_def sample_layout)
qed

lemma sample_lookup:
  "dir_lookup name (root_entries sample_sector sample_bpb)
   = (if name = take 11 sample_entry then Some \<lparr>first_cluster = 2, file_size = 3\<rparr> else None)"
proof -
  obtain rest where "root_entries sample_sector sample_bpb = sample_entry # replicate 32 0 # rest"
    using sample_entries by blast
  then show ?thesis
    by (simp add: dir_lookup_Cons) (simp add: sample_entry_def fs_consts plain_file_def entry_of_def)
qed

lemma sample_cluster: "take 3 (cluster_bytes sample_sector sample_bpb 2) = [0x48, 0x69, 0x0A]"
  "fat_next sample_sector sample_bpb 2 = None"
  by (simp_all add: cluster_bytes_def sample_layout fat_next_def fat_entry_def)
    (simp_all add: sample_bpb_def sample_sector_def)

lemma sample_names:
  "to_fat_83 sample_name = Some (take 11 sample_entry)" "to_fat_83 [0x62] \<noteq> Some (take 11 sample_entry)"
proof -
  have "replicate 7 x = [x, x, x, x, x, x, x]" "replicate 3 x = [x, x, x]" for x :: u8
    by (simp_all add: numeral_eq_Suc)
  then show "to_fat_83 sample_name = Some (take 11 sample_entry)" "to_fat_83 [0x62] \<noteq> Some (take 11 sample_entry)"
    by (simp_all add: to_fat_83_def Let_def overwrite_blank_name to_ascii_uppercase_def sample_entry_def sample_name_def)
qed

lemma sample_file: "file_lookup sample_sector sample_name = Some (sample_bpb, \<lparr>first_cluster = 2, file_size = 3\<rparr>)"
  by (simp add: file_lookup_def sample_parse sample_lookup sample_names)

lemma sample_read:
  assumes "room 3"
  shows "\<exists>d'. read_file (fs_read_sector (ref_io (\<lambda>_. sample_sector))) room sample_name ref_idle = Some (Inr (Some [0x48, 0x69, 0x0A], d'))"
  using ata_disk.read_file_data [OF sample_disk_ready, where name = sample_name and b = sample_bpb and cs = "[]"
      and entry = "\<lparr>first_cluster = 2, file_size = 3\<rparr>" and room = room] sample_file assms
  by (auto simp: sample_cluster too_big_def)

theorem read_file_contents_witness:
  "\<exists>d'. read_file (fs_read_sector (ref_io (\<lambda>_. sample_sector))) (\<lambda>n. n \<le> 4194304) sample_name ref_idle = Some (Inr (Some [0x48, 0x69, 0x0A], d'))"
  using read_file_contents [OF sample_disk_ready, where name = sample_name and b = sample_bpb and cs = "[]"
      and entry = "\<lparr>first_cluster = 2, file_size = 3\<rparr>" and room = "\<lambda>n. n \<le> 4194304"] sample_file
  by (auto simp: sample_cluster too_big_def)

text \<open>
  A damaged volume: the same file claims 5 MiB or, in the other case, 700 bytes, and its only cluster
  is its own successor in the allocation table.
\<close>

definition damaged_sector :: "u8 list \<Rightarrow> u32 \<Rightarrow> u8 list" where
  "damaged_sector sz lba =
     (if lba = 1 then [0xF8, 0xFF, 0xFF, 0xFF, 2, 0] @ replicate 506 0
      else if lba = 2 then take 28 sample_entry @ sz @ replicate 480 0
      else sample_sector lba)"

lemma damaged_disk_ready:
  assumes "length sz = 4"
  shows "disk_ready (ref_io (\<lambda>_. damaged_sector sz)) id (\<lambda>_. damaged_sector sz) ref_idle"
  using assms by (simp add: disk_ready_def ref_io_contract damaged_sector_def sample_sector_def sample_entry_def SECTOR_SIZE_def
      ref_idle_def POLL_ATTEMPTS_def)

lemma damaged_parse: "bpb_parse (damaged_sector sz 0) = Inr (Some sample_bpb)"
  using sample_parse by (simp add: damaged_sector_def)

lemma damaged_entries:
  assumes "length sz = 4"
  shows "\<exists>rest. root_entries (damaged_sector sz) sample_bpb = (take 28 sample_entry @ sz) # rest"
proof -
  have "chunks_exact 32 (damaged_sector sz 2)
      = map (\<lambda>i. take 32 (drop (32 * i) (damaged_sector sz 2))) (0 # [1..<16])"
    using assms by (simp add: chunks_exact_def damaged_sector_def sample_entry_def upt_rec)
  also have "\<dots> = (take 28 sample_entry @ sz) # map (\<lambda>i. take 32 (drop (32 * i) (damaged_sector sz 2))) [1..<16]"
    using assms by (simp add: damaged_sector_def sample_entry_def)
  finally show ?thesis by (simp add: root_entries_def sample_layout)
qed

lemma damaged_file:
  "file_lookup (damaged_sector [0xBC, 2, 0, 0]) sample_name = Some (sample_bpb, \<lparr>first_cluster = 2, file_size = 700\<rparr>)"
  "file_lookup (damaged_sector [0, 0, 0x50, 0]) sample_name = Some (sample_bpb, \<lparr>first_cluster = 2, file_size = 0x500000\<rparr>)"
proof -
  obtain r1 r2 where "root_entries (damaged_sector [0xBC, 2, 0, 0]) sample_bpb = (take 28 sample_entry @ [0xBC, 2, 0, 0]) # r1"
      "root_entries (damaged_sector [0, 0, 0x50, 0]) sample_bpb = (take 28 sample_entry @ [0, 0, 0x50, 0]) # r2"
    using damaged_entries [of "[0xBC, 2, 0, 0]"] damaged_entries [of "[0, 0, 0x50, 0]"] by auto
  then show "file_lookup (damaged_sector [0xBC, 2, 0, 0]) sample_name = Some (sample_bpb, \<lparr>first_cluster = 2, file_size = 700\<rparr>)"
    "file_lookup (damaged_sector [0, 0, 0x50, 0]) sample_name = Some (sample_bpb, \<lparr>first_cluster = 2, file_size = 0x500000\<rparr>)"
    by (simp_all add: file_lookup_def damaged_parse sample_names dir_lookup_Cons)
      (simp_all add: sample_entry_def fs_consts plain_file_def entry_of_def)
qed

lemma damaged_chain: "\<not> reaches_reserved (damaged_sector sz) sample_bpb 2"
proof -
  have next2: "fat_next (damaged_sector sz) sample_bpb 2 = Some 2"
    by (simp add: fat_next_def fat_entry_def) (simp add: sample_bpb_def damaged_sector_def)
  have "c = 2" if "(\<lambda>x y. fat_next (damaged_sector sz) sample_bpb x = Some y)\<^sup>*\<^sup>* 2 c" for c
    using that by induction (simp_all add: next2)
  then show ?thesis by (auto simp: reaches_reserved_def)
qed

theorem read_file_terminates_witness:
  "(\<exists>data d'. read_file (fs_read_sector (ref_io (\<lambda>_. damaged_sector [0xBC, 2, 0, 0]))) (\<lambda>n. n \<le> 4194304) sample_name ref_idle
      = Some (Inr (Some data, d')))
   \<and> read_file (fs_read_sector (ref_io (\<lambda>_. damaged_sector [0, 0, 0x50, 0]))) (\<lambda>n. n \<le> 4194304) sample_name ref_idle
      = Some (panic ''memory allocation failed'')"
proof
  have spc: "0 < unat (sectors_per_cluster sample_bpb)" by (simp add: sample_bpb_def)
  show "\<exists>data d'. read_file (fs_read_sector (ref_io (\<lambda>_. damaged_sector [0xBC, 2, 0, 0]))) (\<lambda>n. n \<le> 4194304) sample_name ref_idle
      = Some (Inr (Some data, d'))"
    using read_file_terminates [OF damaged_disk_ready [of "[0xBC, 2, 0, 0]"], where name = sample_name and room = "\<lambda>n. n \<le> 4194304"]
      damaged_file damaged_chain spc by (auto simp: too_big_def)
  show "read_file (fs_read_sector (ref_io (\<lambda>_. damaged_sector [0, 0, 0x50, 0]))) (\<lambda>n. n \<le> 4194304) sample_name ref_idle
      = Some (panic ''memory allocation failed'')"
    using read_file_terminates [OF damaged_disk_ready [of "[0, 0, 0x50, 0]"], where name = sample_name and room = "\<lambda>n. n \<le> 4194304"]
      damaged_file damaged_chain spc by (auto simp: too_big_def)
qed

end
