(* ===== verification/Sched_Inv.thy ===== *)
theory Sched_Inv
  imports Scheduler
begin

text \<open>
  The invariant of the scheduler and what each of its operations does to a state that
  satisfies it.

  The rotation is the running thread followed by the ready queue. The invariant says that
  the rotation and the pending zombie are distinct occupied slots and that the boot thread is
  in the rotation; it is what makes every lookup of the source succeed. It does not say that
  an occupied slot is in the rotation: see the theory on interleavings for a schedule that
  loses one.
\<close>

definition HEAP_START :: u64 where "HEAP_START = 0x444444440000"
definition HEAP_SIZE :: u64 where "HEAP_SIZE = 4 * 1024 * 1024"

definition HEAP_END :: nat where "HEAP_END = unat HEAP_START + unat HEAP_SIZE"

text \<open>
  The contract of the global allocator, over the blocks that are live in a state of the heap:
  a block is aligned, inside the heap and apart from every live block; freeing a live block
  makes it not live.
\<close>

definition apart :: "u64 \<times> u64 \<Rightarrow> u64 \<times> u64 \<Rightarrow> bool" where
  "apart b c \<longleftrightarrow> unat (fst b) + unat (snd b) \<le> unat (fst c) \<or> unat (fst c) + unat (snd c) \<le> unat (fst b)"

definition heap_laws :: "('h, 'd) platform \<Rightarrow> ('h \<Rightarrow> (u64 \<times> u64) set) \<Rightarrow> bool" where
  "heap_laws p blocks \<longleftrightarrow>
     (\<forall>sz align h b h'. heap_alloc p sz align h = (b, h') \<longrightarrow>
        (if b = 0 then blocks h' = blocks h
         else unat b mod unat align = 0 \<and> HEAP_START \<le> b \<and> unat b + unat sz \<le> HEAP_END
           \<and> (\<forall>c\<in>blocks h. apart (b, sz) c) \<and> blocks h' = insert (b, sz) (blocks h)))
   \<and> (\<forall>b sz align h. (b, sz) \<in> blocks h \<longrightarrow> blocks (heap_dealloc p b sz align h) = blocks h - {(b, sz)})"

lemma heap_alloc_law:
  assumes "heap_laws p blocks" and "heap_alloc p sz align h = (b, h')" and "b \<noteq> 0"
  shows "unat b mod unat align = 0" "HEAP_START \<le> b" "unat b + unat sz \<le> HEAP_END"
    "\<forall>c\<in>blocks h. apart (b, sz) c" "blocks h' = insert (b, sz) (blocks h)"
  using assms unfolding heap_laws_def by metis+

lemma heap_dealloc_law:
  "heap_laws p blocks \<Longrightarrow> (b, sz) \<in> blocks h \<Longrightarrow> blocks (heap_dealloc p b sz align h) = blocks h - {(b, sz)}"
  unfolding heap_laws_def by metis

section \<open>The invariant\<close>

definition thread_ok :: "x86_api \<Rightarrow> thread \<Rightarrow> bool" where
  "thread_ok x t \<longleftrightarrow> files_ok t \<and> virt_try_new x (kernel_stack_top t) \<noteq> None
     \<and> unat (stack_base t) + unat (stack_size t) < 2 ^ 64 \<and> unat (stack_size t) + 4095 < 2 ^ 63"

definition rotation :: "scheduler_state \<Rightarrow> nat list" where
  "rotation st = current st # queued (ready_queue st)"

definition zombies :: "scheduler_state \<Rightarrow> nat list" where
  "zombies st = (case zombie st of None \<Rightarrow> [] | Some z \<Rightarrow> [z])"

definition occupied :: "scheduler_state \<Rightarrow> nat set" where
  "occupied st = {i. i < length (threads st) \<and> threads st ! i \<noteq> None}"

definition sched_ok :: "x86_api \<Rightarrow> scheduler_state \<Rightarrow> bool" where
  "sched_ok x st \<longleftrightarrow> length (threads st) = MAX_THREADS \<and> length (slot_generations st) = MAX_THREADS
     \<and> queue_ok (ready_queue st) \<and> distinct (rotation st @ zombies st)
     \<and> set (rotation st @ zombies st) \<subseteq> occupied st \<and> 0 \<in> set (rotation st)
     \<and> (\<forall>t. Some t \<in> set (threads st) \<longrightarrow> thread_ok x t)"

definition kernel_ok :: "x86_api \<Rightarrow> ('h, 'd) kernel \<Rightarrow> bool" where
  "kernel_ok x k \<longleftrightarrow> (case scheduler k of None \<Rightarrow> False | Some st \<Rightarrow> sched_ok x st)"

named_theorems sched_simps \<open>unfolding of the scheduler's small definitions\<close>

lemmas [sched_simps] = rotation_def zombies_def occupied_def set_thread_def disable_def
  restore_interrupts_def without_interrupts_def cr3_write_def

lemma kernel_okE:
  assumes "kernel_ok x k"
  obtains st where "scheduler k = Some st" "sched_ok x st"
  using assms by (auto simp: kernel_ok_def split: option.splits)

lemma sched_okD:
  assumes "sched_ok x st"
  shows "length (threads st) = MAX_THREADS" "length (slot_generations st) = MAX_THREADS"
    "queue_ok (ready_queue st)" "distinct (rotation st @ zombies st)"
    "set (rotation st @ zombies st) \<subseteq> occupied st" "0 \<in> set (rotation st)"
    "\<And>t. Some t \<in> set (threads st) \<Longrightarrow> thread_ok x t"
  using assms by (simp_all add: sched_ok_def)

lemma sched_ok_thread:
  assumes "sched_ok x st" and "i \<in> set (rotation st @ zombies st)"
  obtains t where "i < length (threads st)" "threads st ! i = Some t" "thread_ok x t"
proof -
  have "i \<in> occupied st" using sched_okD(5) [OF assms(1)] assms(2) by blast
  then obtain t where t: "i < length (threads st)" "threads st ! i = Some t" by (auto simp: occupied_def)
  then have "Some t \<in> set (threads st)" by (metis nth_mem)
  then show ?thesis using sched_okD(7) [OF assms(1)] t that by blast
qed

text \<open>The rotation never fills the queue: it is at most 16 distinct slots, one of them running.\<close>

lemma queue_room:
  assumes "sched_ok x st"
  shows "length (queued (ready_queue st)) < MAX_THREADS"
proof -
  have "set (rotation st) \<subseteq> {..<MAX_THREADS}"
    using sched_okD(1,5) [OF assms] by (auto simp: occupied_def)
  then have "card (set (rotation st)) \<le> MAX_THREADS" using card_mono [of "{..<MAX_THREADS}"] by simp
  moreover have "distinct (rotation st)" using sched_okD(4) [OF assms] by simp
  ultimately have "length (rotation st) \<le> MAX_THREADS" by (simp add: distinct_card)
  then show ?thesis by (simp add: rotation_def)
qed

lemma thread_at_Some: "i < length (threads st) \<Longrightarrow> threads st ! i = Some t \<Longrightarrow> thread_at msg st i = Inr t"
  by (simp add: thread_at_def)

lemma occupied_set_thread:
  "occupied (set_thread i (Some t) st) = (if i < length (threads st) then insert i (occupied st) else occupied st)"
  by (auto simp: occupied_def set_thread_def nth_list_update)

lemma occupied_clear: "i < length (threads st) \<Longrightarrow> occupied (set_thread i None st) = occupied st - {i}"
  by (auto simp: occupied_def set_thread_def nth_list_update split: if_splits)

lemma threads_ok_update:
  assumes "\<And>t. Some t \<in> set (threads st) \<Longrightarrow> thread_ok x t" and "\<And>t. v = Some t \<Longrightarrow> thread_ok x t"
    and "Some t \<in> set (threads (set_thread i v st))"
  shows "thread_ok x t"
  using assms set_update_subset_insert [of "threads st" i v] by (auto simp: set_thread_def)

section \<open>Switching\<close>

lemma switch_threads_eq:
  assumes "previous < length (threads st)" "threads st ! previous = Some t"
    and "nxt < length (threads st)" "threads st ! nxt = Some u"
    and "virt_try_new (x86 p) (kernel_stack_top u) = Some tos"
    and "call_switch_to ret (stack_pointer u) (case page_table u of None \<Rightarrow> kernel_page_table st | Some l4 \<Rightarrow> l4)
      (cpu_regs k) = (sp, c)"
  shows "switch_threads p ret were previous nxt st k = Inr (restore_interrupts (interrupts_were_enabled u = Some True)
     (k\<lparr>scheduler := Some (set_thread previous (Some (t\<lparr>stack_pointer := sp, interrupts_were_enabled := were\<rparr>)) st),
        cpu_regs := c, rsp0 := tos\<rparr>))"
  using assms by (simp add: switch_threads_def thread_at_Some virt_new_def Let_def)

text \<open>The page table of a thread: its own, or the kernel's.\<close>

definition space_of :: "scheduler_state \<Rightarrow> thread \<Rightarrow> phys_frame" where
  "space_of st t = (case page_table t of None \<Rightarrow> kernel_page_table st | Some l4 \<Rightarrow> l4)"

text \<open>
  The state after a switch from thread \<open>previous\<close> to thread \<open>nxt\<close>: both records, the registers,
  RSP0 and the interrupt flag.
\<close>

definition switched ::
  "('h, 'd) platform \<Rightarrow> u64 \<Rightarrow> bool option \<Rightarrow> nat \<Rightarrow> nat \<Rightarrow> scheduler_state \<Rightarrow> ('h, 'd) kernel \<Rightarrow> ('h, 'd) kernel \<Rightarrow> bool" where
  "switched p ret were previous nxt st k k' \<longleftrightarrow>
     (\<exists>t u tos sp c. threads st ! previous = Some t \<and> threads st ! nxt = Some u
       \<and> virt_try_new (x86 p) (kernel_stack_top u) = Some tos
       \<and> call_switch_to ret (stack_pointer u) (space_of st u) (cpu_regs k) = (sp, c)
       \<and> k' = k\<lparr>scheduler := Some (set_thread previous (Some (t\<lparr>stack_pointer := sp, interrupts_were_enabled := were\<rparr>)) st),
            cpu_regs := c, rsp0 := tos, interrupts_enabled := (interrupts_were_enabled u = Some True)\<rparr>)"

lemma switch_threads_switched:
  assumes "sched_ok x st0" and "x = x86 p" and "threads st = threads st0" and "\<not> interrupts_enabled k"
    and "previous \<in> set (rotation st0)" and "nxt \<in> set (rotation st0)"
  shows "\<exists>k'. switch_threads p ret were previous nxt st k = Inr k' \<and> switched p ret were previous nxt st k k'"
proof -
  obtain t where t: "previous < length (threads st0)" "threads st0 ! previous = Some t"
    by (rule sched_ok_thread [OF assms(1), of previous]) (use assms(5) in auto)
  obtain u where u: "nxt < length (threads st0)" "threads st0 ! nxt = Some u" "thread_ok x u"
    by (rule sched_ok_thread [OF assms(1), of nxt]) (use assms(6) in auto)
  obtain tos where tos: "virt_try_new (x86 p) (kernel_stack_top u) = Some tos"
    using u(3) assms(2) by (auto simp: thread_ok_def)
  obtain sp c where sc: "call_switch_to ret (stack_pointer u) (space_of st u) (cpu_regs k) = (sp, c)" by fastforce
  have k: "k\<lparr>interrupts_enabled := False\<rparr> = k" using assms(4) by simp
  have "switch_threads p ret were previous nxt st k = Inr (restore_interrupts (interrupts_were_enabled u = Some True)
     (k\<lparr>scheduler := Some (set_thread previous (Some (t\<lparr>stack_pointer := sp, interrupts_were_enabled := were\<rparr>)) st),
        cpu_regs := c, rsp0 := tos\<rparr>))"
    by (rule switch_threads_eq) (use assms(3) t u tos sc in \<open>simp_all add: space_of_def\<close>)
  then show ?thesis
    using t u tos sc assms(3,4) unfolding switched_def
    by (cases "interrupts_were_enabled u = Some True") (auto simp: restore_interrupts_def)
qed

lemma schedule_switch_empty:
  assumes "scheduler k = Some st" and "sched_ok x st" and "queued (ready_queue st) = []"
  shows "schedule_switch p k = Inr k"
proof -
  have "pop_front (ready_queue st) = Inr (None, ready_queue st)"
    using pop_front_queued(1) [OF sched_okD(3) [OF assms(2)] assms(3)] .
  then show ?thesis using assms(1) by (simp add: schedule_switch_def Let_def sched_simps)
qed

lemma schedule_switch_rotates:
  assumes k: "scheduler k = Some st" and ok: "sched_ok (x86 p) st" and q: "queued (ready_queue st) = n # ns"
  shows "\<exists>k' q'. schedule_switch p k = Inr k' \<and> queue_ok q' \<and> queued q' = ns @ [current st]
    \<and> switched p (schedule_return_addr p) (Some (interrupts_enabled k)) (current st) n
        (st\<lparr>ready_queue := q', current := n\<rparr>) (disable k) k'"
proof -
  obtain q1 where q1: "pop_front (ready_queue st) = Inr (Some n, q1)" "queue_ok q1" "queued q1 = ns"
    using pop_front_queued(2) [OF sched_okD(3) [OF ok] q] by blast
  have "length (queued q1) < MAX_THREADS" using queue_room [OF ok] q q1(3) by simp
  then obtain q2 where q2: "push_back (current st) q1 = Inr q2" "queue_ok q2" "queued q2 = ns @ [current st]"
    using push_back_queued [OF q1(2)] q1(3) by metis
  have "\<exists>k'. switch_threads p (schedule_return_addr p) (Some (interrupts_enabled k)) (current st) n
      (st\<lparr>ready_queue := q2, current := n\<rparr>) (disable k) = Inr k'
    \<and> switched p (schedule_return_addr p) (Some (interrupts_enabled k)) (current st) n
        (st\<lparr>ready_queue := q2, current := n\<rparr>) (disable k) k'"
    by (rule switch_threads_switched [OF ok]) (use q in \<open>simp_all add: disable_def rotation_def\<close>)
  moreover have "schedule_switch p k = switch_threads p (schedule_return_addr p) (Some (interrupts_enabled k))
      (current st) n (st\<lparr>ready_queue := q2, current := n\<rparr>) (disable k)"
    using k q1(1) q2(1) by (simp add: schedule_switch_def Let_def disable_def)
  ultimately show ?thesis using q2(2,3) by auto
qed

lemma exit_switch_leaves:
  assumes k: "scheduler k = Some st" and ok: "sched_ok (x86 p) st" and c: "current st \<noteq> 0"
  shows "\<exists>k' q' n ns. queued (ready_queue st) = n # ns \<and> exit_switch p k = Inr k' \<and> queue_ok q' \<and> queued q' = ns
    \<and> switched p (exit_return_addr p) None (current st) n
        (st\<lparr>ready_queue := q', current := n, zombie := Some (current st)\<rparr>) (disable k) k'"
proof -
  have "queued (ready_queue st) \<noteq> []" using sched_okD(6) [OF ok] c by (auto simp: rotation_def)
  then obtain n ns where q: "queued (ready_queue st) = n # ns" by (cases "queued (ready_queue st)") auto
  obtain q1 where q1: "pop_front (ready_queue st) = Inr (Some n, q1)" "queue_ok q1" "queued q1 = ns"
    using pop_front_queued(2) [OF sched_okD(3) [OF ok] q] by blast
  let ?st = "st\<lparr>ready_queue := q1, current := n, zombie := Some (current st)\<rparr>"
  have "\<exists>k'. switch_threads p (exit_return_addr p) None (current st) n ?st (disable k) = Inr k'
    \<and> switched p (exit_return_addr p) None (current st) n ?st (disable k) k'"
    by (rule switch_threads_switched [OF ok]) (use q in \<open>simp_all add: disable_def rotation_def\<close>)
  moreover have "exit_switch p k = switch_threads p (exit_return_addr p) None (current st) n ?st (disable k)"
    using k q1(1) c by (simp add: exit_switch_def Let_def disable_def)
  ultimately show ?thesis using q q1(2,3) by auto
qed

lemma exit_switch_boot:
  "scheduler k = Some st \<Longrightarrow> current st = 0 \<Longrightarrow> exit_switch p k = panic ''the boot thread can't exit''"
  by (simp add: exit_switch_def Let_def disable_def)

section \<open>Preservation\<close>

lemma sched_ok_set_thread:
  assumes "sched_ok x st" and "thread_ok x t"
  shows "sched_ok x (set_thread i (Some t) st)"
proof -
  have "\<And>u. Some u \<in> set (threads (set_thread i (Some t) st)) \<Longrightarrow> thread_ok x u"
    by (rule threads_ok_update [OF sched_okD(7) [OF assms(1)]]) (use assms(2) in auto)
  moreover have "occupied st \<subseteq> occupied (set_thread i (Some t) st)" by (simp add: occupied_set_thread subset_insertI)
  ultimately show ?thesis
    using sched_okD [OF assms(1)] unfolding sched_ok_def
    by (simp add: set_thread_def rotation_def zombies_def) blast
qed

lemma sched_ok_rotate:
  assumes "sched_ok x st" and "queued (ready_queue st) = n # ns" and "queue_ok q" and "queued q = ns @ [current st]"
  shows "sched_ok x (st\<lparr>ready_queue := q, current := n\<rparr>)"
  using assms unfolding sched_ok_def by (auto simp: rotation_def zombies_def occupied_def)

lemma sched_ok_leave:
  assumes "sched_ok x st" and "queued (ready_queue st) = n # ns" and "queue_ok q" and "queued q = ns" and "current st \<noteq> 0"
  shows "sched_ok x (st\<lparr>ready_queue := q, current := n, zombie := Some (current st)\<rparr>)"
  using assms unfolding sched_ok_def by (auto simp: rotation_def zombies_def occupied_def)

lemma sched_ok_current:
  assumes "sched_ok x st"
  obtains t where "current st < length (threads st)" "threads st ! current st = Some t" "thread_ok x t"
  by (rule sched_ok_thread [OF assms, of "current st"]) (simp_all add: rotation_def)

lemma thread_ok_update:
  "thread_ok x (t\<lparr>stack_pointer := sp, interrupts_were_enabled := w\<rparr>) = thread_ok x t"
  "thread_ok x (t\<lparr>entry := e\<rparr>) = thread_ok x t"
  "thread_ok x (t\<lparr>user_entry := ue\<rparr>) = thread_ok x t"
  by (simp_all add: thread_ok_def files_ok_def)

lemma switched_ok:
  assumes "switched p ret were previous nxt st k k'" and "sched_ok x st" and "previous \<in> occupied st"
  shows "\<exists>t sp. threads st ! previous = Some t \<and>
    scheduler k' = Some (set_thread previous (Some (t\<lparr>stack_pointer := sp, interrupts_were_enabled := were\<rparr>)) st)
    \<and> sched_ok x (set_thread previous (Some (t\<lparr>stack_pointer := sp, interrupts_were_enabled := were\<rparr>)) st)"
proof -
  obtain t sp where t: "threads st ! previous = Some t"
    "scheduler k' = Some (set_thread previous (Some (t\<lparr>stack_pointer := sp, interrupts_were_enabled := were\<rparr>)) st)"
    using assms(1) by (auto simp: switched_def)
  have "Some t \<in> set (threads st)" using assms(3) t(1) by (metis (mono_tags, lifting) mem_Collect_eq nth_mem occupied_def)
  then have "thread_ok x t" by (rule sched_okD(7) [OF assms(2)])
  then show ?thesis using t sched_ok_set_thread [OF assms(2)] by (auto simp: thread_ok_update)
qed

lemma take_zombie_None: "zombie st = None \<Longrightarrow> take_zombie st = Inr (None, st)"
  by (simp add: take_zombie_def)

lemma take_zombie_Some:
  assumes "sched_ok x st" and z: "zombie st = Some z"
  obtains t where "threads st ! z = Some t" "thread_ok x t" "z < length (threads st)"
    "take_zombie st = Inr (Some (t, kernel_page_table st), set_thread z None (st\<lparr>zombie := None\<rparr>))"
    "sched_ok x (set_thread z None (st\<lparr>zombie := None\<rparr>))"
proof -
  obtain t where t: "z < length (threads st)" "threads st ! z = Some t" "thread_ok x t"
    by (rule sched_ok_thread [OF assms(1), of z]) (use z in \<open>simp_all add: zombies_def\<close>)
  have "take_zombie st = Inr (Some (t, kernel_page_table st), set_thread z None (st\<lparr>zombie := None\<rparr>))"
    using z t by (simp add: take_zombie_def Let_def)
  moreover have "sched_ok x (set_thread z None (st\<lparr>zombie := None\<rparr>))"
  proof -
    have "z \<notin> set (rotation st)" using sched_okD(4) [OF assms(1)] z by (auto simp: zombies_def)
    moreover have "occupied (set_thread z None (st\<lparr>zombie := None\<rparr>)) = occupied st - {z}"
      using t(1) by (subst occupied_clear) (simp_all add: occupied_def)
    ultimately have "set (rotation st) \<subseteq> occupied (set_thread z None (st\<lparr>zombie := None\<rparr>))"
      using sched_okD(5) [OF assms(1)] by auto
    moreover have "\<And>u. Some u \<in> set (threads (set_thread z None st)) \<Longrightarrow> thread_ok x u"
      by (rule threads_ok_update [OF sched_okD(7) [OF assms(1)]]) auto
    ultimately show ?thesis using sched_okD [OF assms(1)] unfolding sched_ok_def
      by (auto simp: set_thread_def rotation_def zombies_def)
  qed
  ultimately show ?thesis using t that by blast
qed

section \<open>Reaping\<close>

lemma restore_same [simp]: "restore_interrupts (interrupts_enabled k) (disable k) = k"
  by (simp add: restore_interrupts_def disable_def)

lemma restore_scheduler [simp]:
  "restore_interrupts (interrupts_enabled k) ((disable k)\<lparr>scheduler := s\<rparr>) = k\<lparr>scheduler := s\<rparr>"
  by (cases k) (simp add: restore_interrupts_def disable_def)

lemma disable_simps [simp]:
  "scheduler (disable k) = scheduler k" "cpu_regs (disable k) = cpu_regs k" "memory (disable k) = memory k"
  "frames (disable k) = frames k" "heap (disable k) = heap k" "screen (disable k) = screen k"
  "\<not> interrupts_enabled (disable k)"
  by (simp_all add: disable_def)

lemma reap_zombie_None:
  "scheduler k = Some st \<Longrightarrow> zombie st = None \<Longrightarrow> reap_zombie p k = Inr k"
  by (simp add: reap_zombie_def reap_take_def without_interrupts_def take_zombie_None)

lemma reap_zombie_Some:
  assumes "scheduler k = Some st" and "sched_ok x st" and "zombie st = Some z"
  obtains t st' where "threads st ! z = Some t" "thread_ok x t" "z < length (threads st)"
    "st' = set_thread z None (st\<lparr>zombie := None\<rparr>)" "sched_ok x st'"
    "reap_zombie p k = free_thread p t (cr3_write (kernel_page_table st) (k\<lparr>scheduler := Some st'\<rparr>))"
proof -
  obtain t where t: "threads st ! z = Some t" "thread_ok x t" "z < length (threads st)"
    "take_zombie st = Inr (Some (t, kernel_page_table st), set_thread z None (st\<lparr>zombie := None\<rparr>))"
    "sched_ok x (set_thread z None (st\<lparr>zombie := None\<rparr>))"
    by (rule take_zombie_Some [OF assms(2,3)])
  have "reap_zombie p k = free_thread p t (cr3_write (kernel_page_table st)
      (k\<lparr>scheduler := Some (set_thread z None (st\<lparr>zombie := None\<rparr>))\<rparr>))"
    using assms(1) t(4) by (simp add: reap_zombie_def reap_take_def without_interrupts_def)
  with t show ?thesis using that by blast
qed

text \<open>What is needed to free a thread: its address space, when it has one, is well-formed.\<close>

definition space_freeable :: "x86_api \<Rightarrow> ('h, 'd) kernel \<Rightarrow> thread \<Rightarrow> bool" where
  "space_freeable x k t \<longleftrightarrow>
     (case page_table t of
        None \<Rightarrow> True
      | Some l4 \<Rightarrow> global_ok (frames k)
          \<and> (case physical_memory_offset k of None \<Rightarrow> False | Some off \<Rightarrow> space_ok x (memory k) off l4))"

definition stack_range :: "thread \<Rightarrow> u64 \<times> u64" where
  "stack_range t = (stack_base t, stack_base t + stack_size t)"

definition freed_frames :: "x86_api \<Rightarrow> ('h, 'd) kernel \<Rightarrow> thread \<Rightarrow> phys_frame list" where
  "freed_frames x k t =
     (case (page_table t, physical_memory_offset k) of
        (Some l4, Some off) \<Rightarrow> map (\<lambda>q. the (walk_path x (memory k) l4 q)) (space_path_list x (memory k) off (stack_range t) l4)
      | _ \<Rightarrow> [])"

lemma free_thread_frees:
  assumes "thread_ok (x86 p) t" and "space_freeable (x86 p) k t"
  shows "\<exists>fs. free_thread p t k = Inr (k\<lparr>heap := heap_dealloc p (stack_base t) (stack_size t) 4096 (heap k), frames := fs\<rparr>)
    \<and> (page_table t = None \<longrightarrow> fs = frames k) \<and> (global_ok (frames k) \<longrightarrow> global_ok fs)
    \<and> global_avail fs = rev (freed_frames (x86 p) k t) @ global_avail (frames k)"
proof -
  have stack: "add_ovf (stack_base t) (stack_size t) = Inr (stack_base t + stack_size t)"
      "layout_from_size_align (stack_size t) 4096 = Inr ()"
    using assms(1) by (auto simp: thread_ok_def layout_from_size_align_def intro: add_ovf_no_overflow)
  show ?thesis
  proof (cases "page_table t")
    case None
    then show ?thesis using stack by (intro exI [of _ "frames k"]) (simp add: free_thread_def Let_def freed_frames_def)
  next
    case (Some l4)
    then obtain off where off: "physical_memory_offset k = Some off" "space_ok (x86 p) (memory k) off l4" "global_ok (frames k)"
      using assms(2) by (auto simp: space_freeable_def split: option.splits)
    then have "x86_laws x86_ref \<and> global_ok (frames k)" using x86_ref_laws by simp
    from global_frames.free_address_space_frees [OF off(2) this, of "stack_range t"]
    obtain fs where fs: "free_address_space (x86 p) (memory k) global_deallocate_frame l4 off (stack_range t) (frames k) = Inr fs"
      "global_ok fs" "global_avail fs = rev (freed_frames (x86 p) k t) @ global_avail (frames k)"
      using Some off(1) by (auto simp: freed_frames_def)
    then show ?thesis using stack Some off(1)
      by (intro exI [of _ fs]) (simp add: free_thread_def Let_def stack_range_def)
  qed
qed

section \<open>Spawning\<close>

lemma heap_end_low: "HEAP_END < 2 ^ 47"
  by (simp add: HEAP_END_def HEAP_START_def HEAP_SIZE_def)

lemma stack_size_nat: "unat STACK_SIZE = 65536"
  by (simp add: STACK_SIZE_def)

lemma new_thread_ok:
  assumes "x86_laws x" and "unat base + 65536 \<le> HEAP_END"
  shows "thread_ok x (new_thread sp base start l4 (base + STACK_SIZE) user)"
proof -
  have low: "unat base + 65536 < 2 ^ 47" using assms(2) heap_end_low by simp
  then have u: "unat (base + STACK_SIZE) = unat base + 65536"
    using stack_size_nat by (simp add: unat_word_ariths)
  then have "canonical (base + STACK_SIZE)" using lower_half [of "base + STACK_SIZE"] low by simp
  then have "virt_try_new x (base + STACK_SIZE) = Some (base + STACK_SIZE)"
    using assms(1) by (simp add: x86_laws_def)
  then show ?thesis
    using low stack_size_nat by (simp add: thread_ok_def new_thread_def files_ok_def)
qed

text \<open>A new thread in slot \<open>i\<close>: the effect of both ways of spawning on a kernel.\<close>

definition spawned ::
  "('h, 'd) platform \<Rightarrow> u64 \<Rightarrow> phys_frame option \<Rightarrow> (virt_addr \<times> virt_addr \<times> virt_addr \<times> u64) option \<Rightarrow> nat
   \<Rightarrow> ('h, 'd) kernel \<Rightarrow> ('h, 'd) kernel \<Rightarrow> bool" where
  "spawned p start l4 user i k k' \<longleftrightarrow> (\<exists>st q base mem.
     scheduler k = Some st \<and> base \<noteq> 0 \<and> heap_alloc p STACK_SIZE 4096 (heap k) = (base, heap k')
     \<and> position (\<lambda>t. t = None) (threads st) = Some i \<and> unat (slot_generations st ! i) + 1 < 2 ^ 64
     \<and> saved_frame mem (base + STACK_SIZE - 64) = [0, 0, 0, 0, 0, 0, thread_trampoline_addr p]
     \<and> (\<forall>a. a \<notin> frame_addrs (base + STACK_SIZE - 64) \<longrightarrow> mem a = stack_mem (cpu_regs k) a)
     \<and> push_back i (ready_queue st) = Inr q
     \<and> k' = k\<lparr>heap := heap k', frames := frames k', memory := memory k',
         cpu_regs := (cpu_regs k)\<lparr>stack_mem := mem\<rparr>,
         scheduler := Some (set_thread i (Some (new_thread (base + STACK_SIZE - 64) base start l4 (base + STACK_SIZE) user))
           (st\<lparr>slot_generations := (slot_generations st)[i := slot_generations st ! i + 1], ready_queue := q\<rparr>))\<rparr>)"

lemma alloc_stack_Inr:
  assumes "heap_laws p blocks" and "alloc_stack p k = Inr ((base, sp), k')"
  shows "\<exists>h mem. heap_alloc p STACK_SIZE 4096 (heap k) = (base, h) \<and> base \<noteq> 0
    \<and> unat base + 65536 \<le> HEAP_END \<and> sp = base + STACK_SIZE - 64
    \<and> saved_frame mem sp = [0, 0, 0, 0, 0, 0, thread_trampoline_addr p]
    \<and> (\<forall>a. a \<notin> frame_addrs sp \<longrightarrow> mem a = stack_mem (cpu_regs k) a)
    \<and> k' = k\<lparr>heap := h, cpu_regs := (cpu_regs k)\<lparr>stack_mem := mem\<rparr>\<rparr>"
proof -
  obtain b h where a: "heap_alloc p STACK_SIZE 4096 (heap k) = (b, h)" by fastforce
  have b: "b \<noteq> 0" using assms(2) a by (auto simp: alloc_stack_def split: if_splits)
  have le: "unat b + 65536 \<le> HEAP_END" using heap_alloc_law(3) [OF assms(1) a b] stack_size_nat by simp
  then have "unat b + unat STACK_SIZE < 2 ^ 64" using heap_end_low stack_size_nat by simp
  then obtain mem where m: "build_initial_stack (thread_trampoline_addr p) b (stack_mem (cpu_regs k))
        = Inr (b + STACK_SIZE - 64, mem)"
      "saved_frame mem (b + STACK_SIZE - 64) = [0, 0, 0, 0, 0, 0, thread_trampoline_addr p]"
      "\<And>a. a \<notin> frame_addrs (b + STACK_SIZE - 64) \<Longrightarrow> mem a = stack_mem (cpu_regs k) a"
    using build_initial_stack_frame by blast
  have eq: "base = b" "sp = b + STACK_SIZE - 64" "k' = k\<lparr>heap := h, cpu_regs := (cpu_regs k)\<lparr>stack_mem := mem\<rparr>\<rparr>"
    using assms(2) a b m(1) by (auto simp: alloc_stack_def)
  show ?thesis using a b le m(2,3) eq by (intro exI [of _ h] exI [of _ mem]) simp
qed

lemma add_thread_Inr:
  assumes "add_thread base sp start l4 user st = Inr ((i, g), st')" and "unat base + 65536 \<le> HEAP_END"
  shows "position (\<lambda>t. t = None) (threads st) = Some i" "i < length (slot_generations st)"
    "g = slot_generations st ! i + 1" "unat (slot_generations st ! i) + 1 < 2 ^ 64"
    "\<exists>q. push_back i (ready_queue st) = Inr q
       \<and> st' = set_thread i (Some (new_thread sp base start l4 (base + STACK_SIZE) user))
           (st\<lparr>slot_generations := (slot_generations st)[i := slot_generations st ! i + 1], ready_queue := q\<rparr>)"
proof -
  have "unat base + unat STACK_SIZE < 2 ^ 64" using assms(2) heap_end_low stack_size_nat by simp
  then have kst: "add_ovf base STACK_SIZE = Inr (base + STACK_SIZE)" by (intro add_ovf_no_overflow) simp
  obtain j where j: "position (\<lambda>t. t = None) (threads st) = Some j"
    using assms(1) by (cases "position (\<lambda>t. t = None) (threads st)") (auto simp: add_thread_def)
  have jl: "j < length (slot_generations st)"
    using assms(1) j by (cases "j < length (slot_generations st)") (simp_all add: add_thread_def index_at_def)
  obtain g' where g': "add_ovf (slot_generations st ! j) 1 = Inr g'"
    using assms(1) j jl by (cases "add_ovf (slot_generations st ! j) 1") (auto simp: add_thread_def)
  then have ug: "unat (slot_generations st ! j) + 1 = unat g'" by (simp add: add_ovf_Inr_iff)
  then have lt: "unat (slot_generations st ! j) + 1 < 2 ^ 64" using unat_u64_less by metis
  have gg: "g' = slot_generations st ! j + 1"
    using add_ovf_no_overflow [of "slot_generations st ! j" 1] g' lt by simp
  obtain q where q: "push_back j (ready_queue st) = Inr q"
    using assms(1) j jl g' kst
    by (cases "push_back j (ready_queue st)") (auto simp: add_thread_def set_thread_def Let_def)
  have "i = j \<and> g = g' \<and> st' = set_thread j (Some (new_thread sp base start l4 (base + STACK_SIZE) user))
           (st\<lparr>slot_generations := (slot_generations st)[j := g'], ready_queue := q\<rparr>)"
    using assms(1) j jl g' kst q by (auto simp: add_thread_def set_thread_def Let_def)
  then show "position (\<lambda>t. t = None) (threads st) = Some i" "i < length (slot_generations st)"
    "g = slot_generations st ! i + 1" "unat (slot_generations st ! i) + 1 < 2 ^ 64"
    "\<exists>q. push_back i (ready_queue st) = Inr q
       \<and> st' = set_thread i (Some (new_thread sp base start l4 (base + STACK_SIZE) user))
           (st\<lparr>slot_generations := (slot_generations st)[i := slot_generations st ! i + 1], ready_queue := q\<rparr>)"
    using j jl gg lt q by simp_all
qed

lemma without_interrupts_Inr:
  assumes "without_interrupts body k = Inr (r, k')"
  obtains k1 where "body (disable k) = Inr (r, k1)" "k' = restore_interrupts (interrupts_enabled k) k1"
  using assms by (auto simp: without_interrupts_def bind_result_Inr_iff)

lemma spawnedI:
  assumes "scheduler k = Some st" "heap_alloc p STACK_SIZE 4096 (heap k) = (base, h)" "base \<noteq> 0"
    and "unat base + 65536 \<le> HEAP_END"
    and "saved_frame mem (base + STACK_SIZE - 64) = [0, 0, 0, 0, 0, 0, thread_trampoline_addr p]"
    and "\<forall>a. a \<notin> frame_addrs (base + STACK_SIZE - 64) \<longrightarrow> mem a = stack_mem (cpu_regs k) a"
    and "add_thread base (base + STACK_SIZE - 64) start l4 user st = Inr ((i, g), st')"
  shows "spawned p start l4 user i k
    (k\<lparr>scheduler := Some st', cpu_regs := (cpu_regs k)\<lparr>stack_mem := mem\<rparr>, heap := h, frames := fs, memory := pm\<rparr>)"
proof -
  obtain q where q: "push_back i (ready_queue st) = Inr q"
       "st' = set_thread i (Some (new_thread (base + STACK_SIZE - 64) base start l4 (base + STACK_SIZE) user))
           (st\<lparr>slot_generations := (slot_generations st)[i := slot_generations st ! i + 1], ready_queue := q\<rparr>)"
    using add_thread_Inr(5) [OF assms(7,4)] by blast
  show ?thesis
    unfolding spawned_def using assms(1,2,3,5,6) q add_thread_Inr(1,4) [OF assms(7,4)]
    by (intro exI [of _ st] exI [of _ q] exI [of _ base] exI [of _ mem]) simp
qed

lemma spawn_spawned:
  assumes "heap_laws p blocks" and "spawn p start k = Inr ((), k')"
  shows "\<exists>i. spawned p start None None i k k'"
proof -
  obtain k1 where k1: "k' = restore_interrupts (interrupts_enabled k) k1"
    "bind_result (alloc_stack p (disable k)) (\<lambda>((base, sp), k).
       bind_result (expect ''scheduler::init must be called before spawn'' (scheduler k)) (\<lambda>state.
       bind_result (add_thread base sp start None None state) (\<lambda>(_, state).
       Inr ((), k\<lparr>scheduler := Some state\<rparr>)))) = Inr ((), k1)"
    using assms(2) unfolding spawn_def by (elim without_interrupts_Inr) blast
  then obtain base sp k2 st i g st' where b: "alloc_stack p (disable k) = Inr ((base, sp), k2)" "scheduler k2 = Some st"
      "add_thread base sp start None None st = Inr ((i, g), st')" "k1 = k2\<lparr>scheduler := Some st'\<rparr>"
    by (auto simp: bind_result_Inr_iff)
  obtain h mem where m: "heap_alloc p STACK_SIZE 4096 (heap k) = (base, h)" "base \<noteq> 0"
      "unat base + 65536 \<le> HEAP_END" and sp: "sp = base + STACK_SIZE - 64"
    and f: "saved_frame mem sp = [0, 0, 0, 0, 0, 0, thread_trampoline_addr p]"
      "\<forall>a. a \<notin> frame_addrs sp \<longrightarrow> mem a = stack_mem (cpu_regs k) a"
    and k2: "k2 = (disable k)\<lparr>heap := h, cpu_regs := (cpu_regs k)\<lparr>stack_mem := mem\<rparr>\<rparr>"
    using alloc_stack_Inr [OF assms(1) b(1)] by auto
  have st: "scheduler k = Some st" using b(2) k2 by simp
  have k': "k' = k\<lparr>scheduler := Some st', cpu_regs := (cpu_regs k)\<lparr>stack_mem := mem\<rparr>, heap := h, frames := frames k, memory := memory k\<rparr>"
    unfolding k1(1) b(4) k2 by (cases k) (simp add: restore_interrupts_def disable_def)
  show ?thesis unfolding k' by (rule exI, rule spawnedI [OF st m f [unfolded sp] b(3) [unfolded sp]])
qed

lemma spawn_isolated_spawned:
  assumes "heap_laws p blocks" and "spawn_isolated_inner p start user l4 km im k = Inr (pid, k')"
  shows "\<exists>i st. spawned p start (Some l4) user i k k' \<and> scheduler k = Some st
    \<and> pid = pack_pid i (slot_generations st ! i + 1)"
proof -
  obtain k1 where k1: "k' = restore_interrupts (interrupts_enabled k) k1"
    "bind_result (alloc_stack p (disable k)) (\<lambda>((base, sp), k).
       bind_result (virt_new (x86 p) base) (\<lambda>stack_start.
       let first_page = page_containing (x86 p) stack_start;
           page_count = unat STACK_SIZE div 4096 in
       bind_result (for_each [0..<page_count] (share_stack_page p km im first_page) (memory k, frames k)) (\<lambda>(pm, fs).
       let k = k\<lparr>memory := pm, frames := fs\<rparr> in
       bind_result (expect ''scheduler::init must be called before spawn_isolated'' (scheduler k)) (\<lambda>state.
       bind_result (add_thread base sp start (Some l4) user state) (\<lambda>((i, generation), state).
       Inr (pack_pid i generation, k\<lparr>scheduler := Some state\<rparr>)))))) = Inr (pid, k1)"
    using assms(2) unfolding spawn_isolated_inner_def by (elim without_interrupts_Inr) blast
  then obtain base sp k2 st i g st' pm fs where b: "alloc_stack p (disable k) = Inr ((base, sp), k2)" "scheduler k2 = Some st"
      "add_thread base sp start (Some l4) user st = Inr ((i, g), st')"
      "k1 = k2\<lparr>memory := pm, frames := fs, scheduler := Some st'\<rparr>" "pid = pack_pid i g"
    by (auto simp: bind_result_Inr_iff Let_def)
  obtain h mem where m: "heap_alloc p STACK_SIZE 4096 (heap k) = (base, h)" "base \<noteq> 0"
      "unat base + 65536 \<le> HEAP_END" and sp: "sp = base + STACK_SIZE - 64"
    and f: "saved_frame mem sp = [0, 0, 0, 0, 0, 0, thread_trampoline_addr p]"
      "\<forall>a. a \<notin> frame_addrs sp \<longrightarrow> mem a = stack_mem (cpu_regs k) a"
    and k2: "k2 = (disable k)\<lparr>heap := h, cpu_regs := (cpu_regs k)\<lparr>stack_mem := mem\<rparr>\<rparr>"
    using alloc_stack_Inr [OF assms(1) b(1)] by auto
  have st: "scheduler k = Some st" using b(2) k2 by simp
  have k': "k' = k\<lparr>scheduler := Some st', cpu_regs := (cpu_regs k)\<lparr>stack_mem := mem\<rparr>, heap := h, frames := fs, memory := pm\<rparr>"
    unfolding k1(1) b(4) k2 by (cases k) (simp add: restore_interrupts_def disable_def)
  have "spawned p start (Some l4) user i k k'"
    unfolding k' by (rule spawnedI [OF st m f [unfolded sp] b(3) [unfolded sp]])
  then show ?thesis using st b(5) add_thread_Inr(3) [OF b(3) m(3)] by blast
qed

lemma spawned_base:
  assumes "heap_laws p blocks" and "heap_alloc p STACK_SIZE 4096 h = (base, h')" and "base \<noteq> 0"
  shows "unat base + 65536 \<le> HEAP_END"
  using heap_alloc_law(3) [OF assms] stack_size_nat by simp

lemma sched_ok_spawn:
  assumes ok: "sched_ok x st" and pos: "position (\<lambda>t. t = None) (threads st) = Some i"
    and q: "push_back i (ready_queue st) = Inr q" and t: "thread_ok x t"
  shows "sched_ok x (set_thread i (Some t) (st\<lparr>slot_generations := (slot_generations st)[i := g], ready_queue := q\<rparr>))"
    and "queued q = queued (ready_queue st) @ [i]" and "i \<notin> set (rotation st @ zombies st)" and "i < MAX_THREADS"
    and "threads st ! i = None"
proof -
  have i: "i < length (threads st)" "threads st ! i = None" using pos by (auto simp: position_Some_iff)
  then show "i < MAX_THREADS" "threads st ! i = None" using sched_okD(1) [OF ok] by simp_all
  show new: "i \<notin> set (rotation st @ zombies st)" using sched_okD(5) [OF ok] i by (auto simp: occupied_def)
  obtain q' where "push_back i (ready_queue st) = Inr q'" "queue_ok q'" "queued q' = queued (ready_queue st) @ [i]"
    using push_back_queued [OF sched_okD(3) [OF ok] queue_room [OF ok]] by blast
  with q show qq: "queued q = queued (ready_queue st) @ [i]" by simp
  have qok: "queue_ok q" using q \<open>push_back i (ready_queue st) = Inr q'\<close> \<open>queue_ok q'\<close> by simp
  let ?st = "st\<lparr>slot_generations := (slot_generations st)[i := g], ready_queue := q\<rparr>"
  have "occupied (set_thread i (Some t) ?st) = insert i (occupied st)"
    using i by (subst occupied_set_thread) (simp add: occupied_def)
  moreover have "\<And>u. Some u \<in> set (threads (set_thread i (Some t) st)) \<Longrightarrow> thread_ok x u"
    by (rule threads_ok_update [OF sched_okD(7) [OF ok]]) (use t in auto)
  ultimately show "sched_ok x (set_thread i (Some t) ?st)"
    using sched_okD [OF ok] new qq qok unfolding sched_ok_def
    by (auto simp: set_thread_def rotation_def zombies_def)
qed

lemma spawned_ok:
  assumes "heap_laws p blocks" and "x86_laws (x86 p)" and "kernel_ok (x86 p) k" and "spawned p start l4 user i k k'"
  shows "kernel_ok (x86 p) k'"
proof -
  obtain st q base mem where s: "scheduler k = Some st" "base \<noteq> 0" "heap_alloc p STACK_SIZE 4096 (heap k) = (base, heap k')"
     "position (\<lambda>t. t = None) (threads st) = Some i" "push_back i (ready_queue st) = Inr q"
     "k' = k\<lparr>heap := heap k', frames := frames k', memory := memory k', cpu_regs := (cpu_regs k)\<lparr>stack_mem := mem\<rparr>,
         scheduler := Some (set_thread i (Some (new_thread (base + STACK_SIZE - 64) base start l4 (base + STACK_SIZE) user))
           (st\<lparr>slot_generations := (slot_generations st)[i := slot_generations st ! i + 1], ready_queue := q\<rparr>))\<rparr>"
    using assms(4) unfolding spawned_def by blast
  have ok: "sched_ok (x86 p) st" using assms(3) s(1) by (simp add: kernel_ok_def)
  have "thread_ok (x86 p) (new_thread (base + STACK_SIZE - 64) base start l4 (base + STACK_SIZE) user)"
    by (rule new_thread_ok [OF assms(2) spawned_base [OF assms(1) s(3,2)]])
  from sched_ok_spawn(1) [OF ok s(4,5) this] show ?thesis
    by (subst s(6)) (simp add: kernel_ok_def)
qed

section \<open>Operations of the running thread\<close>

lemma with_current_thread_eq:
  assumes "scheduler k = Some st" and "sched_ok x st" and "threads st ! current st = Some t" and "f t = Inr (r, t')"
  shows "with_current_thread f k = Inr (r, k\<lparr>scheduler := Some (set_thread (current st) (Some t') st)\<rparr>)"
proof -
  have "current st < length (threads st)" using sched_ok_current [OF assms(2)] by blast
  then have "thread_at msg st (current st) = Inr t" for msg using assms(3) by (rule thread_at_Some)
  then show ?thesis
    using assms(1,4) by (cases k) (simp add: with_current_thread_def without_interrupts_def Let_def disable_def
      restore_interrupts_def cr3_write_def)
qed

lemma thread_trampoline_eq:
  assumes "scheduler k = Some st" and "sched_ok x st" and "threads st ! current st = Some t" and "entry t = Some e"
  shows "thread_trampoline k = Inr (e, k\<lparr>scheduler := Some (set_thread (current st) (Some (t\<lparr>entry := None\<rparr>)) st),
    interrupts_enabled := True\<rparr>)"
proof -
  have "current st < length (threads st)" using sched_ok_current [OF assms(2)] by blast
  then show ?thesis
    using assms by (cases k) (simp add: thread_trampoline_def without_interrupts_def disable_def restore_interrupts_def)
qed

lemma thread_trampoline_Inr:
  assumes "scheduler k = Some st" and "sched_ok x st" and "thread_trampoline k = Inr (e, k')"
  obtains t where "threads st ! current st = Some t" "entry t = Some e"
proof -
  obtain t where t: "current st < length (threads st)" "threads st ! current st = Some t"
    using sched_ok_current [OF assms(2)] by blast
  then have "entry t = Some e"
    using assms(1,3) by (cases "entry t") (auto simp: thread_trampoline_def without_interrupts_def)
  with t show ?thesis using that by blast
qed

lemma ring3_trampoline_eq:
  assumes "scheduler k = Some st" and "sched_ok x st" and "threads st ! current st = Some t" and "user_entry t = Some e"
  shows "ring3_trampoline k = Inr (e, k\<lparr>scheduler := Some (set_thread (current st) (Some (t\<lparr>user_entry := None\<rparr>)) st)\<rparr>)"
proof -
  have "current st < length (threads st)" using sched_ok_current [OF assms(2)] by blast
  then show ?thesis
    using assms by (simp add: ring3_trampoline_def without_interrupts_def)
qed

lemma ring3_trampoline_Inr:
  assumes "scheduler k = Some st" and "sched_ok x st" and "ring3_trampoline k = Inr (e, k')"
  obtains t where "threads st ! current st = Some t" "user_entry t = Some e"
proof -
  obtain t where t: "current st < length (threads st)" "threads st ! current st = Some t"
    using sched_ok_current [OF assms(2)] by blast
  then have "user_entry t = Some e"
    using assms(1,3) by (cases "user_entry t") (auto simp: ring3_trampoline_def without_interrupts_def)
  with t show ?thesis using that by blast
qed

section \<open>The initial state\<close>

definition initial_state :: "phys_frame \<Rightarrow> scheduler_state" where
  "initial_state l4 = \<lparr>threads = Some boot_thread # replicate 15 None, ready_queue = ReadyQueue_new, current = 0,
     kernel_page_table = l4, zombie = None, slot_generations = 1 # replicate 15 0\<rparr>"

lemma init_eq: "init k = Inr ((), k\<lparr>scheduler := Some (initial_state (cr3 (cpu_regs k)))\<rparr>)"
proof -
  have "map (\<lambda>i. if i = 0 then Some boot_thread else None) [0..<MAX_THREADS] = Some boot_thread # replicate 15 None"
    by (simp add: MAX_THREADS_def upt_rec numeral_eq_Suc)
  moreover have "(replicate MAX_THREADS 0)[0 := 1] = (1 :: u64) # replicate 15 0"
    by (simp add: MAX_THREADS_def numeral_eq_Suc)
  ultimately show ?thesis
    by (simp add: init_def without_interrupts_def initial_state_def)
qed

lemma initial_state_ok: "x86_laws x \<Longrightarrow> sched_ok x (initial_state l4)"
proof -
  assume x: "x86_laws x"
  have "canonical 0" using lower_half [of 0] by simp
  then have "virt_try_new x 0 = Some 0" using x by (simp add: x86_laws_def)
  then have "thread_ok x boot_thread"
    by (simp add: thread_ok_def boot_thread_def files_ok_def)
  then show ?thesis
    using queued_new by (auto simp: sched_ok_def initial_state_def rotation_def zombies_def occupied_def MAX_THREADS_def)
qed

end
