(* ===== verification/Sched_Steps.thy ===== *)
theory Sched_Steps
  imports Sched_Inv
begin

text \<open>
  The kernel as a transition system. A step is one critical section of the scheduler, as the
  source has them, or a piece of execution of the running thread. \<open>schedule\<close> and
  \<open>exit_current_thread\<close> are two sections each, \<open>reap_zombie\<close> and the switch, because a timer
  interrupt can come between them when the caller has interrupts enabled; a sequence of steps
  is thus any interleaving of threads at the points where the kernel allows one. \<open>reap_zombie\<close> itself
  has a critical section that takes the zombie out of the table, and frees its stack and its address
  space after it. It is a step as a whole, for a caller with interrupts disabled, and its section is a
  step of its own: what it frees afterwards belongs to no thread of the table, so that freeing it,
  after any interruption, is execution of the running thread.

  The theory proves that every reachable state satisfies the scheduler's invariant and that
  the kernel stacks stay apart.
\<close>

section \<open>Stacks\<close>

text \<open>The stack of the thread in slot \<open>i\<close>; the boot thread runs on the bootloader's.\<close>

definition stack_area :: "('h, 'd) platform \<Rightarrow> nat \<Rightarrow> thread \<Rightarrow> u64 \<times> u64" where
  "stack_area p i t = (if i = 0 then boot_stack p else (stack_base t, stack_size t))"

definition word_in :: "u64 \<times> u64 \<Rightarrow> u64 \<Rightarrow> bool" where
  "word_in area a \<longleftrightarrow> unat (fst area) \<le> unat a \<and> unat a < unat (fst area) + unat (snd area)"

definition frame_in :: "u64 \<times> u64 \<Rightarrow> u64 \<Rightarrow> bool" where
  "frame_in area sp \<longleftrightarrow> (\<forall>a\<in>frame_addrs sp. word_in area a)"

text \<open>
  The stacks of the table are apart and, but for the boot thread's, live blocks of the heap; the
  saved frame of a queued thread is on its stack, and the running thread has room for one.
\<close>

definition table_ok :: "('h, 'd) platform \<Rightarrow> (u64 \<times> u64) set \<Rightarrow> scheduler_state \<Rightarrow> bool" where
  "table_ok p live st \<longleftrightarrow>
     (\<forall>i j t u. i < length (threads st) \<and> j < length (threads st) \<and> i \<noteq> j
        \<and> threads st ! i = Some t \<and> threads st ! j = Some u \<longrightarrow> apart (stack_area p i t) (stack_area p j u))
   \<and> (\<forall>i t. i < length (threads st) \<and> threads st ! i = Some t \<and> i \<noteq> 0
        \<longrightarrow> (stack_base t, stack_size t) \<in> live \<and> stack_size t = STACK_SIZE)"

definition frames_ok :: "('h, 'd) platform \<Rightarrow> u64 \<Rightarrow> scheduler_state \<Rightarrow> bool" where
  "frames_ok p sp st \<longleftrightarrow>
     (\<forall>i t. i \<in> set (queued (ready_queue st)) \<and> threads st ! i = Some t
        \<longrightarrow> frame_in (stack_area p i t) (stack_pointer t))
   \<and> (\<forall>t. threads st ! current st = Some t \<longrightarrow> frame_in (stack_area p (current st) t) (sp - 56))"

definition stacks_ok :: "('h, 'd) platform \<Rightarrow> ('h \<Rightarrow> (u64 \<times> u64) set) \<Rightarrow> ('h, 'd) kernel \<Rightarrow> bool" where
  "stacks_ok p blocks k \<longleftrightarrow> (case scheduler k of None \<Rightarrow> False
     | Some st \<Rightarrow> table_ok p (blocks (heap k)) st \<and> frames_ok p (rsp (cpu_regs k)) st)"

text \<open>The bootloader's stack is not in the heap.\<close>

definition platform_ok :: "('h, 'd) platform \<Rightarrow> ('h \<Rightarrow> (u64 \<times> u64) set) \<Rightarrow> bool" where
  "platform_ok p blocks \<longleftrightarrow> x86_laws (x86 p) \<and> heap_laws p blocks
     \<and> (unat (fst (boot_stack p)) + unat (snd (boot_stack p)) \<le> unat HEAP_START \<or> HEAP_END \<le> unat (fst (boot_stack p)))"

text \<open>
  Execution of the running thread outside the scheduler: it may do anything to the machine but
  leaves the scheduler's state, the stacks of the other threads and their heap blocks alone,
  and its own stack pointer stays on its stack.
\<close>

definition runs :: "('h, 'd) platform \<Rightarrow> ('h \<Rightarrow> (u64 \<times> u64) set) \<Rightarrow> ('h, 'd) kernel \<Rightarrow> ('h, 'd) kernel \<Rightarrow> bool" where
  "runs p blocks k k' \<longleftrightarrow> scheduler k' = scheduler k \<and> (case scheduler k of None \<Rightarrow> True | Some st \<Rightarrow>
     (\<forall>i t a. i \<in> occupied st \<and> i \<noteq> current st \<and> threads st ! i = Some t \<and> word_in (stack_area p i t) a
        \<longrightarrow> stack_mem (cpu_regs k') a = stack_mem (cpu_regs k) a)
   \<and> (\<forall>i t. i \<in> occupied st \<and> i \<noteq> 0 \<and> threads st ! i = Some t
        \<longrightarrow> (stack_base t, stack_size t) \<in> blocks (heap k) \<longrightarrow> (stack_base t, stack_size t) \<in> blocks (heap k'))
   \<and> (\<forall>t. threads st ! current st = Some t
        \<longrightarrow> frame_in (stack_area p (current st) t) (rsp (cpu_regs k') - 56)))"

section \<open>Steps\<close>

inductive kstep :: "('h, 'd) platform \<Rightarrow> ('h \<Rightarrow> (u64 \<times> u64) set) \<Rightarrow> ('h, 'd) kernel \<Rightarrow> ('h, 'd) kernel \<Rightarrow> bool"
  for p blocks where
  step_reap: "reap_zombie p k = Inr k' \<Longrightarrow> kstep p blocks k k'"
| step_take: "reap_take k = Inr (reaped, k') \<Longrightarrow> kstep p blocks k k'"
| step_schedule: "schedule_switch p k = Inr k' \<Longrightarrow> kstep p blocks k k'"
| step_exit: "exit_switch p k = Inr k' \<Longrightarrow> kstep p blocks k k'"
| step_spawn: "spawn p start k = Inr ((), k') \<Longrightarrow> kstep p blocks k k'"
| step_spawn_isolated: "spawn_isolated_inner p start user l4 km im k = Inr (pid, k') \<Longrightarrow> kstep p blocks k k'"
| step_trampoline: "thread_trampoline k = Inr (e, k') \<Longrightarrow> kstep p blocks k k'"
| step_ring3: "ring3_trampoline k = Inr (ue, k') \<Longrightarrow> kstep p blocks k k'"
| step_open: "open_file bytes k = Inr (fd_opt, k') \<Longrightarrow> kstep p blocks k k'"
| step_read: "read_open_file fd buf k = Inr (n, k') \<Longrightarrow> kstep p blocks k k'"
| step_close: "close_file fd k = Inr (closed, k') \<Longrightarrow> kstep p blocks k k'"
| step_run: "runs p blocks k k' \<Longrightarrow> kstep p blocks k k'"

text \<open>
  The steps by their effect: five of them only change the record of the running thread, in
  fields that do not concern scheduling.
\<close>

definition touches :: "('h, 'd) kernel \<Rightarrow> ('h, 'd) kernel \<Rightarrow> bool" where
  "touches k k' \<longleftrightarrow> (\<exists>st t t' b. scheduler k = Some st \<and> threads st ! current st = Some t
     \<and> t' = t\<lparr>entry := entry t', open_files := open_files t', user_entry := user_entry t'\<rparr>
     \<and> (files_ok t \<longrightarrow> files_ok t')
     \<and> k' = k\<lparr>scheduler := Some (set_thread (current st) (Some t') st), interrupts_enabled := b\<rparr>)"

lemma touchesI:
  assumes "scheduler k = Some st" and "threads st ! current st = Some t" and "files_ok t \<longrightarrow> files_ok t'"
    and "t' = t\<lparr>entry := entry t', open_files := open_files t', user_entry := user_entry t'\<rparr>"
  shows "touches k (k\<lparr>scheduler := Some (set_thread (current st) (Some t') st)\<rparr>)"
    and "touches k (k\<lparr>scheduler := Some (set_thread (current st) (Some t') st), interrupts_enabled := b\<rparr>)"
proof -
  show "touches k (k\<lparr>scheduler := Some (set_thread (current st) (Some t') st), interrupts_enabled := b\<rparr>)" for b
    unfolding touches_def using assms by blast
  from this [of "interrupts_enabled k"]
  show "touches k (k\<lparr>scheduler := Some (set_thread (current st) (Some t') st)\<rparr>)" by simp
qed

lemma with_current_thread_touches:
  assumes "kernel_ok x k" and "with_current_thread f k = Inr (r, k')"
    and f: "\<And>t. files_ok t \<Longrightarrow> \<exists>r t' fs. f t = Inr (r, t') \<and> files_ok t' \<and> t' = t\<lparr>open_files := fs\<rparr>"
  shows "touches k k'"
proof -
  obtain st where st: "scheduler k = Some st" "sched_ok x st" using assms(1) by (rule kernel_okE)
  obtain t where t: "threads st ! current st = Some t" "thread_ok x t" using sched_ok_current [OF st(2)] by blast
  obtain r' t' fs where f': "f t = Inr (r', t')" "files_ok t'" "t' = t\<lparr>open_files := fs\<rparr>"
    using f [of t] t(2) unfolding thread_ok_def by blast
  have "k' = k\<lparr>scheduler := Some (set_thread (current st) (Some t') st)\<rparr>"
    using with_current_thread_eq [OF st t(1), of f r' t'] f'(1) assms(2) by simp
  then show ?thesis using touchesI(1) [OF st(1) t(1)] f' by simp
qed

lemma fd_step_touches:
  assumes "kernel_ok x k"
  shows "open_file bytes k = Inr (r, k') \<Longrightarrow> touches k k'"
    and "read_open_file fd buf k = Inr (n, k') \<Longrightarrow> touches k k'"
    and "close_file fd k = Inr (c, k') \<Longrightarrow> touches k k'"
proof -
  show "touches k k'" if "open_file bytes k = Inr (r, k')"
  proof (rule with_current_thread_touches [OF assms])
    show "with_current_thread (open_file_in bytes) k = Inr (r, k')" using that by (simp add: open_file_def)
    show "\<exists>r t' fs. open_file_in bytes t = Inr (r, t') \<and> files_ok t' \<and> t' = t\<lparr>open_files := fs\<rparr>" if "files_ok t" for t
    proof (cases "None \<in> set (open_files t)")
      case True
      then show ?thesis using open_file_in_spec(2) [OF that, of bytes] by blast
    next
      case False
      then have "\<forall>f\<in>set (open_files t). f \<noteq> None" by metis
      from open_file_in_spec(1) [OF that this, of bytes] that show ?thesis
        by (intro exI [of _ None] exI [of _ t] exI [of _ "open_files t"]) simp
    qed
  qed
  show "touches k k'" if "read_open_file fd buf k = Inr (n, k')"
  proof (rule with_current_thread_touches [OF assms])
    show "with_current_thread (read_open_file_in fd buf) k = Inr (n, k')" using that by (simp add: read_open_file_def)
    show "\<exists>r t' fs. read_open_file_in fd buf t = Inr (r, t') \<and> files_ok t' \<and> t' = t\<lparr>open_files := fs\<rparr>" if "files_ok t" for t
    proof (cases "fd_file t fd")
      case None
      from read_open_file_in_spec(1) [OF that None, of buf] that show ?thesis
        by (intro exI [of _ "(None, buf)"] exI [of _ t] exI [of _ "open_files t"]) simp
    next
      case (Some f)
      then show ?thesis using read_open_file_in_spec(2) [OF that Some refl, of buf] by blast
    qed
  qed
  show "touches k k'" if "close_file fd k = Inr (c, k')"
  proof (rule with_current_thread_touches [OF assms])
    show "with_current_thread (close_file_in fd) k = Inr (c, k')" using that by (simp add: close_file_def)
    show "\<exists>r t' fs. close_file_in fd t = Inr (r, t') \<and> files_ok t' \<and> t' = t\<lparr>open_files := fs\<rparr>" if "files_ok t" for t
      using close_file_in_spec [OF that, of fd] by blast
  qed
qed

lemma trampoline_step_touches:
  assumes "kernel_ok x k"
  shows "thread_trampoline k = Inr (e, k') \<Longrightarrow> touches k k'"
    and "ring3_trampoline k = Inr (ue, k') \<Longrightarrow> touches k k'"
proof -
  obtain st where st: "scheduler k = Some st" "sched_ok x st" using assms by (rule kernel_okE)
  show "touches k k'" if tr: "thread_trampoline k = Inr (e, k')"
  proof -
    obtain t where t: "threads st ! current st = Some t" "entry t = Some e"
      by (rule thread_trampoline_Inr [OF st tr])
    then show ?thesis
      using thread_trampoline_eq [OF st t] tr touchesI(2) [OF st(1) t(1), of "t\<lparr>entry := None\<rparr>" True]
      by (simp add: files_ok_def)
  qed
  show "touches k k'" if tr: "ring3_trampoline k = Inr (ue, k')"
  proof -
    obtain t where t: "threads st ! current st = Some t" "user_entry t = Some ue"
      by (rule ring3_trampoline_Inr [OF st tr])
    then show ?thesis
      using ring3_trampoline_eq [OF st t] tr touchesI(1) [OF st(1) t(1), of "t\<lparr>user_entry := None\<rparr>"]
      by (simp add: files_ok_def)
  qed
qed

lemma touches_ok:
  assumes "touches k k'" and "kernel_ok x k"
  shows "kernel_ok x k'"
proof -
  obtain st t t' b where h: "scheduler k = Some st" "threads st ! current st = Some t"
     "t' = t\<lparr>entry := entry t', open_files := open_files t', user_entry := user_entry t'\<rparr>" "files_ok t \<longrightarrow> files_ok t'"
     "k' = k\<lparr>scheduler := Some (set_thread (current st) (Some t') st), interrupts_enabled := b\<rparr>"
    using assms(1) unfolding touches_def by blast
  have ok: "sched_ok x st" using assms(2) h(1) by (simp add: kernel_ok_def)
  have "thread_ok x t" using sched_ok_current [OF ok] h(2) by (metis option.inject)
  then have "thread_ok x t'" using h(3,4) unfolding thread_ok_def
    by (metis thread.select_convs(2,3,6) thread.surjective thread.update_convs(4,7,8))
  then show ?thesis using sched_ok_set_thread [OF ok] h(5) by (simp add: kernel_ok_def)
qed

lemma free_thread_Inr:
  assumes "free_thread p t k = Inr k'"
  obtains fs where "k' = k\<lparr>heap := heap_dealloc p (stack_base t) (stack_size t) 4096 (heap k), frames := fs\<rparr>"
proof -
  let ?k = "k\<lparr>heap := heap_dealloc p (stack_base t) (stack_size t) 4096 (heap k)\<rparr>"
  have "\<exists>fs. k' = ?k\<lparr>frames := fs\<rparr>"
  proof (cases "page_table t")
    case None
    then have "k' = ?k\<lparr>frames := frames k\<rparr>"
      using assms by (auto simp: free_thread_def bind_result_Inr_iff Let_def)
    then show ?thesis by blast
  next
    case (Some l4)
    then show ?thesis using assms by (auto simp: free_thread_def bind_result_Inr_iff Let_def)
  qed
  then show ?thesis using that by auto
qed

text \<open>A reaping step: nothing, or one thread less in the table and one block less in the heap.\<close>

lemma reap_cases:
  assumes "scheduler k = Some st" and "sched_ok x st" and "reap_zombie p k = Inr k'"
  obtains (idle) "zombie st = None" "k' = k"
  | (reaped) z t fs st' where "zombie st = Some z" "threads st ! z = Some t" "z < length (threads st)"
      "st' = set_thread z None (st\<lparr>zombie := None\<rparr>)" "sched_ok x st'"
      "k' = (cr3_write (kernel_page_table st) (k\<lparr>scheduler := Some st'\<rparr>))
         \<lparr>heap := heap_dealloc p (stack_base t) (stack_size t) 4096 (heap k), frames := fs\<rparr>"
proof (cases "zombie st")
  case None
  then show ?thesis using idle reap_zombie_None [OF assms(1)] assms(3) by simp
next
  case (Some z)
  obtain t st' where t: "threads st ! z = Some t" "thread_ok x t" "z < length (threads st)"
    "st' = set_thread z None (st\<lparr>zombie := None\<rparr>)" "sched_ok x st'"
    "reap_zombie p k = free_thread p t (cr3_write (kernel_page_table st) (k\<lparr>scheduler := Some st'\<rparr>))"
    by (rule reap_zombie_Some [OF assms(1,2) Some])
  then have "free_thread p t (cr3_write (kernel_page_table st) (k\<lparr>scheduler := Some st'\<rparr>)) = Inr k'"
    using assms(3) by simp
  then show ?thesis
    by (rule free_thread_Inr) (use reaped [OF Some t(1,3,4,5)] in \<open>simp add: cr3_write_def\<close>)
qed

lemma reap_take_cases:
  assumes "scheduler k = Some st" and "sched_ok x st" and "reap_take k = Inr (r, k')"
  obtains (idle) "zombie st = None" "k' = k"
  | (reaped) z t st' where "zombie st = Some z" "threads st ! z = Some t" "z < length (threads st)"
      "st' = set_thread z None (st\<lparr>zombie := None\<rparr>)" "sched_ok x st'" "k' = k\<lparr>scheduler := Some st'\<rparr>"
proof (cases "zombie st")
  case None
  then have "k' = k\<lparr>scheduler := Some st\<rparr>" using assms(1,3) by (simp add: reap_take_def without_interrupts_def take_zombie_None)
  then show ?thesis using idle [OF None] assms(1) by (cases k) simp
next
  case (Some z)
  obtain t where t: "threads st ! z = Some t" "z < length (threads st)"
    "take_zombie st = Inr (Some (t, kernel_page_table st), set_thread z None (st\<lparr>zombie := None\<rparr>))"
    "sched_ok x (set_thread z None (st\<lparr>zombie := None\<rparr>))"
    by (rule take_zombie_Some [OF assms(2) Some])
  then show ?thesis using assms(1,3) by (intro reaped [OF Some t(1,2) refl t(4)]) (simp add: reap_take_def without_interrupts_def)
qed

text \<open>Both reaping steps by their effect: the block of the thread is freed, or will be.\<close>

definition reaps :: "('h, 'd) platform \<Rightarrow> ('h, 'd) kernel \<Rightarrow> ('h, 'd) kernel \<Rightarrow> bool" where
  "reaps p k k' \<longleftrightarrow> reap_zombie p k = Inr k' \<or> (\<exists>r. reap_take k = Inr (r, k'))"

lemma reaps_cases:
  assumes st: "scheduler k = Some st" "sched_ok x st" and "reaps p k k'"
  obtains (idle) "zombie st = None" "k' = k"
  | (reaped) z t st' h c fs where "zombie st = Some z" "threads st ! z = Some t" "z < length (threads st)"
      "st' = set_thread z None (st\<lparr>zombie := None\<rparr>)" "sched_ok x st'"
      "k' = k\<lparr>scheduler := Some st', cpu_regs := (cpu_regs k)\<lparr>cr3 := c\<rparr>, heap := h, frames := fs\<rparr>"
      "h = heap k \<or> h = heap_dealloc p (stack_base t) (stack_size t) 4096 (heap k)"
  using assms(3) unfolding reaps_def
proof (elim disjE exE)
  assume r: "reap_zombie p k = Inr k'"
  show ?thesis
  proof (cases rule: reap_cases [OF st r])
    case (2 z t fs st')
    show ?thesis by (rule reaped [OF 2(1-5)]) (use 2(6) in \<open>simp add: cr3_write_def\<close>, simp)
  qed (rule idle)
next
  fix r assume r: "reap_take k = Inr (r, k')"
  show ?thesis
  proof (cases rule: reap_take_cases [OF st r])
    case (2 z t st')
    then show ?thesis by (intro reaped [OF 2(1-5), where h = "heap k" and c = "cr3 (cpu_regs k)" and fs = "frames k"]) simp_all
  qed (rule idle)
qed

text \<open>Freeing a thread that is out of the table is execution of the running thread.\<close>

lemma free_thread_runs:
  assumes laws: "heap_laws p blocks" and live: "(stack_base t, stack_size t) \<in> blocks (heap k)"
    and other: "\<And>i u. i \<in> occupied st \<Longrightarrow> i \<noteq> 0 \<Longrightarrow> threads st ! i = Some u \<Longrightarrow> (stack_base u, stack_size u) \<noteq> (stack_base t, stack_size t)"
    and st: "scheduler k = Some st" and room: "\<And>u. threads st ! current st = Some u \<Longrightarrow> frame_in (stack_area p (current st) u) (rsp (cpu_regs k) - 56)"
    and free: "free_thread p t (cr3_write l4 k) = Inr k'"
  shows "runs p blocks k k'"
proof -
  obtain fs where k': "k' = (cr3_write l4 k)\<lparr>heap := heap_dealloc p (stack_base t) (stack_size t) 4096 (heap (cr3_write l4 k)), frames := fs\<rparr>"
    by (rule free_thread_Inr [OF free])
  have "blocks (heap k') = blocks (heap k) - {(stack_base t, stack_size t)}"
    unfolding k' using heap_dealloc_law [OF laws live] by (simp add: cr3_write_def)
  moreover have "scheduler k' = scheduler k" "stack_mem (cpu_regs k') = stack_mem (cpu_regs k)" "rsp (cpu_regs k') = rsp (cpu_regs k)"
    unfolding k' by (simp_all add: cr3_write_def)
  ultimately show ?thesis using other room st unfolding runs_def by auto
qed

lemma exit_cases:
  assumes "scheduler k = Some st" and "sched_ok (x86 p) st" and "exit_switch p k = Inr k'"
  obtains n ns q where "current st \<noteq> 0" "queued (ready_queue st) = n # ns" "queue_ok q" "queued q = ns"
    "switched p (exit_return_addr p) None (current st) n
        (st\<lparr>ready_queue := q, current := n, zombie := Some (current st)\<rparr>) (disable k) k'"
proof -
  have c: "current st \<noteq> 0" using assms(1,3) exit_switch_boot by fastforce
  show ?thesis using exit_switch_leaves [OF assms(1,2) c] assms(3) c that by auto
qed

lemma schedule_cases:
  assumes "scheduler k = Some st" and "sched_ok (x86 p) st" and "schedule_switch p k = Inr k'"
  obtains (alone) "queued (ready_queue st) = []" "k' = k"
  | (switch) n ns q where "queued (ready_queue st) = n # ns" "queue_ok q" "queued q = ns @ [current st]"
    "switched p (schedule_return_addr p) (Some (interrupts_enabled k)) (current st) n
        (st\<lparr>ready_queue := q, current := n\<rparr>) (disable k) k'"
proof (cases "queued (ready_queue st)")
  case Nil
  then show ?thesis using alone schedule_switch_empty [OF assms(1,2)] assms(3) by auto
next
  case (Cons n ns)
  then show ?thesis using switch [OF Cons] schedule_switch_rotates [OF assms(1,2) Cons] assms(3) by auto
qed

lemma current_occupied: "sched_ok x st \<Longrightarrow> current st \<in> occupied st"
  using sched_okD(5) by (auto simp: rotation_def)

lemma reaps_ok:
  assumes ok: "kernel_ok x k" and "reaps p k k'"
  shows "kernel_ok x k'"
proof -
  obtain st where st: "scheduler k = Some st" "sched_ok x st" using ok by (rule kernel_okE)
  show ?thesis
    by (rule reaps_cases [OF st assms(2)]) (use ok in \<open>auto simp: kernel_ok_def\<close>)
qed

lemma reap_ok: "kernel_ok x k \<Longrightarrow> reap_zombie p k = Inr k' \<Longrightarrow> kernel_ok x k'"
  by (rule reaps_ok [of x k p]) (simp_all add: reaps_def)

lemma schedule_ok:
  assumes ok: "kernel_ok (x86 p) k" and "schedule_switch p k = Inr k'"
  shows "kernel_ok (x86 p) k'"
proof -
  obtain st where st: "scheduler k = Some st" "sched_ok (x86 p) st" using ok by (rule kernel_okE)
  show ?thesis
  proof (cases rule: schedule_cases [OF st assms(2)])
    case 1
    then show ?thesis using ok by simp
  next
    case (2 n ns q)
    have "sched_ok (x86 p) (st\<lparr>ready_queue := q, current := n\<rparr>)"
      by (rule sched_ok_rotate [OF st(2) 2(1,2,3)])
    moreover have "current st \<in> occupied (st\<lparr>ready_queue := q, current := n\<rparr>)"
      using current_occupied [OF st(2)] by (simp add: occupied_def)
    ultimately show ?thesis using switched_ok [OF 2(4)] unfolding kernel_ok_def by fastforce
  qed
qed

lemma exit_ok:
  assumes ok: "kernel_ok (x86 p) k" and "exit_switch p k = Inr k'"
  shows "kernel_ok (x86 p) k'"
proof -
  obtain st where st: "scheduler k = Some st" "sched_ok (x86 p) st" using ok by (rule kernel_okE)
  obtain n ns q where e: "current st \<noteq> 0" "queued (ready_queue st) = n # ns" "queue_ok q" "queued q = ns"
    "switched p (exit_return_addr p) None (current st) n
      (st\<lparr>ready_queue := q, current := n, zombie := Some (current st)\<rparr>) (disable k) k'"
    by (rule exit_cases [OF st assms(2)])
  have "sched_ok (x86 p) (st\<lparr>ready_queue := q, current := n, zombie := Some (current st)\<rparr>)"
    by (rule sched_ok_leave [OF st(2) e(2,3,4,1)])
  moreover have "current st \<in> occupied (st\<lparr>ready_queue := q, current := n, zombie := Some (current st)\<rparr>)"
    using current_occupied [OF st(2)] by (simp add: occupied_def)
  ultimately show ?thesis using switched_ok [OF e(5)] unfolding kernel_ok_def by fastforce
qed

text \<open>The steps by their effect.\<close>

lemma kstep_effect:
  assumes "heap_laws p blocks" and "kstep p blocks k k'" and ok: "kernel_ok (x86 p) k"
  obtains (reap) "reaps p k k'" | (schedule) "schedule_switch p k = Inr k'"
    | (exit) "exit_switch p k = Inr k'" | (spawn) start l4 user i where "spawned p start l4 user i k k'"
    | (touch) "touches k k'" | (run) "runs p blocks k k'"
  using assms(2)
proof cases
  case step_reap
  then show ?thesis by (intro reap) (simp add: reaps_def)
next
  case (step_take r)
  then show ?thesis by (intro reap) (auto simp: reaps_def)
next
  case (step_spawn start)
  then show ?thesis using spawn spawn_spawned [OF assms(1)] by blast
next
  case (step_spawn_isolated start user l4 km im pid)
  then show ?thesis using spawn spawn_isolated_spawned [OF assms(1)] by blast
next
  case (step_trampoline e)
  then show ?thesis by (intro touch trampoline_step_touches(1) [OF ok])
next
  case (step_ring3 ue)
  then show ?thesis by (intro touch trampoline_step_touches(2) [OF ok])
next
  case (step_open bytes r)
  then show ?thesis by (intro touch fd_step_touches(1) [OF ok])
next
  case (step_read fd buf n)
  then show ?thesis by (intro touch fd_step_touches(2) [OF ok])
next
  case (step_close fd c)
  then show ?thesis by (intro touch fd_step_touches(3) [OF ok])
qed (rule schedule exit run, assumption)+

lemma kstep_ok:
  assumes "platform_ok p blocks" and "kstep p blocks k k'" and ok: "kernel_ok (x86 p) k"
  shows "kernel_ok (x86 p) k'"
proof -
  have laws: "heap_laws p blocks" "x86_laws (x86 p)" using assms(1) by (auto simp: platform_ok_def)
  show ?thesis
  proof (cases rule: kstep_effect [OF laws(1) assms(2) ok])
    case 4
    then show ?thesis by (rule spawned_ok [OF laws ok])
  next
    case 6
    then show ?thesis using ok by (simp add: runs_def kernel_ok_def)
  qed (use reaps_ok [OF ok] schedule_ok [OF ok] exit_ok [OF ok] touches_ok [OF _ ok] in auto)
qed

section \<open>Stacks stay apart\<close>

lemma set_thread_fields [simp]:
  "threads (set_thread i v st) = (threads st)[i := v]" "ready_queue (set_thread i v st) = ready_queue st"
  "current (set_thread i v st) = current st" "zombie (set_thread i v st) = zombie st"
  "kernel_page_table (set_thread i v st) = kernel_page_table st"
  "slot_generations (set_thread i v st) = slot_generations st"
  by (simp_all add: set_thread_def)

lemma table_okD:
  assumes "table_ok p live st" and "i < length (threads st)" and "threads st ! i = Some t"
  shows "j < length (threads st) \<Longrightarrow> i \<noteq> j \<Longrightarrow> threads st ! j = Some u \<Longrightarrow> apart (stack_area p i t) (stack_area p j u)"
    and "i \<noteq> 0 \<Longrightarrow> (stack_base t, stack_size t) \<in> live" and "i \<noteq> 0 \<Longrightarrow> stack_size t = STACK_SIZE"
  using assms unfolding table_ok_def by blast+

lemma table_ok_set_thread:
  assumes "table_ok p live st" and "threads st ! i = Some t"
    and "stack_base t' = stack_base t" and "stack_size t' = stack_size t"
  shows "table_ok p live (set_thread i (Some t') st)"
proof -
  have old: "\<exists>v. threads st ! j = Some v \<and> stack_base v = stack_base u \<and> stack_size v = stack_size u
      \<and> stack_area p j v = stack_area p j u"
    if "j < length (threads st)" "(threads st)[i := Some t'] ! j = Some u" for j u
    using that assms(2,3,4) by (cases "j = i") (auto simp: stack_area_def)
  show ?thesis
    unfolding table_ok_def set_thread_fields length_list_update
  proof (intro conjI allI impI; elim conjE)
    fix j k u v
    assume jk: "j < length (threads st)" "k < length (threads st)" "j \<noteq> k"
      "(threads st)[i := Some t'] ! j = Some u" "(threads st)[i := Some t'] ! k = Some v"
    obtain u' v' where o: "threads st ! j = Some u'" "stack_area p j u' = stack_area p j u"
      "threads st ! k = Some v'" "stack_area p k v' = stack_area p k v"
      using old [OF jk(1,4)] old [OF jk(2,5)] by blast
    show "apart (stack_area p j u) (stack_area p k v)"
      using table_okD(1) [OF assms(1) jk(1) o(1) jk(2,3) o(3)] o(2,4) by simp
  next
    fix j u
    assume j: "j < length (threads st)" "(threads st)[i := Some t'] ! j = Some u" "j \<noteq> 0"
    obtain v where o: "threads st ! j = Some v" "stack_base v = stack_base u" "stack_size v = stack_size u"
      using old [OF j(1,2)] by blast
    show "(stack_base u, stack_size u) \<in> live" "stack_size u = STACK_SIZE"
      using table_okD(2,3) [OF assms(1) j(1) o(1) j(3)] o(2,3) by simp_all
  qed
qed

lemma table_ok_update [simp]:
  "table_ok p live (st\<lparr>ready_queue := q\<rparr>) = table_ok p live st"
  "table_ok p live (st\<lparr>current := c\<rparr>) = table_ok p live st"
  "table_ok p live (st\<lparr>zombie := z\<rparr>) = table_ok p live st"
  "table_ok p live (st\<lparr>slot_generations := g\<rparr>) = table_ok p live st"
  by (simp_all add: table_ok_def)

lemma table_ok_mono:
  assumes "table_ok p live st"
    and "\<And>i t. i < length (threads st) \<Longrightarrow> threads st ! i = Some t \<Longrightarrow> i \<noteq> 0
      \<Longrightarrow> (stack_base t, stack_size t) \<in> live \<Longrightarrow> (stack_base t, stack_size t) \<in> live'"
  shows "table_ok p live' st"
  using assms unfolding table_ok_def by blast

lemma table_ok_clear:
  assumes ok: "table_ok p live st" and z: "z \<noteq> 0" "z < length (threads st)" "threads st ! z = Some t"
  shows "table_ok p (live - {(stack_base t, stack_size t)}) (set_thread z None st)"
proof -
  have other: "j \<noteq> z \<and> threads st ! j = Some u" if "j < length (threads st)" "(threads st)[z := None] ! j = Some u" for j u
    using that by (cases "j = z") auto
  have ne: "(stack_base u, stack_size u) \<noteq> (stack_base t, stack_size t)"
    if "j < length (threads st)" "threads st ! j = Some u" "j \<noteq> z" "j \<noteq> 0" for j u
  proof -
    have "apart (stack_area p j u) (stack_area p z t)" by (rule table_okD(1) [OF ok that(1,2) z(2) that(3) z(3)])
    then have "apart (stack_base u, stack_size u) (stack_base t, stack_size t)" "stack_size t = STACK_SIZE"
      using table_okD(3) [OF ok z(2,3,1)] that(4) z(1) by (simp_all add: stack_area_def)
    then show ?thesis using stack_size_nat by (auto simp: apart_def)
  qed
  show ?thesis
    unfolding table_ok_def set_thread_fields length_list_update
  proof (intro conjI allI impI; elim conjE)
    fix i j u v
    assume "i < length (threads st)" "j < length (threads st)" "i \<noteq> j"
      "(threads st)[z := None] ! i = Some u" "(threads st)[z := None] ! j = Some v"
    then show "apart (stack_area p i u) (stack_area p j v)" using table_okD(1) [OF ok] other by metis
  next
    fix i u
    assume "i < length (threads st)" "(threads st)[z := None] ! i = Some u" "i \<noteq> 0"
    then show "(stack_base u, stack_size u) \<in> live - {(stack_base t, stack_size t)}" "stack_size u = STACK_SIZE"
      using table_okD(2,3) [OF ok] other ne by blast+
  qed
qed

lemma apart_sym: "apart a b = apart b a"
  by (auto simp: apart_def)

lemma table_ok_add:
  assumes ok: "table_ok p live st" and i: "i \<noteq> 0" "threads st ! i = None"
    and new: "\<And>c. c \<in> live \<Longrightarrow> apart (stack_base t, stack_size t) c"
    and boot: "apart (stack_base t, stack_size t) (boot_stack p)" and size: "stack_size t = STACK_SIZE"
  shows "table_ok p (insert (stack_base t, stack_size t) live) (set_thread i (Some t) st)"
proof -
  have new': "apart (stack_base t, stack_size t) (stack_area p j u)"
    if "j < length (threads st)" "threads st ! j = Some u" for j u
    using table_okD(2) [OF ok that] new boot by (auto simp: stack_area_def)
  have cases: "j = i \<and> u = t \<or> j \<noteq> i \<and> threads st ! j = Some u"
    if "j < length (threads st)" "(threads st)[i := Some t] ! j = Some u" for j u
    using that by (cases "j = i") auto
  have area: "stack_area p i t = (stack_base t, stack_size t)" using i by (simp add: stack_area_def)
  show ?thesis
    unfolding table_ok_def set_thread_fields length_list_update
  proof (intro conjI allI impI; elim conjE)
    fix j k u v
    assume jk: "j < length (threads st)" "k < length (threads st)" "j \<noteq> k"
      "(threads st)[i := Some t] ! j = Some u" "(threads st)[i := Some t] ! k = Some v"
    from cases [OF jk(1,4)] cases [OF jk(2,5)] show "apart (stack_area p j u) (stack_area p k v)"
      using jk(1,2,3) table_okD(1) [OF ok jk(1) _ jk(2,3)] new' area apart_sym by metis
  next
    fix j u
    assume j: "j < length (threads st)" "(threads st)[i := Some t] ! j = Some u" "j \<noteq> 0"
    from cases [OF j(1,2)] size
    show "(stack_base u, stack_size u) \<in> insert (stack_base t, stack_size t) live" "stack_size u = STACK_SIZE"
      using table_okD(2,3) [OF ok j(1) _ j(3)] by blast+
  qed
qed

end
