(* ===== verification/Sched_Contexts.thy ===== *)
theory Sched_Contexts
  imports Sched_Steps
begin

text \<open>
  Kernel stacks and saved contexts under any sequence of steps: the stacks of the table stay
  apart and on the heap, and the frame a thread saved when it was suspended is still there
  when it is switched to.
\<close>

section \<open>Stacks under steps\<close>

lemma switch_rsp: "call_switch_to ret new_stack pt c = (sp, c') \<Longrightarrow> rsp c' = new_stack + 56 \<and> sp = rsp c - 56 \<and> cr3 c' = pt"
  by (auto simp: switch_to_eq Let_def)

lemma switchedE:
  assumes "switched p ret were c n st k k'"
  obtains t u sp cpu where "threads st ! c = Some t" "threads st ! n = Some u"
    "call_switch_to ret (stack_pointer u) (space_of st u) (cpu_regs k) = (sp, cpu)"
    "sp = rsp (cpu_regs k) - 56" "rsp cpu = stack_pointer u + 56"
    "scheduler k' = Some (set_thread c (Some (t\<lparr>stack_pointer := sp, interrupts_were_enabled := were\<rparr>)) st)"
    "cpu_regs k' = cpu" "heap k' = heap k" "frames k' = frames k" "memory k' = memory k"
    "interrupts_enabled k' = (interrupts_were_enabled u = Some True)"
    "virt_try_new (x86 p) (kernel_stack_top u) = Some (rsp0 k')"
proof -
  obtain t u tos sp cpu where h: "threads st ! c = Some t" "threads st ! n = Some u"
    "virt_try_new (x86 p) (kernel_stack_top u) = Some tos"
    "call_switch_to ret (stack_pointer u) (space_of st u) (cpu_regs k) = (sp, cpu)"
    "k' = k\<lparr>scheduler := Some (set_thread c (Some (t\<lparr>stack_pointer := sp, interrupts_were_enabled := were\<rparr>)) st),
       cpu_regs := cpu, rsp0 := tos, interrupts_enabled := (interrupts_were_enabled u = Some True)\<rparr>"
    using assms unfolding switched_def by blast
  show ?thesis using h switch_rsp [OF h(4)] by (intro that [OF h(1,2,4)]) simp_all
qed

lemma stack_area_update [simp]:
  "stack_area p i (t\<lparr>stack_pointer := sp, interrupts_were_enabled := w\<rparr>) = stack_area p i t"
  "stack_area p i (t\<lparr>entry := e, open_files := fs, user_entry := ue\<rparr>) = stack_area p i t"
  by (simp_all add: stack_area_def)

lemma frames_switched:
  assumes sw: "switched p ret were c n st1 k k'" and st1: "threads st1 = threads st" "current st1 = n" and c: "current st = c"
    and ok: "frames_ok p (rsp (cpu_regs k)) st" and n: "n \<in> set (queued (ready_queue st))" "c \<noteq> n" "c < length (threads st)"
    and sub: "set (queued (ready_queue st1)) \<subseteq> insert c (set (queued (ready_queue st)))"
    and st': "scheduler k' = Some st'"
  shows "frames_ok p (rsp (cpu_regs k')) st'"
proof -
  obtain t u sp cpu where h: "threads st1 ! c = Some t" "threads st1 ! n = Some u"
    "sp = rsp (cpu_regs k) - 56" "rsp cpu = stack_pointer u + 56"
    "scheduler k' = Some (set_thread c (Some (t\<lparr>stack_pointer := sp, interrupts_were_enabled := were\<rparr>)) st1)"
    "cpu_regs k' = cpu"
    by (rule switchedE [OF sw])
  let ?t = "t\<lparr>stack_pointer := sp, interrupts_were_enabled := were\<rparr>"
  have st'': "st' = set_thread c (Some ?t) st1" using h(5) st' by simp
  have "frame_in (stack_area p c t) sp" using ok c h(1,3) st1(1) by (simp add: frames_ok_def)
  moreover have "frame_in (stack_area p i v) (stack_pointer v)"
    if "i \<in> set (queued (ready_queue st))" "threads st ! i = Some v" for i v
    using ok that unfolding frames_ok_def by blast
  ultimately show ?thesis
    unfolding frames_ok_def st'' using h st1 n sub by (auto simp: nth_list_update split: if_splits)
qed

lemma stacks_okE:
  assumes "stacks_ok p blocks k" and "scheduler k = Some st"
  shows "table_ok p (blocks (heap k)) st" "frames_ok p (rsp (cpu_regs k)) st"
  using assms by (simp_all add: stacks_ok_def)

lemma stacks_switched:
  assumes sw: "switched p ret were c n st1 (disable k) k'" and st1: "threads st1 = threads st" "current st1 = n" and c: "current st = c"
    and ok: "stacks_ok p blocks k" "scheduler k = Some st"
    and n: "n \<in> set (queued (ready_queue st))" "c \<noteq> n" "c < length (threads st)"
    and sub: "set (queued (ready_queue st1)) \<subseteq> insert c (set (queued (ready_queue st)))"
  shows "stacks_ok p blocks k'"
proof -
  obtain t sp where h: "threads st1 ! c = Some t"
    "scheduler k' = Some (set_thread c (Some (t\<lparr>stack_pointer := sp, interrupts_were_enabled := were\<rparr>)) st1)"
    "heap k' = heap (disable k)"
    by (rule switchedE [OF sw])
  have "table_ok p (blocks (heap k)) st1" using stacks_okE(1) [OF ok] unfolding table_ok_def st1(1) .
  then have "table_ok p (blocks (heap k)) (set_thread c (Some (t\<lparr>stack_pointer := sp, interrupts_were_enabled := were\<rparr>)) st1)"
    by (rule table_ok_set_thread) (use h(1) in simp_all)
  moreover have "frames_ok p (rsp (cpu_regs k')) (set_thread c (Some (t\<lparr>stack_pointer := sp, interrupts_were_enabled := were\<rparr>)) st1)"
    by (rule frames_switched [OF sw st1 c _ n sub h(2)]) (use stacks_okE(2) [OF ok] in simp)
  ultimately show ?thesis using h by (simp add: stacks_ok_def)
qed

lemma schedule_stacks:
  assumes "kernel_ok (x86 p) k" and ok: "stacks_ok p blocks k" and "schedule_switch p k = Inr k'"
  shows "stacks_ok p blocks k'"
proof -
  obtain st where st: "scheduler k = Some st" "sched_ok (x86 p) st" using assms(1) by (rule kernel_okE)
  show ?thesis
  proof (cases rule: schedule_cases [OF st assms(3)])
    case 1
    then show ?thesis using ok by simp
  next
    case (2 n ns q)
    have d: "current st \<noteq> n" "current st < length (threads st)"
      using sched_okD(4,5) [OF st(2)] 2(1) by (auto simp: rotation_def occupied_def)
    show ?thesis by (rule stacks_switched [OF 2(4) _ _ refl ok st(1)]) (use 2 d in auto)
  qed
qed

lemma exit_stacks:
  assumes "kernel_ok (x86 p) k" and ok: "stacks_ok p blocks k" and "exit_switch p k = Inr k'"
  shows "stacks_ok p blocks k'"
proof -
  obtain st where st: "scheduler k = Some st" "sched_ok (x86 p) st" using assms(1) by (rule kernel_okE)
  obtain n ns q where e: "queued (ready_queue st) = n # ns" "queued q = ns"
    "switched p (exit_return_addr p) None (current st) n
      (st\<lparr>ready_queue := q, current := n, zombie := Some (current st)\<rparr>) (disable k) k'"
    by (rule exit_cases [OF st assms(3)])
  have d: "current st \<noteq> n" "current st < length (threads st)"
    using sched_okD(4,5) [OF st(2)] e(1) by (auto simp: rotation_def occupied_def)
  show ?thesis by (rule stacks_switched [OF e(3) _ _ refl ok st(1)]) (use e d in auto)
qed

lemma reap_stacks:
  assumes "kernel_ok x k" and ok: "stacks_ok p blocks k" and "reaps p k k'" and laws: "heap_laws p blocks"
  shows "stacks_ok p blocks k'"
proof -
  obtain st where st: "scheduler k = Some st" "sched_ok x st" using assms(1) by (rule kernel_okE)
  show ?thesis
  proof (cases rule: reaps_cases [OF st assms(3)])
    case 1
    then show ?thesis using ok by simp
  next
    case (2 z t st' h c fs)
    have "z \<notin> set (rotation st)" using sched_okD(4) [OF st(2)] 2(1) by (auto simp: zombies_def)
    then have z: "z \<noteq> 0" "z \<notin> set (rotation st)" using sched_okD(6) [OF st(2)] by (metis, simp)
    note tab = stacks_okE(1) [OF ok st(1)]
    have live: "(stack_base t, stack_size t) \<in> blocks (heap k)" by (rule table_okD(2) [OF tab 2(3,2) z(1)])
    have "table_ok p (blocks (heap k) - {(stack_base t, stack_size t)}) st'"
      unfolding 2(4) by (rule table_ok_clear) (use tab z 2(2,3) in simp_all)
    moreover have "blocks (heap k) - {(stack_base t, stack_size t)} \<subseteq> blocks (heap k')"
      using heap_dealloc_law [OF laws live, of 4096] 2(6,7) by auto
    ultimately have "table_ok p (blocks (heap k')) st'" by (blast intro: table_ok_mono)
    moreover have "scheduler k' = Some st'" "rsp (cpu_regs k') = rsp (cpu_regs k)" unfolding 2(6) by simp_all
    moreover have "frames_ok p (rsp (cpu_regs k)) st'"
      using stacks_okE(2) [OF ok st(1)] z 2(3,4)
      by (auto simp: frames_ok_def rotation_def nth_list_update split: if_splits)
    ultimately show ?thesis by (simp add: stacks_ok_def)
  qed
qed

lemma touches_stacks:
  assumes "touches k k'" and ok: "stacks_ok p blocks k"
  shows "stacks_ok p blocks k'"
proof -
  obtain st t t' b where h: "scheduler k = Some st" "threads st ! current st = Some t"
     "t' = t\<lparr>entry := entry t', open_files := open_files t', user_entry := user_entry t'\<rparr>"
     "k' = k\<lparr>scheduler := Some (set_thread (current st) (Some t') st), interrupts_enabled := b\<rparr>"
    using assms(1) unfolding touches_def by blast
  have same: "stack_base t' = stack_base t" "stack_size t' = stack_size t" "stack_pointer t' = stack_pointer t"
    by (subst h(3), simp)+
  have area: "stack_area p i t' = stack_area p i t" for i using same by (simp add: stack_area_def)
  have "table_ok p (blocks (heap k)) (set_thread (current st) (Some t') st)"
    by (rule table_ok_set_thread [OF stacks_okE(1) [OF ok h(1)] h(2) same(1,2)])
  moreover have "frames_ok p (rsp (cpu_regs k)) (set_thread (current st) (Some t') st)"
    using stacks_okE(2) [OF ok h(1)] h(2) same(3) area
    by (cases "current st < length (threads st)")
      (auto simp: frames_ok_def nth_list_update not_less list_update_beyond split: if_splits)
  ultimately show ?thesis using h(4) by (simp add: stacks_ok_def)
qed

lemma runs_stacks:
  assumes r: "runs p blocks k k'" and ok: "stacks_ok p blocks k"
  shows "stacks_ok p blocks k'"
proof -
  obtain st where st: "scheduler k = Some st" using ok by (auto simp: stacks_ok_def split: option.splits)
  have "\<forall>i t. i \<in> occupied st \<and> i \<noteq> 0 \<and> threads st ! i = Some t
        \<longrightarrow> (stack_base t, stack_size t) \<in> blocks (heap k) \<longrightarrow> (stack_base t, stack_size t) \<in> blocks (heap k')"
    using r st by (simp add: runs_def)
  then have "table_ok p (blocks (heap k')) st"
    by (intro table_ok_mono [OF stacks_okE(1) [OF ok st]]) (unfold occupied_def, blast)
  moreover have "frames_ok p (rsp (cpu_regs k')) st"
    using stacks_okE(2) [OF ok st] r st by (auto simp: frames_ok_def runs_def)
  ultimately show ?thesis using r st by (simp add: stacks_ok_def runs_def)
qed

lemma spawned_stacks:
  assumes "platform_ok p blocks" and "kernel_ok (x86 p) k" and ok: "stacks_ok p blocks k"
    and sp: "spawned p start l4 user i k k'"
  shows "stacks_ok p blocks k'"
proof -
  obtain st q base mem where s: "scheduler k = Some st" "base \<noteq> 0" "heap_alloc p STACK_SIZE 4096 (heap k) = (base, heap k')"
     "position (\<lambda>t. t = None) (threads st) = Some i" "push_back i (ready_queue st) = Inr q"
     "k' = k\<lparr>heap := heap k', frames := frames k', memory := memory k', cpu_regs := (cpu_regs k)\<lparr>stack_mem := mem\<rparr>,
         scheduler := Some (set_thread i (Some (new_thread (base + STACK_SIZE - 64) base start l4 (base + STACK_SIZE) user))
           (st\<lparr>slot_generations := (slot_generations st)[i := slot_generations st ! i + 1], ready_queue := q\<rparr>))\<rparr>"
    using sp unfolding spawned_def by blast
  have st: "sched_ok (x86 p) st" using assms(2) s(1) by (simp add: kernel_ok_def)
  have laws: "heap_laws p blocks" "x86_laws (x86 p)" using assms(1) by (auto simp: platform_ok_def)
  have base: "unat base + 65536 \<le> HEAP_END" by (rule spawned_base [OF laws(1) s(3,2)])
  let ?t = "new_thread (base + STACK_SIZE - 64) base start l4 (base + STACK_SIZE) user"
  let ?st = "st\<lparr>slot_generations := (slot_generations st)[i := slot_generations st ! i + 1], ready_queue := q\<rparr>"
  have slot: "queued q = queued (ready_queue st) @ [i]" "i \<notin> set (rotation st)" "threads st ! i = None"
    using sched_ok_spawn(2,3,5) [OF st s(4,5) new_thread_ok [OF laws(2) base]] by auto
  then have i0: "i \<noteq> 0" using sched_okD(6) [OF st] by metis
  have t: "stack_base ?t = base" "stack_size ?t = STACK_SIZE" "stack_pointer ?t = base + STACK_SIZE - 64"
    by (simp_all add: new_thread_def)
  have "table_ok p (insert (stack_base ?t, stack_size ?t) (blocks (heap k))) (set_thread i (Some ?t) ?st)"
  proof (rule table_ok_add)
    show "table_ok p (blocks (heap k)) ?st" using stacks_okE(1) [OF ok s(1)] by simp
    show "i \<noteq> 0" by (rule i0)
    show "threads ?st ! i = None" using slot by simp
    show "apart (stack_base ?t, stack_size ?t) c" if "c \<in> blocks (heap k)" for c
      using heap_alloc_law(4) [OF laws(1) s(3,2)] that t by simp
    show "apart (stack_base ?t, stack_size ?t) (boot_stack p)"
      using assms(1) base heap_alloc_law(2) [OF laws(1) s(3,2)] t stack_size_nat
      by (auto simp: platform_ok_def apart_def word_le_nat_alt)
    show "stack_size ?t = STACK_SIZE" by (rule t(2))
  qed
  moreover have "frames_ok p (rsp (cpu_regs k)) (set_thread i (Some ?t) ?st)"
  proof -
    have "unat base + unat STACK_SIZE < 2 ^ 64" using base heap_end_low stack_size_nat by simp
    from fresh_frame_addrs(2) [OF this] have "frame_in (base, STACK_SIZE) (base + STACK_SIZE - 64)"
      using stack_size_nat by (fastforce simp: frame_in_def word_in_def)
    then have "frame_in (stack_area p i ?t) (stack_pointer ?t)" using t i0 by (simp add: stack_area_def)
    moreover have "(threads st)[i := Some ?t] ! j = threads st ! j" if "j \<in> set (rotation st)" for j
      using slot(2) that by (intro nth_list_update_neq) blast
    moreover have "(threads st)[i := Some ?t] ! i = Some ?t" using s(4) by (simp add: position_Some_iff)
    ultimately show ?thesis
      using stacks_okE(2) [OF ok s(1)] slot(1) unfolding frames_ok_def
      by (auto simp: rotation_def)
  qed
  moreover have "blocks (heap k') = insert (stack_base ?t, stack_size ?t) (blocks (heap k))"
    using heap_alloc_law(5) [OF laws(1) s(3,2)] t by simp
  moreover have "scheduler k' = Some (set_thread i (Some ?t) ?st)" "rsp (cpu_regs k') = rsp (cpu_regs k)"
    by (subst s(6), simp)+
  ultimately show ?thesis by (simp add: stacks_ok_def)
qed

lemma kstep_stacks:
  assumes "platform_ok p blocks" and "kstep p blocks k k'" and ok: "kernel_ok (x86 p) k" and "stacks_ok p blocks k"
  shows "stacks_ok p blocks k'"
proof -
  have laws: "heap_laws p blocks" using assms(1) by (auto simp: platform_ok_def)
  show ?thesis
    by (rule kstep_effect [OF laws assms(2) ok])
      (use reap_stacks [OF ok assms(4) _ laws] schedule_stacks [OF ok assms(4)] exit_stacks [OF ok assms(4)]
        spawned_stacks [OF assms(1) ok assms(4)] touches_stacks [OF _ assms(4)] runs_stacks [OF _ assms(4)] in blast)+
qed

section \<open>Saved contexts under steps\<close>

lemma frames_disjoint:
  assumes "apart A B" and "frame_in A sp" and "frame_in B sp'"
  shows "frame_addrs sp \<inter> frame_addrs sp' = {}"
  using assms unfolding frame_in_def word_in_def apart_def by fastforce

text \<open>The frame of a queued thread is apart from the one the running thread would save.\<close>

lemma queued_frame_apart:
  assumes "sched_ok x st" and ok: "stacks_ok p blocks k" "scheduler k = Some st"
    and i: "i \<in> set (queued (ready_queue st))" "threads st ! i = Some t"
  shows "frame_addrs (stack_pointer t) \<inter> frame_addrs (rsp (cpu_regs k) - 56) = {}"
proof -
  obtain u where u: "current st < length (threads st)" "threads st ! current st = Some u"
    using sched_ok_current [OF assms(1)] by blast
  have "i \<noteq> current st" "i < length (threads st)"
    using sched_okD(4,5) [OF assms(1)] i(1) by (auto simp: rotation_def occupied_def)
  then have "apart (stack_area p i t) (stack_area p (current st) u)"
    using table_okD(1) [OF stacks_okE(1) [OF ok]] i(2) u by blast
  then show ?thesis
    using stacks_okE(2) [OF ok] i u by (intro frames_disjoint) (auto simp: frames_ok_def)
qed

definition keeps :: "('h, 'd) kernel \<Rightarrow> ('h, 'd) kernel \<Rightarrow> nat \<Rightarrow> thread \<Rightarrow> bool" where
  "keeps k k' i t \<longleftrightarrow> (\<exists>st'. scheduler k' = Some st' \<and> i \<in> set (queued (ready_queue st')) \<and> threads st' ! i = Some t)
     \<and> saved_frame (stack_mem (cpu_regs k')) (stack_pointer t) = saved_frame (stack_mem (cpu_regs k)) (stack_pointer t)"

lemma switched_keeps:
  assumes "sched_ok x st" and ok: "stacks_ok p blocks k" "scheduler k = Some st"
    and i: "i \<in> set (queued (ready_queue st))" "threads st ! i = Some t"
    and sw: "switched p ret were (current st) n st1 (disable k) k'"
    and st1: "threads st1 = threads st" "i \<in> set (queued (ready_queue st1))"
  shows "keeps k k' i t"
proof -
  obtain v u sp cpu where h: "threads st1 ! current st = Some v"
    "call_switch_to ret (stack_pointer u) (space_of st1 u) (cpu_regs (disable k)) = (sp, cpu)"
    "sp = rsp (cpu_regs (disable k)) - 56"
    "scheduler k' = Some (set_thread (current st) (Some (v\<lparr>stack_pointer := sp, interrupts_were_enabled := were\<rparr>)) st1)"
    "cpu_regs k' = cpu"
    by (rule switchedE [OF sw])
  have "i \<noteq> current st" using sched_okD(4) [OF assms(1)] i(1) by (auto simp: rotation_def)
  then have "threads (set_thread (current st) (Some (v\<lparr>stack_pointer := sp, interrupts_were_enabled := were\<rparr>)) st1) ! i = Some t"
    using i(2) st1(1) by simp
  moreover have "saved_frame (stack_mem cpu) (stack_pointer t) = saved_frame (stack_mem (cpu_regs k)) (stack_pointer t)"
    by (rule saved_frame_cong)
      (use switch_saves(2) [OF h(2)] queued_frame_apart [OF assms(1) ok i] h(3) in auto)
  ultimately show ?thesis using h(4,5) st1(2) by (auto simp: keeps_def)
qed

lemma spawned_keeps:
  assumes p: "platform_ok p blocks" and ok: "stacks_ok p blocks k" "scheduler k = Some st" and so: "sched_ok (x86 p) st"
    and i: "i \<in> set (queued (ready_queue st))" "threads st ! i = Some t" and sp: "spawned p start l4 user j k k'"
  shows "keeps k k' i t"
proof -
  obtain q base mem where s: "base \<noteq> 0" "heap_alloc p STACK_SIZE 4096 (heap k) = (base, heap k')"
     "position (\<lambda>t. t = None) (threads st) = Some j" "push_back j (ready_queue st) = Inr q"
     "\<forall>a. a \<notin> frame_addrs (base + STACK_SIZE - 64) \<longrightarrow> mem a = stack_mem (cpu_regs k) a"
     "k' = k\<lparr>heap := heap k', frames := frames k', memory := memory k', cpu_regs := (cpu_regs k)\<lparr>stack_mem := mem\<rparr>,
         scheduler := Some (set_thread j (Some (new_thread (base + STACK_SIZE - 64) base start l4 (base + STACK_SIZE) user))
           (st\<lparr>slot_generations := (slot_generations st)[j := slot_generations st ! j + 1], ready_queue := q\<rparr>))\<rparr>"
    using sp ok(2) unfolding spawned_def by auto
  have laws: "heap_laws p blocks" "x86_laws (x86 p)" using p by (auto simp: platform_ok_def)
  have base: "unat base + 65536 \<le> HEAP_END" by (rule spawned_base [OF laws(1) s(2,1)])
  have slot: "queued q = queued (ready_queue st) @ [j]" "threads st ! j = None"
    using sched_ok_spawn(2,5) [OF so s(3,4) new_thread_ok [OF laws(2) base]] by auto
  then have ij: "i \<noteq> j" using i(2) by auto
  have il: "i < length (threads st)" using sched_okD(5) [OF so] i(1) by (auto simp: rotation_def occupied_def)
  have "unat base + unat STACK_SIZE < 2 ^ 64" using base heap_end_low stack_size_nat by simp
  from fresh_frame_addrs(2) [OF this] have new: "frame_in (base, STACK_SIZE) (base + STACK_SIZE - 64)"
    using stack_size_nat by (fastforce simp: frame_in_def word_in_def)
  have "apart (base, STACK_SIZE) (stack_area p i t)"
  proof (cases "i = 0")
    case True
    then show ?thesis using p base heap_alloc_law(2) [OF laws(1) s(2,1)] stack_size_nat
      by (auto simp: platform_ok_def apart_def word_le_nat_alt stack_area_def)
  next
    case False
    then show ?thesis
      using heap_alloc_law(4) [OF laws(1) s(2,1)] table_okD(2) [OF stacks_okE(1) [OF ok] il i(2)]
      by (simp add: stack_area_def)
  qed
  moreover have "frame_in (stack_area p i t) (stack_pointer t)" using stacks_okE(2) [OF ok] i by (simp add: frames_ok_def)
  ultimately have "frame_addrs (base + STACK_SIZE - 64) \<inter> frame_addrs (stack_pointer t) = {}"
    using new by (intro frames_disjoint)
  then have "saved_frame mem (stack_pointer t) = saved_frame (stack_mem (cpu_regs k)) (stack_pointer t)"
    using s(5) by (intro saved_frame_cong) auto
  then show ?thesis
    unfolding keeps_def by (subst (1 2) s(6)) (use slot ij i in auto)
qed

lemma kstep_keeps:
  assumes p: "platform_ok p blocks" and step: "kstep p blocks k k'" and ok: "kernel_ok (x86 p) k" "stacks_ok p blocks k"
    and st: "scheduler k = Some st" and i: "i \<in> set (queued (ready_queue st))" "threads st ! i = Some t"
    and away: "\<And>st'. scheduler k' = Some st' \<Longrightarrow> current st' \<noteq> i"
  shows "keeps k k' i t"
proof -
  have laws: "heap_laws p blocks" "x86_laws (x86 p)" using p by (auto simp: platform_ok_def)
  have so: "sched_ok (x86 p) st" using ok(1) st by (simp add: kernel_ok_def)
  have ic: "i \<noteq> current st" "i < length (threads st)"
    using sched_okD(4,5) [OF so] i(1) by (auto simp: rotation_def occupied_def)
  show ?thesis
  proof (cases rule: kstep_effect [OF laws(1) step ok(1)])
    case 1
    show ?thesis
    proof (cases rule: reaps_cases [OF st so 1])
      case 1
      then show ?thesis using st i by (simp add: keeps_def)
    next
      case (2 z t' st' h c fs)
      have "z \<noteq> i" using sched_okD(4) [OF so] 2(1) i(1) by (auto simp: rotation_def zombies_def)
      then show ?thesis using 2(4,6) i by (simp add: keeps_def)
    qed
  next
    case 2
    show ?thesis
    proof (cases rule: schedule_cases [OF st so 2])
      case 1
      then show ?thesis using st i by (simp add: keeps_def)
    next
      case (2 n ns q)
      obtain t' sp where "scheduler k' = Some (set_thread (current st) (Some t') (st\<lparr>ready_queue := q, current := n\<rparr>))"
        by (rule switchedE [OF 2(4)]) blast
      then have "n \<noteq> i" using away by fastforce
      then show ?thesis using 2 i by (intro switched_keeps [OF so ok(2) st i 2(4)]) auto
    qed
  next
    case 3
    obtain n ns q where e: "queued (ready_queue st) = n # ns" "queued q = ns"
      "switched p (exit_return_addr p) None (current st) n
        (st\<lparr>ready_queue := q, current := n, zombie := Some (current st)\<rparr>) (disable k) k'"
      by (rule exit_cases [OF st so 3])
    obtain t' where "scheduler k' = Some (set_thread (current st) (Some t')
        (st\<lparr>ready_queue := q, current := n, zombie := Some (current st)\<rparr>))"
      by (rule switchedE [OF e(3)]) blast
    then have "n \<noteq> i" using away by fastforce
    then show ?thesis using e i by (intro switched_keeps [OF so ok(2) st i e(3)]) auto
  next
    case (4 start l4 user j)
    then show ?thesis by (rule spawned_keeps [OF p ok(2) st so i])
  next
    case 5
    then show ?thesis using st i ic by (auto simp: touches_def keeps_def)
  next
    case 6
    have "frame_in (stack_area p i t) (stack_pointer t)" using stacks_okE(2) [OF ok(2) st] i by (simp add: frames_ok_def)
    moreover have "i \<in> occupied st" using ic(2) i(2) by (simp add: occupied_def)
    ultimately have "saved_frame (stack_mem (cpu_regs k')) (stack_pointer t) = saved_frame (stack_mem (cpu_regs k)) (stack_pointer t)"
      using 6 st ic(1) i(2) by (intro saved_frame_cong) (auto simp: runs_def frame_in_def)
    then show ?thesis using 6 st i by (simp add: keeps_def runs_def)
  qed
qed

section \<open>Reachable states\<close>

text \<open>
  A kernel in which \<open>init\<close> has just run, on a stack with room for a frame, and what any steps
  make of it.
\<close>

inductive reachable :: "('h, 'd) platform \<Rightarrow> ('h \<Rightarrow> (u64 \<times> u64) set) \<Rightarrow> ('h, 'd) kernel \<Rightarrow> bool"
  for p blocks where
  reachable_init: "init k = Inr ((), k') \<Longrightarrow> frame_in (boot_stack p) (rsp (cpu_regs k) - 56) \<Longrightarrow> reachable p blocks k'"
| reachable_step: "reachable p blocks k \<Longrightarrow> kstep p blocks k k' \<Longrightarrow> reachable p blocks k'"

lemma reachable_ok:
  assumes p: "platform_ok p blocks" and "reachable p blocks k"
  shows "kernel_ok (x86 p) k \<and> stacks_ok p blocks k"
  using assms(2)
proof induction
  case (reachable_init k k')
  have k': "k' = k\<lparr>scheduler := Some (initial_state (cr3 (cpu_regs k)))\<rparr>" using reachable_init(1) by (auto simp: init_eq)
  have "x86_laws (x86 p)" using p by (simp add: platform_ok_def)
  then have "kernel_ok (x86 p) k'" using initial_state_ok k' by (simp add: kernel_ok_def)
  moreover have "threads (initial_state l4) ! i = (if i = 0 then Some boot_thread else None)"
    if "i < length (threads (initial_state l4))" for i l4
    using that by (cases i) (simp_all add: initial_state_def)
  then have "table_ok p (blocks (heap k)) (initial_state (cr3 (cpu_regs k)))"
    unfolding table_ok_def by (metis option.distinct(1))
  moreover have "frames_ok p (rsp (cpu_regs k)) (initial_state (cr3 (cpu_regs k)))"
    using reachable_init(2) queued_new(2) by (simp add: frames_ok_def initial_state_def stack_area_def)
  ultimately show ?case using k' by (simp add: stacks_ok_def)
next
  case (reachable_step k k')
  then show ?case using kstep_ok [OF p] kstep_stacks [OF p] by blast
qed

text \<open>Steps during which thread \<open>i\<close> does not run.\<close>

inductive away :: "('h, 'd) platform \<Rightarrow> ('h \<Rightarrow> (u64 \<times> u64) set) \<Rightarrow> nat \<Rightarrow> ('h, 'd) kernel \<Rightarrow> ('h, 'd) kernel \<Rightarrow> bool"
  for p blocks i k where
  away_refl: "away p blocks i k k"
| away_step: "away p blocks i k k1 \<Longrightarrow> kstep p blocks k1 k2 \<Longrightarrow> map_option current (scheduler k2) \<noteq> Some i \<Longrightarrow> away p blocks i k k2"

lemma away_keeps:
  assumes p: "platform_ok p blocks" and "away p blocks i k k'" and ok: "kernel_ok (x86 p) k" "stacks_ok p blocks k"
    and st: "scheduler k = Some st" and i: "i \<in> set (queued (ready_queue st))" "threads st ! i = Some t"
  shows "kernel_ok (x86 p) k' \<and> stacks_ok p blocks k' \<and> keeps k k' i t"
  using assms(2)
proof induction
  case away_refl
  show ?case using ok st i by (simp add: keeps_def)
next
  case (away_step k1 k2)
  obtain st1 where st1: "scheduler k1 = Some st1" "i \<in> set (queued (ready_queue st1))" "threads st1 ! i = Some t"
    using away_step.IH by (auto simp: keeps_def)
  have "keeps k1 k2 i t"
    by (rule kstep_keeps [OF p away_step.hyps(2) _ _ st1]) (use away_step in auto)
  then show ?case
    using away_step.IH kstep_ok [OF p away_step.hyps(2)] kstep_stacks [OF p away_step.hyps(2)] by (auto simp: keeps_def)
qed

text \<open>A switch to a queued thread loads the frame it saved.\<close>

lemma switched_loads:
  assumes so: "sched_ok x st" and ok: "stacks_ok p blocks k" "scheduler k = Some st"
    and sw: "switched p ret were (current st) n st1 (disable k) k'" and st1: "threads st1 = threads st"
    and n: "n \<in> set (queued (ready_queue st))" "threads st ! n = Some u"
  shows "callee_saved (cpu_regs k') @ [rip (cpu_regs k')] = saved_frame (stack_mem (cpu_regs k)) (stack_pointer u)"
    and "rsp (cpu_regs k') = stack_pointer u + 56" and "cr3 (cpu_regs k') = space_of st1 u"
    and "interrupts_enabled k' = (interrupts_were_enabled u = Some True)"
    and "virt_try_new (x86 p) (kernel_stack_top u) = Some (rsp0 k')"
proof -
  obtain u' sp cpu where h: "threads st1 ! n = Some u'"
    "call_switch_to ret (stack_pointer u') (space_of st1 u') (cpu_regs (disable k)) = (sp, cpu)" "cpu_regs k' = cpu"
    "interrupts_enabled k' = (interrupts_were_enabled u' = Some True)"
    "virt_try_new (x86 p) (kernel_stack_top u') = Some (rsp0 k')"
    by (rule switchedE [OF sw])
  have u: "u' = u" using h(1) n(2) st1 by simp
  have d: "frame_addrs (stack_pointer u') \<inter> frame_addrs (rsp (cpu_regs (disable k)) - 56) = {}"
    using queued_frame_apart [OF so ok n] u by simp
  show "callee_saved (cpu_regs k') @ [rip (cpu_regs k')] = saved_frame (stack_mem (cpu_regs k)) (stack_pointer u)"
    "rsp (cpu_regs k') = stack_pointer u + 56" "cr3 (cpu_regs k') = space_of st1 u"
    using switch_restores [OF h(2) d] h(3) u by simp_all
  show "interrupts_enabled k' = (interrupts_were_enabled u = Some True)"
    "virt_try_new (x86 p) (kernel_stack_top u) = Some (rsp0 k')" using h(4,5) u by simp_all
qed

text \<open>A step that makes a queued thread the running one loads its frame.\<close>

lemma step_into:
  assumes p: "platform_ok p blocks" and ok: "kernel_ok (x86 p) k" "stacks_ok p blocks k" "scheduler k = Some st"
    and sw: "schedule_switch p k = Inr k' \<or> exit_switch p k = Inr k'"
    and i: "scheduler k' = Some st'" "current st' = i" "i \<noteq> current st" "threads st ! i = Some u"
  shows "callee_saved (cpu_regs k') @ [rip (cpu_regs k')] = saved_frame (stack_mem (cpu_regs k)) (stack_pointer u)"
    and "rsp (cpu_regs k') = stack_pointer u + 56" and "cr3 (cpu_regs k') = space_of st' u"
    and "interrupts_enabled k' = (interrupts_were_enabled u = Some True)"
    and "virt_try_new (x86 p) (kernel_stack_top u) = Some (rsp0 k')" and "threads st' ! i = Some u"
proof -
  have so: "sched_ok (x86 p) st" using ok by (simp add: kernel_ok_def)
  have "\<exists>ret were st1. switched p ret were (current st) i st1 (disable k) k' \<and> threads st1 = threads st
      \<and> i \<in> set (queued (ready_queue st)) \<and> kernel_page_table st1 = kernel_page_table st'"
    using sw
  proof
    assume "schedule_switch p k = Inr k'"
    then show ?thesis
    proof (rule schedule_cases [OF ok(3) so])
      assume "k' = k"
      then show ?thesis using i ok(3) by simp
    next
      fix n ns q
      assume q: "queued (ready_queue st) = n # ns" and s: "switched p (schedule_return_addr p) (Some (interrupts_enabled k))
        (current st) n (st\<lparr>ready_queue := q, current := n\<rparr>) (disable k) k'"
      obtain t where "scheduler k' = Some (set_thread (current st) (Some t) (st\<lparr>ready_queue := q, current := n\<rparr>))"
        by (rule switchedE [OF s]) blast
      then have "st' = set_thread (current st) (Some t) (st\<lparr>ready_queue := q, current := n\<rparr>)" using i(1) by simp
      moreover from this have "n = i" using i(2) by simp
      ultimately show ?thesis using q s
        by (intro exI [of _ "schedule_return_addr p"] exI [of _ "Some (interrupts_enabled k)"] exI
            [of _ "st\<lparr>ready_queue := q, current := n\<rparr>"]) simp
    qed
  next
    assume "exit_switch p k = Inr k'"
    then show ?thesis
    proof (rule exit_cases [OF ok(3) so])
      fix n ns q
      assume q: "queued (ready_queue st) = n # ns" and s: "switched p (exit_return_addr p) None (current st) n
        (st\<lparr>ready_queue := q, current := n, zombie := Some (current st)\<rparr>) (disable k) k'"
      obtain t where "scheduler k' = Some (set_thread (current st) (Some t)
          (st\<lparr>ready_queue := q, current := n, zombie := Some (current st)\<rparr>))"
        by (rule switchedE [OF s]) blast
      then have "st' = set_thread (current st) (Some t) (st\<lparr>ready_queue := q, current := n, zombie := Some (current st)\<rparr>)"
        using i(1) by simp
      moreover from this have "n = i" using i(2) by simp
      ultimately show ?thesis using q s
        by (intro exI [of _ "exit_return_addr p"] exI [of _ None] exI
            [of _ "st\<lparr>ready_queue := q, current := n, zombie := Some (current st)\<rparr>"]) simp
    qed
  qed
  then obtain ret were st1 where s: "switched p ret were (current st) i st1 (disable k) k'" "threads st1 = threads st"
      "i \<in> set (queued (ready_queue st))" "kernel_page_table st1 = kernel_page_table st'" by blast
  note l = switched_loads [OF so ok(2,3) s(1,2,3) i(4)]
  show "callee_saved (cpu_regs k') @ [rip (cpu_regs k')] = saved_frame (stack_mem (cpu_regs k)) (stack_pointer u)"
    "rsp (cpu_regs k') = stack_pointer u + 56" "interrupts_enabled k' = (interrupts_were_enabled u = Some True)"
    "virt_try_new (x86 p) (kernel_stack_top u) = Some (rsp0 k')"
    using l by simp_all
  show "cr3 (cpu_regs k') = space_of st' u" using l(3) s(4) by (cases "page_table u") (simp_all add: space_of_def)
  obtain t where "scheduler k' = Some (set_thread (current st) (Some t) st1)" by (rule switchedE [OF s(1)]) blast
  then show "threads st' ! i = Some u" using i s(2) by simp
qed

end
