(* ===== verification/Sched_Sample.thy ===== *)
theory Sched_Sample
  imports Sched_Contexts Fs
begin

text \<open>
  When spawning a thread returns, and one concrete platform and kernel with one to three threads,
  on which the hypotheses of the scheduler's properties hold.
\<close>

section \<open>Spawning succeeds or says why not\<close>

lemma alloc_stack_returns:
  assumes "heap_laws p blocks" and "heap_alloc p STACK_SIZE 4096 (heap k) = (b, h)" and "b \<noteq> 0"
  obtains mem where "alloc_stack p k = Inr ((b, b + STACK_SIZE - 64), k\<lparr>heap := h, cpu_regs := (cpu_regs k)\<lparr>stack_mem := mem\<rparr>\<rparr>)"
    "unat b + 65536 \<le> HEAP_END"
proof -
  have le: "unat b + 65536 \<le> HEAP_END" by (rule spawned_base [OF assms])
  then have "unat b + unat STACK_SIZE < 2 ^ 64" using heap_end_low stack_size_nat by simp
  then obtain mem where "build_initial_stack (thread_trampoline_addr p) b (stack_mem (cpu_regs k)) = Inr (b + STACK_SIZE - 64, mem)"
    using build_initial_stack_frame by blast
  then show ?thesis using assms(2,3) le by (intro that [of mem]) (simp_all add: alloc_stack_def)
qed

lemma add_thread_returns:
  assumes so: "sched_ok x st" and pos: "position (\<lambda>t. t = None) (threads st) = Some i"
    and g: "unat (slot_generations st ! i) + 1 < 2 ^ 64" and b: "unat base + 65536 \<le> HEAP_END"
  obtains st' where "add_thread base sp start l4 user st = Inr ((i, slot_generations st ! i + 1), st')"
proof -
  have i: "i < MAX_THREADS" using pos sched_okD(1) [OF so] by (auto simp: position_Some_iff)
  have gen: "index_at (slot_generations st) i = Inr (slot_generations st ! i)"
      "add_ovf (slot_generations st ! i) 1 = Inr (slot_generations st ! i + 1)"
    using i sched_okD(2) [OF so] g by (simp_all add: add_ovf_no_overflow)
  have "unat base + unat STACK_SIZE < 2 ^ 64" using b heap_end_low stack_size_nat by simp
  then have kst: "add_ovf base STACK_SIZE = Inr (base + STACK_SIZE)" by (intro add_ovf_no_overflow) simp
  obtain q where "push_back i (ready_queue st) = Inr q"
    using push_back_queued [OF sched_okD(3) [OF so] queue_room [OF so]] by blast
  then show ?thesis
    using pos gen kst by (intro that) (simp add: add_thread_def Let_def set_thread_def)
qed

lemma add_thread_full:
  "\<forall>t\<in>set (threads st). t \<noteq> None \<Longrightarrow> add_thread base sp start l4 user st = panic ''thread table full (MAX_THREADS exceeded)''"
  by (simp add: add_thread_def position_None_iff [THEN iffD2])

lemma spawn_returns:
  assumes laws: "heap_laws p blocks" and k: "scheduler k = Some st" "sched_ok x st"
    and a: "heap_alloc p STACK_SIZE 4096 (heap k) = (b, h)" "b \<noteq> 0"
    and pos: "position (\<lambda>t. t = None) (threads st) = Some i" and g: "unat (slot_generations st ! i) + 1 < 2 ^ 64"
  shows "\<exists>k'. spawn p start k = Inr ((), k')"
proof -
  have a': "heap_alloc p STACK_SIZE 4096 (heap (disable k)) = (b, h)" using a by simp
  obtain mem where m: "alloc_stack p (disable k) = Inr ((b, b + STACK_SIZE - 64),
      (disable k)\<lparr>heap := h, cpu_regs := (cpu_regs (disable k))\<lparr>stack_mem := mem\<rparr>\<rparr>)" "unat b + 65536 \<le> HEAP_END"
    by (rule alloc_stack_returns [OF laws a' a(2)])
  obtain st' where "add_thread b (b + STACK_SIZE - 64) start None None st = Inr ((i, slot_generations st ! i + 1), st')"
    by (rule add_thread_returns [OF k(2) pos g m(2)])
  then show ?thesis using m(1) k(1) by (simp add: spawn_def without_interrupts_def)
qed

section \<open>A concrete platform\<close>

text \<open>
  A heap that is the list of its live blocks and serves blocks of at most 64 KiB at multiples of
  64 KiB, first fit; the reference record for page tables; the sample disk.
\<close>

definition sample_alloc :: "u64 \<Rightarrow> u64 \<Rightarrow> (u64 \<times> u64) list \<Rightarrow> u64 \<times> (u64 \<times> u64) list" where
  "sample_alloc sz align h =
     (if align = 0 \<or> 65536 mod unat align \<noteq> 0 \<or> 65536 < unat sz then (0, h)
      else case find (\<lambda>b. \<forall>c\<in>set h. apart (b, sz) c) (map (\<lambda>i. HEAP_START + of_nat (65536 * i)) [0..<64]) of
             None \<Rightarrow> (0, h)
           | Some b \<Rightarrow> (b, (b, sz) # h))"

definition sample_platform :: "((u64 \<times> u64) list, ata_view) platform" where
  "sample_platform =
     \<lparr>x86 = x86_ref, heap_alloc = sample_alloc, heap_dealloc = (\<lambda>b sz align h. removeAll (b, sz) h),
      translate_page = (\<lambda>pm l4 page. Some page), map_to = (\<lambda>l4 page frame flags m. Inr (None, m)),
      ata_ports = ref_io (\<lambda>_. sample_sector), thread_trampoline_addr = 0x201000, ring3_trampoline_addr = 0x202000,
      schedule_return_addr = 0x203000, exit_return_addr = 0x204000, boot_stack = (0x300000, 0x10000)\<rparr>"

lemma sample_candidate:
  assumes "i < 64"
  shows "unat (HEAP_START + of_nat (65536 * i)) = unat HEAP_START + 65536 * i"
proof -
  have "unat (of_nat (65536 * i) :: u64) = 65536 * i" using assms by (intro unat_of_nat_u64) simp
  then show ?thesis using assms by (simp add: unat_word_ariths HEAP_START_def)
qed

lemma sample_heap_laws: "heap_laws sample_platform set"
proof -
  have "unat b mod unat align = 0 \<and> HEAP_START \<le> b \<and> unat b + unat sz \<le> HEAP_END
      \<and> (\<forall>c\<in>set h. apart (b, sz) c) \<and> set h' = insert (b, sz) (set h)"
    if a: "sample_alloc sz align h = (b, h')" "b \<noteq> 0" for sz align h b h'
  proof -
    have cond: "align \<noteq> 0" "65536 mod unat align = 0" "unat sz \<le> 65536"
      using a by (auto simp: sample_alloc_def split: if_splits)
    then obtain c where c: "find (\<lambda>b. \<forall>c\<in>set h. apart (b, sz) c) (map (\<lambda>i. HEAP_START + of_nat (65536 * i)) [0..<64]) = Some c"
        "b = c" "h' = (c, sz) # h"
      using a by (auto simp: sample_alloc_def split: option.splits)
    then obtain i where i: "i < 64" "c = HEAP_START + of_nat (65536 * i)" "\<forall>d\<in>set h. apart (c, sz) d"
      by (auto simp: find_Some_iff simp del: of_nat_mult)
    have u: "unat b = unat HEAP_START + 65536 * i" using sample_candidate [OF i(1)] i(2) c(2) by simp
    have "unat align dvd 65536" using cond(2) by (simp add: mod_eq_0_iff_dvd)
    moreover have "unat HEAP_START = 65536 * 1145324612" by (simp add: HEAP_START_def)
    ultimately have "unat align dvd unat b" using u by (metis dvd_add dvd_mult2)
    then show ?thesis
      using u i c cond(3) by (auto simp: word_le_nat_alt HEAP_END_def HEAP_SIZE_def)
  qed
  moreover have "sample_alloc sz align h = (b, h') \<Longrightarrow> b = 0 \<Longrightarrow> set h' = set h" for sz align h b h'
  proof -
    assume a: "sample_alloc sz align h = (b, h')" "b = 0"
    show "set h' = set h"
    proof (cases "h' = h")
      case False
      then obtain c where c: "find (\<lambda>b. \<forall>c\<in>set h. apart (b, sz) c) (map (\<lambda>i. HEAP_START + of_nat (65536 * i)) [0..<64]) = Some c" "b = c"
        using a by (auto simp: sample_alloc_def split: option.splits if_splits)
      then obtain i where "i < 64" "c = HEAP_START + of_nat (65536 * i)" by (auto simp: find_Some_iff simp del: of_nat_mult)
      then have "unat b = unat HEAP_START + 65536 * i" using sample_candidate c(2) by simp
      then show ?thesis using a(2) by (simp add: HEAP_START_def)
    qed simp
  qed
  ultimately show ?thesis
    unfolding heap_laws_def sample_platform_def platform.simps by (auto split: if_splits)
qed

lemma sample_platform_ok: "platform_ok sample_platform set"
  using sample_heap_laws x86_ref_laws
  by (simp add: platform_ok_def sample_platform_def HEAP_START_def HEAP_END_def HEAP_SIZE_def)

definition sample_kernel :: "((u64 \<times> u64) list, ata_view) kernel" where
  "sample_kernel =
     \<lparr>scheduler = None, cpu_regs = sample_cpu\<lparr>rsp := 0x308000\<rparr>, rsp0 = 0, interrupts_enabled = True, heap = [],
      frames = init_frame_allocator [], memory = (\<lambda>_ _. 0), physical_memory_offset = Some 0,
      screen = writer_init [], input = InputQueue_new, disk = ref_idle\<rparr>"

lemma sample_heap_first: "sample_alloc STACK_SIZE 4096 [] = (HEAP_START, [(HEAP_START, STACK_SIZE)])"
  by (simp add: sample_alloc_def upt_conv_Cons STACK_SIZE_def)

lemma sample_heap_second:
  "sample_alloc STACK_SIZE 4096 [(HEAP_START, STACK_SIZE)] =
     (HEAP_START + 65536, [(HEAP_START + 65536, STACK_SIZE), (HEAP_START, STACK_SIZE)])"
  by (simp add: sample_alloc_def upt_conv_Cons STACK_SIZE_def apart_def HEAP_START_def)

lemma spawned_rotation:
  assumes laws: "heap_laws p blocks" "x86_laws (x86 p)" and k: "scheduler k = Some st" "sched_ok (x86 p) st"
    and s: "spawned p start l4 user i k k'"
  shows "\<exists>st' t. scheduler k' = Some st' \<and> rotation st' = rotation st @ [i] \<and> zombie st' = zombie st
    \<and> position (\<lambda>t. t = None) (threads st) = Some i
    \<and> threads st' = (threads st)[i := Some t] \<and> entry t = Some start \<and> user_entry t = user \<and> page_table t = l4
    \<and> interrupts_were_enabled t = None \<and> open_files t = replicate MAX_OPEN_FILES None
    \<and> saved_frame (stack_mem (cpu_regs k')) (stack_pointer t) = [0, 0, 0, 0, 0, 0, thread_trampoline_addr p]
    \<and> kernel_page_table st' = kernel_page_table st
    \<and> slot_generations st' = (slot_generations st)[i := slot_generations st ! i + 1]
    \<and> unat (slot_generations st ! i) + 1 < 2 ^ 64
    \<and> heap_alloc p STACK_SIZE 4096 (heap k) = (stack_base t, heap k') \<and> kernel_stack_top t = stack_base t + STACK_SIZE
    \<and> interrupts_enabled k' = interrupts_enabled k \<and> physical_memory_offset k' = physical_memory_offset k
    \<and> cr3 (cpu_regs k') = cr3 (cpu_regs k)"
proof -
  obtain q base mem where s: "base \<noteq> 0" "heap_alloc p STACK_SIZE 4096 (heap k) = (base, heap k')"
     "position (\<lambda>t. t = None) (threads st) = Some i" "push_back i (ready_queue st) = Inr q"
     "saved_frame mem (base + STACK_SIZE - 64) = [0, 0, 0, 0, 0, 0, thread_trampoline_addr p]"
     "k' = k\<lparr>heap := heap k', frames := frames k', memory := memory k', cpu_regs := (cpu_regs k)\<lparr>stack_mem := mem\<rparr>,
         scheduler := Some (set_thread i (Some (new_thread (base + STACK_SIZE - 64) base start l4 (base + STACK_SIZE) user))
           (st\<lparr>slot_generations := (slot_generations st)[i := slot_generations st ! i + 1], ready_queue := q\<rparr>))\<rparr>"
     "unat (slot_generations st ! i) + 1 < 2 ^ 64"
    using s k(1) unfolding spawned_def by auto
  have base: "unat base + 65536 \<le> HEAP_END" by (rule spawned_base [OF laws(1) s(2,1)])
  have q: "queued q = queued (ready_queue st) @ [i]"
    by (rule sched_ok_spawn(2) [OF k(2) s(3,4) new_thread_ok [OF laws(2) base]])
  let ?t = "new_thread (base + STACK_SIZE - 64) base start l4 (base + STACK_SIZE) user"
  let ?st = "set_thread i (Some ?t) (st\<lparr>slot_generations := (slot_generations st)[i := slot_generations st ! i + 1], ready_queue := q\<rparr>)"
  have f: "scheduler k' = Some ?st" "cpu_regs k' = (cpu_regs k)\<lparr>stack_mem := mem\<rparr>"
      "interrupts_enabled k' = interrupts_enabled k" "physical_memory_offset k' = physical_memory_offset k"
    by (subst s(6), simp)+
  show ?thesis
    using f s(2,3,5,7) q by (intro exI [of _ ?st] exI [of _ ?t]) (simp add: rotation_def new_thread_def)
qed

text \<open>Reachable states with one, two and three threads, all but the first at \<open>thread_trampoline\<close>.\<close>

definition sample_state :: "((u64 \<times> u64) list, ata_view) kernel \<Rightarrow> nat \<Rightarrow> bool" where
  "sample_state k n \<longleftrightarrow> reachable sample_platform set k \<and> interrupts_enabled k \<and> physical_memory_offset k = Some 0
     \<and> cr3 (cpu_regs k) = 0x1000
     \<and> (\<exists>st. scheduler k = Some st \<and> rotation st = [0..<n] \<and> zombie st = None \<and> kernel_page_table st = 0x1000
       \<and> (\<forall>i<16. (threads st ! i = None) = (n \<le> i)) \<and> (\<forall>i<16. n \<le> i \<longrightarrow> slot_generations st ! i = 0)
       \<and> (\<forall>i<16. \<forall>t. threads st ! i = Some t \<longrightarrow> page_table t = None
           \<and> open_files t = replicate MAX_OPEN_FILES None))"

lemma sample_one: "sample_state (sample_kernel\<lparr>scheduler := Some (initial_state 0x1000)\<rparr>) 1"
proof -
  have "init sample_kernel = Inr ((), sample_kernel\<lparr>scheduler := Some (initial_state 0x1000)\<rparr>)"
    by (simp add: init_eq sample_kernel_def sample_cpu_def)
  moreover have "frame_in (boot_stack sample_platform) (rsp (cpu_regs sample_kernel) - 56)"
    by (simp add: frame_in_def frame_addrs_def word_in_def sample_platform_def sample_kernel_def)
  ultimately have "reachable sample_platform set (sample_kernel\<lparr>scheduler := Some (initial_state 0x1000)\<rparr>)"
    by (rule reachable_init)
  moreover have "\<forall>i<16. (threads (initial_state 0x1000) ! i = None) = (1 \<le> i)"
      "\<forall>i<16. 1 \<le> i \<longrightarrow> slot_generations (initial_state 0x1000) ! i = 0"
      "\<forall>i<16. \<forall>t. threads (initial_state 0x1000) ! i = Some t \<longrightarrow> page_table t = None \<and> open_files t = replicate MAX_OPEN_FILES None"
    by (intro allI impI; (case_tac i)?; simp add: initial_state_def boot_thread_def)+
  moreover have "rotation (initial_state 0x1000) = [0..<1]" "zombie (initial_state 0x1000) = None"
      "kernel_page_table (initial_state 0x1000) = 0x1000"
    using queued_new by (simp_all add: initial_state_def rotation_def)
  ultimately show ?thesis
    unfolding sample_state_def by (simp add: sample_kernel_def sample_cpu_def)
qed

lemma sample_spawn:
  assumes k: "sample_state k n" "n < 16" and a: "sample_alloc STACK_SIZE 4096 (heap k) = (b, h)" "b \<noteq> 0"
  shows "\<exists>k'. sample_state k' (Suc n) \<and> heap k' = h \<and> spawn sample_platform 0x205000 k = Inr ((), k')"
proof -
  obtain st where st: "reachable sample_platform set k" "scheduler k = Some st" "rotation st = [0..<n]" "zombie st = None"
      "\<forall>i<16. (threads st ! i = None) = (n \<le> i)" "\<forall>i<16. n \<le> i \<longrightarrow> slot_generations st ! i = 0"
      "\<forall>i<16. \<forall>t. threads st ! i = Some t \<longrightarrow> page_table t = None \<and> open_files t = replicate MAX_OPEN_FILES None"
      "kernel_page_table st = 0x1000" "cr3 (cpu_regs k) = 0x1000"
      "interrupts_enabled k" "physical_memory_offset k = Some 0"
    using k(1) by (auto simp: sample_state_def)
  have so: "sched_ok (x86 sample_platform) st"
    using reachable_ok [OF sample_platform_ok st(1)] st(2) by (simp add: kernel_ok_def)
  have laws: "heap_laws sample_platform set" "x86_laws (x86 sample_platform)"
    using sample_platform_ok by (auto simp: platform_ok_def)
  have len: "length (threads st) = 16" "length (slot_generations st) = 16" using sched_okD(1,2) [OF so] by (simp_all add: MAX_THREADS_def)
  then have pos: "position (\<lambda>t. t = None) (threads st) = Some n"
    using st(5) k(2) by (simp add: position_Some_iff)
  have g: "unat (slot_generations st ! n) + 1 < 2 ^ 64" using st(6) k(2) by simp
  have a': "heap_alloc sample_platform STACK_SIZE 4096 (heap k) = (b, h)" using a(1) by (simp add: sample_platform_def)
  obtain k' where k': "spawn sample_platform 0x205000 k = Inr ((), k')"
    using spawn_returns [OF laws(1) st(2) so a' a(2) pos g] by blast
  then obtain i where i: "spawned sample_platform 0x205000 None None i k k'" using spawn_spawned [OF laws(1)] by blast
  obtain st' t where st': "scheduler k' = Some st'" "rotation st' = rotation st @ [i]" "zombie st' = zombie st"
    "position (\<lambda>t. t = None) (threads st) = Some i" "threads st' = (threads st)[i := Some t]" "page_table t = None"
    "open_files t = replicate MAX_OPEN_FILES None" "kernel_page_table st' = kernel_page_table st"
    "slot_generations st' = (slot_generations st)[i := slot_generations st ! i + 1]"
    "heap_alloc sample_platform STACK_SIZE 4096 (heap k) = (stack_base t, heap k')"
    "interrupts_enabled k' = interrupts_enabled k" "physical_memory_offset k' = physical_memory_offset k"
    "cr3 (cpu_regs k') = cr3 (cpu_regs k)"
    using spawned_rotation [OF laws st(2) so i] by blast
  have i: "i = n" using st'(4) pos by simp
  have "reachable sample_platform set k'" using reachable_step [OF st(1)] step_spawn [OF k'] by blast
  moreover have "\<forall>j<16. (threads st' ! j = None) = (Suc n \<le> j)"
    using st(5) st'(5) i len k(2) by (auto simp: nth_list_update)
  moreover have "\<forall>j<16. Suc n \<le> j \<longrightarrow> slot_generations st' ! j = 0"
    using st(6) st'(9) i by (auto simp: nth_list_update)
  moreover have "\<forall>j<16. \<forall>u. threads st' ! j = Some u \<longrightarrow> page_table u = None \<and> open_files u = replicate MAX_OPEN_FILES None"
    using st(7) st'(5,6,7) i len k(2) by (auto simp: nth_list_update)
  moreover have "heap k' = h" using st'(10) a' by simp
  ultimately show ?thesis
    using st st' i k' unfolding sample_state_def by (intro exI [of _ k']) simp
qed

lemma sample_two: "\<exists>k. sample_state k 2 \<and> heap k = [(HEAP_START, STACK_SIZE)]"
proof -
  have "sample_alloc STACK_SIZE 4096 (heap (sample_kernel\<lparr>scheduler := Some (initial_state 0x1000)\<rparr>))
      = (HEAP_START, [(HEAP_START, STACK_SIZE)])"
    using sample_heap_first by (simp add: sample_kernel_def)
  moreover have "HEAP_START \<noteq> 0" "Suc 1 = 2" by (simp_all add: HEAP_START_def)
  ultimately show ?thesis using sample_spawn [OF sample_one] by (metis one_less_numeral_iff semiring_norm(76))
qed

lemma sample_three: "\<exists>k. sample_state k 3"
proof -
  obtain k where k: "sample_state k 2" "heap k = [(HEAP_START, STACK_SIZE)]" using sample_two by blast
  have "HEAP_START + 65536 \<noteq> 0" by (simp add: HEAP_START_def)
  moreover have "sample_alloc STACK_SIZE 4096 (heap k)
      = (HEAP_START + 65536, [(HEAP_START + 65536, STACK_SIZE), (HEAP_START, STACK_SIZE)])"
    using sample_heap_second k(2) by simp
  ultimately have "\<exists>k'. sample_state k' (Suc 2)" using sample_spawn [OF k(1)] by force
  then show ?thesis by simp
qed

end
