(* ===== verification/Sched_Props.thy ===== *)
theory Sched_Props
  imports Sched_Sample
begin

text \<open>
  What the scheduler guarantees, over the lemmas of the theories on its invariant, its steps and
  its saved contexts.
\<close>

section \<open>Switching is total and round robin\<close>

text \<open>The zombie, if there is one, can be freed.\<close>

definition reapable :: "('h, 'd) platform \<Rightarrow> ('h, 'd) kernel \<Rightarrow> bool" where
  "reapable p k \<longleftrightarrow> (case scheduler k of None \<Rightarrow> False | Some st \<Rightarrow>
     (case zombie st of None \<Rightarrow> True | Some z \<Rightarrow>
       (case threads st ! z of None \<Rightarrow> True | Some t \<Rightarrow> space_freeable (x86 p) k t)))"

definition reaped_state :: "scheduler_state \<Rightarrow> scheduler_state" where
  "reaped_state st = (case zombie st of None \<Rightarrow> st | Some z \<Rightarrow> set_thread z None (st\<lparr>zombie := None\<rparr>))"

lemma cr3_write_simps [simp]:
  "frames (cr3_write l4 k) = frames k" "memory (cr3_write l4 k) = memory k" "scheduler (cr3_write l4 k) = scheduler k"
  "physical_memory_offset (cr3_write l4 k) = physical_memory_offset k" "heap (cr3_write l4 k) = heap k"
  "interrupts_enabled (cr3_write l4 k) = interrupts_enabled k" "cpu_regs (cr3_write l4 k) = (cpu_regs k)\<lparr>cr3 := l4\<rparr>"
  by (simp_all add: cr3_write_def)

lemma reap_returns:
  assumes k: "scheduler k = Some st" and ok: "sched_ok (x86 p) st" and r: "reapable p k"
  shows "\<exists>k'. reap_zombie p k = Inr k' \<and> scheduler k' = Some (reaped_state st) \<and> sched_ok (x86 p) (reaped_state st)
    \<and> interrupts_enabled k' = interrupts_enabled k \<and> memory k' = memory k
    \<and> physical_memory_offset k' = physical_memory_offset k
    \<and> cpu_regs k' = (if zombie st = None then cpu_regs k else (cpu_regs k)\<lparr>cr3 := kernel_page_table st\<rparr>)
    \<and> (zombie st = None \<longrightarrow> k' = k)
    \<and> (\<forall>z t. zombie st = Some z \<and> threads st ! z = Some t \<longrightarrow>
         heap k' = heap_dealloc p (stack_base t) (stack_size t) 4096 (heap k)
       \<and> (global_ok (frames k) \<longrightarrow> global_ok (frames k'))
       \<and> global_avail (frames k') = rev (freed_frames (x86 p) k t) @ global_avail (frames k))"
proof (cases "zombie st")
  case None
  then show ?thesis using reap_zombie_None [OF k] k ok by (simp add: reaped_state_def)
next
  case (Some z)
  obtain t st' where t: "threads st ! z = Some t" "thread_ok (x86 p) t" "z < length (threads st)"
    "st' = set_thread z None (st\<lparr>zombie := None\<rparr>)" "sched_ok (x86 p) st'"
    "reap_zombie p k = free_thread p t (cr3_write (kernel_page_table st) (k\<lparr>scheduler := Some st'\<rparr>))"
    by (rule reap_zombie_Some [OF k ok Some])
  let ?k = "cr3_write (kernel_page_table st) (k\<lparr>scheduler := Some st'\<rparr>)"
  have f: "space_freeable (x86 p) ?k t" using r k Some t(1) by (auto simp: reapable_def space_freeable_def split: option.splits)
  have "freed_frames (x86 p) ?k t = freed_frames (x86 p) k t" by (auto simp: freed_frames_def split: option.splits)
  with free_thread_frees [OF t(2) f] show ?thesis
    using t Some by (auto simp: reaped_state_def)
qed

lemma reaped_rotation [simp]:
  "rotation (reaped_state st) = rotation st" "zombie (reaped_state st) = None"
  "current (reaped_state st) = current st" "ready_queue (reaped_state st) = ready_queue st"
  "kernel_page_table (reaped_state st) = kernel_page_table st" "slot_generations (reaped_state st) = slot_generations st"
  by (cases "zombie st"; simp add: reaped_state_def rotation_def)+

lemma occupied_update: "i \<in> occupied st \<Longrightarrow> occupied (set_thread i (Some t) st) = occupied st"
  by (auto simp: occupied_set_thread)

lemma schedule_rotates:
  assumes k: "scheduler k = Some st" and ok: "sched_ok (x86 p) st" and r: "reapable p k"
  shows "\<exists>k' st'. schedule p k = Inr k' \<and> scheduler k' = Some st' \<and> sched_ok (x86 p) st'
    \<and> rotation st' = rotate1 (rotation st) \<and> zombie st' = None \<and> reapable p k' \<and> occupied st' = occupied (reaped_state st)"
proof -
  obtain k1 where k1: "reap_zombie p k = Inr k1" "scheduler k1 = Some (reaped_state st)" "sched_ok (x86 p) (reaped_state st)"
    using reap_returns [OF assms] by blast
  show ?thesis
  proof (cases "queued (ready_queue st)")
    case Nil
    then have "schedule_switch p k1 = Inr k1" by (intro schedule_switch_empty [OF k1(2,3)]) simp
    then show ?thesis using k1 Nil
      by (auto simp: schedule_def rotation_def reapable_def intro!: exI [of _ k1])
  next
    case (Cons n ns)
    then have "queued (ready_queue (reaped_state st)) = n # ns" by simp
    from schedule_switch_rotates [OF k1(2,3) this] obtain k2 q where
      s: "schedule_switch p k1 = Inr k2" "queue_ok q" "queued q = ns @ [current (reaped_state st)]"
      and sw: "switched p (schedule_return_addr p) (Some (interrupts_enabled k1)) (current (reaped_state st)) n
        ((reaped_state st)\<lparr>ready_queue := q, current := n\<rparr>) (disable k1) k2"
      by blast
    obtain t where t: "scheduler k2 = Some (set_thread (current st) (Some t) ((reaped_state st)\<lparr>ready_queue := q, current := n\<rparr>))"
      by (rule switchedE [OF sw]) auto
    have "kernel_ok (x86 p) k2" using schedule_ok [OF _ s(1)] k1 by (simp add: kernel_ok_def)
    moreover have "occupied (set_thread (current st) (Some t) ((reaped_state st)\<lparr>ready_queue := q, current := n\<rparr>)) = occupied (reaped_state st)"
      using occupied_update [OF current_occupied [OF k1(3)], of t] by (simp add: occupied_def)
    ultimately show ?thesis using s k1(1) t Cons
      by (auto simp: schedule_def rotation_def reapable_def kernel_ok_def)
  qed
qed

primrec schedules :: "('h, 'd) platform \<Rightarrow> nat \<Rightarrow> ('h, 'd) kernel \<Rightarrow> ('h, 'd) kernel result" where
  "schedules p 0 k = Inr k"
| "schedules p (Suc n) k = bind_result (schedules p n k) (schedule p)"

lemma schedules_rotate:
  assumes k: "scheduler k = Some st" and ok: "sched_ok (x86 p) st" and r: "reapable p k"
  shows "\<exists>k' st'. schedules p n k = Inr k' \<and> scheduler k' = Some st' \<and> sched_ok (x86 p) st'
    \<and> rotation st' = rotate n (rotation st) \<and> reapable p k'"
proof (induction n)
  case 0
  then show ?case using assms by simp
next
  case (Suc n)
  then obtain k1 st1 where k1: "schedules p n k = Inr k1" "scheduler k1 = Some st1" "sched_ok (x86 p) st1"
    "rotation st1 = rotate n (rotation st)" "reapable p k1" by blast
  then show ?case using schedule_rotates [OF k1(2,3,5)] by auto
qed

text \<open>
  C2. The scheduler's invariant. In every state that any interleaving of scheduler operations
  reaches from \<open>init\<close>, the running thread, the queued threads and the pending zombie are
  distinct occupied slots of the thread table, the boot thread is running or queued, the kernel
  stacks of the table are apart from each other, and each stack but the boot thread's is a live
  64 KiB block of the heap.
\<close>

theorem scheduler_invariant:
  assumes "platform_ok p blocks" and "reachable p blocks k"
  shows "\<exists>st. scheduler k = Some st \<and> length (threads st) = MAX_THREADS \<and> queue_ok (ready_queue st)
    \<and> distinct (rotation st @ zombies st) \<and> set (rotation st @ zombies st) \<subseteq> occupied st \<and> 0 \<in> set (rotation st)
    \<and> (\<forall>i j t u. i < MAX_THREADS \<and> j < MAX_THREADS \<and> i \<noteq> j \<and> threads st ! i = Some t \<and> threads st ! j = Some u
         \<longrightarrow> apart (stack_area p i t) (stack_area p j u))
    \<and> (\<forall>i t. i < MAX_THREADS \<and> i \<noteq> 0 \<and> threads st ! i = Some t
         \<longrightarrow> (stack_base t, STACK_SIZE) \<in> blocks (heap k))"
proof -
  have ok: "kernel_ok (x86 p) k" "stacks_ok p blocks k" using reachable_ok [OF assms] by simp_all
  obtain st where st: "scheduler k = Some st" "sched_ok (x86 p) st" using ok(1) by (rule kernel_okE)
  note tab = stacks_okE(1) [OF ok(2) st(1)] and len = sched_okD(1) [OF st(2)]
  have "\<forall>i j t u. i < MAX_THREADS \<and> j < MAX_THREADS \<and> i \<noteq> j \<and> threads st ! i = Some t \<and> threads st ! j = Some u
         \<longrightarrow> apart (stack_area p i t) (stack_area p j u)"
    using table_okD(1) [OF tab] unfolding len by blast
  moreover have "\<forall>i t. i < MAX_THREADS \<and> i \<noteq> 0 \<and> threads st ! i = Some t \<longrightarrow> (stack_base t, STACK_SIZE) \<in> blocks (heap k)"
    using table_okD(2,3) [OF tab] unfolding len by metis
  ultimately show ?thesis using st(1) sched_okD(1,3,4,5,6) [OF st(2)] by (intro exI [of _ st]) blast
qed

theorem scheduler_invariant_witness:
  "\<exists>k st. reachable sample_platform set k \<and> scheduler k = Some st \<and> rotation st = [0, 1, 2]
     \<and> distinct (rotation st @ zombies st) \<and> 0 \<in> set (rotation st)"
proof -
  obtain k st where k: "reachable sample_platform set k" "scheduler k = Some st" "rotation st = [0..<3]"
    using sample_three by (auto simp: sample_state_def)
  moreover have "[0..<3] = [0, 1, 2 :: nat]" by (simp add: upt_rec)
  ultimately show ?thesis using scheduler_invariant [OF sample_platform_ok k(1)] by auto
qed

lemma exit_leaves:
  assumes k: "scheduler k = Some st" and ok: "sched_ok (x86 p) st" and r: "reapable p k" and c: "current st \<noteq> 0"
  shows "\<exists>k1 k' st'. reap_zombie p k = Inr k1 \<and> exit_switch p k1 = Inr k' \<and> exit_current_thread p k = Inr k'
    \<and> scheduler k' = Some st' \<and> sched_ok (x86 p) st' \<and> rotation st' = tl (rotation st) \<and> zombie st' = Some (current st)
    \<and> (\<exists>t. threads st' = (threads (reaped_state st))[current st := Some t]) \<and> heap k' = heap k1 \<and> frames k' = frames k1
    \<and> memory k' = memory k1 \<and> physical_memory_offset k' = physical_memory_offset k1"
proof -
  obtain k1 where k1: "reap_zombie p k = Inr k1" "scheduler k1 = Some (reaped_state st)" "sched_ok (x86 p) (reaped_state st)"
    using reap_returns [OF k ok r] by blast
  obtain k' q n ns where e: "queued (ready_queue (reaped_state st)) = n # ns" "exit_switch p k1 = Inr k'" "queued q = ns"
    and sw: "switched p (exit_return_addr p) None (current (reaped_state st)) n
        ((reaped_state st)\<lparr>ready_queue := q, current := n, zombie := Some (current (reaped_state st))\<rparr>) (disable k1) k'"
    using exit_switch_leaves [OF k1(2,3)] c by auto
  obtain t where t: "scheduler k' = Some (set_thread (current st) (Some t)
      ((reaped_state st)\<lparr>ready_queue := q, current := n, zombie := Some (current st)\<rparr>))"
    and same: "heap k' = heap k1" "frames k' = frames k1" "memory k' = memory k1"
    by (rule switchedE [OF sw]) auto
  have "physical_memory_offset k' = physical_memory_offset k1"
    using sw by (auto simp: switched_def disable_def)
  moreover have "kernel_ok (x86 p) k'" using exit_ok [OF _ e(2)] k1 by (simp add: kernel_ok_def)
  moreover have "exit_current_thread p k = Inr k'" using k1(1) e(2) by (simp add: exit_current_thread_def)
  ultimately show ?thesis using k1 e t same
    by (intro exI [of _ k1] exI [of _ k'] exI [of _ "set_thread (current st) (Some t)
      ((reaped_state st)\<lparr>ready_queue := q, current := n, zombie := Some (current st)\<rparr>)"])
      (auto simp: rotation_def kernel_ok_def)
qed

text \<open>
  C3. Switching is round robin, and only the boot thread's exit panics. When the pending zombie, if any, can be freed,
  \<open>schedule\<close> returns and moves the running thread behind all queued ones; \<open>exit_current_thread\<close>
  returns with the running thread out of the rotation and pending as the zombie, unless the boot
  thread calls it, which is a panic.
\<close>

theorem switching_refines_rotation:
  assumes "kernel_ok (x86 p) k" and "scheduler k = Some st" and "reapable p k"
  shows "(\<exists>k' st'. schedule p k = Inr k' \<and> scheduler k' = Some st' \<and> rotation st' = rotate1 (rotation st) \<and> zombie st' = None)
    \<and> (if current st = 0 then exit_current_thread p k = panic ''the boot thread can't exit''
       else \<exists>k' st'. exit_current_thread p k = Inr k' \<and> scheduler k' = Some st' \<and> rotation st' = tl (rotation st)
         \<and> zombie st' = Some (current st))"
proof -
  have so: "sched_ok (x86 p) st" using assms(1,2) by (simp add: kernel_ok_def)
  have "exit_current_thread p k = panic ''the boot thread can't exit''" if "current st = 0"
  proof -
    obtain k1 where "reap_zombie p k = Inr k1" "scheduler k1 = Some (reaped_state st)"
      using reap_returns [OF assms(2) so assms(3)] by blast
    then show ?thesis using exit_switch_boot [of k1 "reaped_state st" p] that by (simp add: exit_current_thread_def)
  qed
  then show ?thesis using schedule_rotates [OF assms(2) so assms(3)] exit_leaves [OF assms(2) so assms(3)] by auto
qed

theorem switching_refines_rotation_witness:
  "\<exists>k k' st'. schedule sample_platform k = Inr k' \<and> scheduler k' = Some st' \<and> rotation st' = [1, 2, 0]"
proof -
  obtain k st where k: "reachable sample_platform set k" "scheduler k = Some st" "rotation st = [0..<3]" "zombie st = None"
    using sample_three by (auto simp: sample_state_def)
  have "kernel_ok (x86 sample_platform) k" using reachable_ok [OF sample_platform_ok k(1)] by simp
  moreover have "reapable sample_platform k" using k by (simp add: reapable_def)
  moreover have "[0..<3] = [0, 1, 2 :: nat]" by (simp add: upt_rec)
  ultimately show ?thesis using switching_refines_rotation [OF _ k(2)] k(3) by fastforce
qed

text \<open>
  C4. No thread starves. The thread at position \<open>n\<close> of the rotation is the running one after
  \<open>n\<close> calls of \<open>schedule\<close>, and after any number of calls the rotation still has the same
  threads in the same cyclic order.
\<close>

theorem every_thread_runs:
  assumes "kernel_ok (x86 p) k" and "scheduler k = Some st" and "reapable p k"
  shows "\<exists>k' st'. schedules p n k = Inr k' \<and> scheduler k' = Some st' \<and> rotation st' = rotate n (rotation st)
    \<and> current st' = rotation st ! (n mod length (rotation st))"
proof -
  have so: "sched_ok (x86 p) st" using assms(1,2) by (simp add: kernel_ok_def)
  obtain k' st' where k': "schedules p n k = Inr k'" "scheduler k' = Some st'" "rotation st' = rotate n (rotation st)"
    using schedules_rotate [OF assms(2) so assms(3)] by blast
  have ne: "rotation st \<noteq> []" by (simp add: rotation_def)
  have "current st' = hd (rotation st')" by (simp add: rotation_def)
  also have "\<dots> = rotation st ! (n mod length (rotation st))" using k'(3) ne by (simp add: hd_rotate_conv_nth)
  finally show ?thesis using k' by blast
qed

theorem every_thread_runs_witness:
  "\<exists>k k' st'. schedules sample_platform 5 k = Inr k' \<and> scheduler k' = Some st' \<and> current st' = 2"
proof -
  obtain k st where k: "reachable sample_platform set k" "scheduler k = Some st" "rotation st = [0..<3]" "zombie st = None"
    using sample_three by (auto simp: sample_state_def)
  have "kernel_ok (x86 sample_platform) k" using reachable_ok [OF sample_platform_ok k(1)] by simp
  moreover have "reapable sample_platform k" using k by (simp add: reapable_def)
  ultimately obtain k' st' where "schedules sample_platform 5 k = Inr k'" "scheduler k' = Some st'"
      "current st' = rotation st ! (5 mod length (rotation st))"
    using every_thread_runs [OF _ k(2), where n = 5] by blast
  moreover have "[0..<3] ! (5 mod length [0..<3]) = (2 :: nat)" by simp
  ultimately show ?thesis using k(3) by metis
qed

section \<open>Slots are accounted for\<close>

definition accounted :: "scheduler_state \<Rightarrow> bool" where
  "accounted st \<longleftrightarrow> occupied st = set (rotation st @ zombies st)"

lemma reaped_occupied:
  assumes "sched_ok x st"
  shows "occupied (reaped_state st) = occupied st - set (zombies st)"
proof (cases "zombie st")
  case None
  then show ?thesis by (simp add: reaped_state_def zombies_def)
next
  case (Some z)
  obtain t where "threads st ! z = Some t" "z < length (threads st)" by (rule take_zombie_Some [OF assms Some])
  then have "occupied (set_thread z None (st\<lparr>zombie := None\<rparr>)) = occupied (st\<lparr>zombie := None\<rparr>) - {z}"
    by (intro occupied_clear) simp
  then show ?thesis using Some by (simp add: reaped_state_def zombies_def occupied_def)
qed

text \<open>
  C9. When the two halves of a switch are not interrupted, no slot is lost: if every occupied
  slot is running, queued or pending as the zombie, this still holds after \<open>schedule\<close>,
  \<open>exit_current_thread\<close> and \<open>spawn\<close>.
\<close>

theorem uninterrupted_switches_lose_nothing:
  assumes "platform_ok p blocks" and "kernel_ok (x86 p) k" and "scheduler k = Some st" and "reapable p k" and "accounted st"
  shows "(schedule p k = Inr k' \<or> exit_current_thread p k = Inr k' \<or> spawn p start k = Inr ((), k'))
    \<longrightarrow> (\<exists>st'. scheduler k' = Some st' \<and> accounted st')"
proof (intro impI, elim disjE)
  have so: "sched_ok (x86 p) st" using assms(2,3) by (simp add: kernel_ok_def)
  have laws: "heap_laws p blocks" "x86_laws (x86 p)" using assms(1) by (auto simp: platform_ok_def)
  have cur: "current st < length (threads st)" using sched_ok_current [OF so] by blast
  have rot: "set (rotation st) \<inter> set (zombies st) = {}" using sched_okD(4) [OF so] by auto
  note acc = assms(5) [unfolded accounted_def]
  have reaped: "occupied (reaped_state st) = set (rotation st)" using reaped_occupied [OF so] acc rot by auto
  {
    assume "schedule p k = Inr k'"
    then obtain st' where st': "scheduler k' = Some st'" "rotation st' = rotate1 (rotation st)" "zombie st' = None"
        "occupied st' = occupied (reaped_state st)"
      using schedule_rotates [OF assms(3) so assms(4)] by auto
    then show "\<exists>st'. scheduler k' = Some st' \<and> accounted st'" using reaped by (simp add: accounted_def zombies_def)
  next
    assume ex: "exit_current_thread p k = Inr k'"
    then have "current st \<noteq> 0"
      using reap_returns [OF assms(3) so assms(4)] exit_switch_boot by (fastforce simp: exit_current_thread_def)
    then obtain st' t where st': "scheduler k' = Some st'" "rotation st' = tl (rotation st)" "zombie st' = Some (current st)"
        "threads st' = (threads (reaped_state st))[current st := Some t]"
      using exit_leaves [OF assms(3) so assms(4)] ex by auto
    have "occupied st' = occupied (set_thread (current st) (Some t) (reaped_state st))"
      using st'(4) by (simp add: occupied_def)
    also have "\<dots> = occupied (reaped_state st)"
      by (rule occupied_update) (simp add: reaped rotation_def)
    finally have "occupied st' = occupied (reaped_state st)" .
    moreover have "set (rotation st' @ zombies st') = set (rotation st)"
      using st'(2,3) by (auto simp: rotation_def zombies_def)
    ultimately have "accounted st'" using reaped by (simp only: accounted_def)
    then show "\<exists>st'. scheduler k' = Some st' \<and> accounted st'" using st'(1) by blast
  next
    assume "spawn p start k = Inr ((), k')"
    then obtain i st' t where st': "scheduler k' = Some st'" "rotation st' = rotation st @ [i]" "zombie st' = zombie st"
        "threads st' = (threads st)[i := Some t]" "position (\<lambda>t. t = None) (threads st) = Some i"
      using spawn_spawned [OF laws(1)] spawned_rotation [OF laws assms(3) so] by metis
    have "occupied st' = insert i (occupied st)"
      using st'(4,5) by (auto simp: occupied_def position_Some_iff nth_list_update)
    then show "\<exists>st'. scheduler k' = Some st' \<and> accounted st'"
      using st' acc by (auto simp: accounted_def zombies_def)
  }
qed

theorem uninterrupted_switches_lose_nothing_witness:
  "\<exists>k k' st'. schedule sample_platform k = Inr k' \<and> scheduler k' = Some st' \<and> accounted st'"
proof -
  obtain k st where k: "reachable sample_platform set k" "scheduler k = Some st" "rotation st = [0..<3]" "zombie st = None"
      "\<forall>i<16. (threads st ! i = None) = (3 \<le> i)"
    using sample_three by (auto simp: sample_state_def)
  have ok: "kernel_ok (x86 sample_platform) k" using reachable_ok [OF sample_platform_ok k(1)] by simp
  then have so: "sched_ok (x86 sample_platform) st" using k(2) by (simp add: kernel_ok_def)
  have r: "reapable sample_platform k" using k by (simp add: reapable_def)
  have "i < 16 \<Longrightarrow> (threads st ! i \<noteq> None) = (i < 3)" for i using k(5) by (metis not_le)
  then have "i \<in> occupied st \<longleftrightarrow> i < 3" for i
    using sched_okD(1) [OF so] by (cases "i < 16") (simp_all add: occupied_def MAX_THREADS_def)
  then have "occupied st = {..<3}" by auto
  moreover have "set (rotation st @ zombies st) = {..<3}" using k(3,4) by (simp add: zombies_def atLeast0LessThan)
  ultimately have "accounted st" by (simp only: accounted_def)
  moreover obtain k' where k': "schedule sample_platform k = Inr k'" using schedule_rotates [OF k(2) so r] by blast
  ultimately show ?thesis
    using uninterrupted_switches_lose_nothing [OF sample_platform_ok ok k(2) r, of k'] by blast
qed

definition lost :: "nat \<Rightarrow> ('h, 'd) kernel \<Rightarrow> bool" where
  "lost z k \<longleftrightarrow> (\<exists>st. scheduler k = Some st \<and> z \<in> occupied st \<and> z \<notin> set (rotation st @ zombies st))"

lemma lost_switched:
  assumes sw: "switched p ret were (current st) n st1 (disable k) k'" and st1: "threads st1 = threads st"
    and c: "current st \<in> occupied st" and z: "z \<in> occupied st" "z \<notin> set (rotation st1 @ zombies st1)"
  shows "lost z k'"
proof -
  obtain t where t: "scheduler k' = Some (set_thread (current st) (Some t) st1)" by (rule switchedE [OF sw]) blast
  have occ: "occupied st1 = occupied st" using st1 by (simp add: occupied_def)
  then have "z \<in> occupied (set_thread (current st) (Some t) st1)" using z(1) c by (simp add: occupied_update)
  moreover have "set (rotation (set_thread (current st) (Some t) st1) @ zombies (set_thread (current st) (Some t) st1))
      = set (rotation st1 @ zombies st1)" by (simp add: rotation_def zombies_def)
  ultimately show ?thesis using t z(2) unfolding lost_def by blast
qed

lemma lost_kstep:
  assumes p: "platform_ok p blocks" and ok: "kernel_ok (x86 p) k" and step: "kstep p blocks k k'" and l: "lost z k"
  shows "lost z k'"
proof -
  obtain st where st: "scheduler k = Some st" and z: "z \<in> occupied st" "z \<notin> set (rotation st @ zombies st)"
    using l by (auto simp: lost_def)
  have so: "sched_ok (x86 p) st" using ok st by (simp add: kernel_ok_def)
  have laws: "heap_laws p blocks" "x86_laws (x86 p)" using p by (auto simp: platform_ok_def)
  note cur = current_occupied [OF so]
  show ?thesis
  proof (cases rule: kstep_effect [OF laws(1) step ok])
    case 1
    show ?thesis
    proof (cases rule: reaps_cases [OF st so 1])
      case 1
      then show ?thesis using l by simp
    next
      case (2 y t st' h c fs)
      have "z \<noteq> y" using z(2) 2(1) by (auto simp: zombies_def)
      then have "z \<in> occupied st'" using z(1) 2(3,4) by (auto simp: occupied_def nth_list_update)
      moreover have "z \<notin> set (rotation st' @ zombies st')" using z(2) 2(4) by (simp add: rotation_def zombies_def)
      moreover have "scheduler k' = Some st'" using 2(6) by simp
      ultimately show ?thesis unfolding lost_def by blast
    qed
  next
    case 2
    show ?thesis
    proof (cases rule: schedule_cases [OF st so 2])
      case 1
      then show ?thesis using l by simp
    next
      case (2 n ns q)
      show ?thesis
        by (rule lost_switched [OF 2(4) _ cur z(1)]) (use z(2) 2(1,3) in \<open>auto simp: rotation_def zombies_def\<close>)
    qed
  next
    case 3
    obtain n ns q where e: "queued (ready_queue st) = n # ns" "queued q = ns"
      "switched p (exit_return_addr p) None (current st) n
        (st\<lparr>ready_queue := q, current := n, zombie := Some (current st)\<rparr>) (disable k) k'"
      by (rule exit_cases [OF st so 3])
    show ?thesis
      by (rule lost_switched [OF e(3) _ cur z(1)]) (use z(2) e(1,2) in \<open>auto simp: rotation_def zombies_def\<close>)
  next
    case (4 start l4 user i)
    then obtain st' t where st': "scheduler k' = Some st'" "rotation st' = rotation st @ [i]" "zombie st' = zombie st"
        "threads st' = (threads st)[i := Some t]" "position (\<lambda>t. t = None) (threads st) = Some i"
      using spawned_rotation [OF laws st so] by blast
    have "i \<noteq> z" using z(1) st'(5) by (auto simp: occupied_def position_Some_iff)
    then have "z \<in> occupied st'" "z \<notin> set (rotation st' @ zombies st')"
      using z st' by (auto simp: occupied_def nth_list_update zombies_def)
    then show ?thesis using st'(1) unfolding lost_def by blast
  next
    case 5
    then obtain t' b where t': "k' = k\<lparr>scheduler := Some (set_thread (current st) (Some t') st), interrupts_enabled := b\<rparr>"
      using st by (auto simp: touches_def)
    have "z \<in> occupied (set_thread (current st) (Some t') st)" using z(1) cur by (simp add: occupied_update)
    then show ?thesis using z(2) t' by (simp add: lost_def rotation_def zombies_def)
  next
    case 6
    then show ?thesis using l by (simp add: runs_def lost_def)
  qed
qed

lemma lost_forever:
  assumes "platform_ok p blocks" and "(kstep p blocks)\<^sup>*\<^sup>* k k'" and "kernel_ok (x86 p) k" and "lost z k"
  shows "lost z k'"
proof -
  from assms(2,3,4) have "kernel_ok (x86 p) k' \<and> lost z k'"
  proof induction
    case base
    then show ?case by simp
  next
    case (step y w)
    then show ?case using kstep_ok [OF assms(1) step(2)] lost_kstep [OF assms(1) _ step(2)] by blast
  qed
  then show ?thesis by simp
qed

text \<open>
  C8. A timer tick between the two halves of an exit can lose a slot for good. When the switch of
  \<open>exit_current_thread\<close> runs while a zombie is pending, as it can after a tick behind its
  \<open>reap_zombie\<close>, it overwrites the zombie: the slot stays occupied, neither in the rotation nor
  pending, in every later state.
\<close>

theorem interrupted_exit_loses_zombie:
  assumes "platform_ok p blocks" and "kernel_ok (x86 p) k" and "scheduler k = Some st"
    and "zombie st = Some z" and "current st \<noteq> 0"
  shows "\<exists>k'. exit_switch p k = Inr k' \<and> (\<forall>k''. (kstep p blocks)\<^sup>*\<^sup>* k' k'' \<longrightarrow> lost z k'')"
proof -
  have so: "sched_ok (x86 p) st" using assms(2,3) by (simp add: kernel_ok_def)
  obtain k' q n ns where e: "queued (ready_queue st) = n # ns" "exit_switch p k = Inr k'" "queued q = ns"
    "switched p (exit_return_addr p) None (current st) n
        (st\<lparr>ready_queue := q, current := n, zombie := Some (current st)\<rparr>) (disable k) k'"
    using exit_switch_leaves [OF assms(3) so assms(5)] by blast
  have z: "z \<in> occupied st" "z \<notin> set (rotation st)"
    using sched_okD(4,5) [OF so] assms(4) by (auto simp: zombies_def)
  have "lost z k'"
    by (rule lost_switched [OF e(4) _ current_occupied [OF so] z(1)])
      (use z(2) e(1,3) in \<open>auto simp: rotation_def zombies_def\<close>)
  then show ?thesis using lost_forever [OF assms(1)] exit_ok [OF assms(2) e(2)] e(2) by blast
qed

text \<open>
  Such an interleaving of three threads: thread 2 starts to exit with nothing to reap, ticks take
  the kernel through threads 0 and 1, thread 1 exits, and thread 2 continues with a zombie pending.
\<close>

lemma reachable_steps: "(kstep p blocks)\<^sup>*\<^sup>* k k' \<Longrightarrow> reachable p blocks k \<Longrightarrow> reachable p blocks k'"
  by (induction rule: rtranclp_induct) (auto intro: reachable_step)

lemma reachable_sched_ok:
  "platform_ok p blocks \<Longrightarrow> reachable p blocks k \<Longrightarrow> scheduler k = Some st \<Longrightarrow> sched_ok (x86 p) st"
  using reachable_ok [of p blocks k] by (simp add: kernel_ok_def)

lemma ticks:
  assumes p: "platform_ok p blocks" and k: "reachable p blocks k" "scheduler k = Some st" "zombie st = None"
  shows "\<exists>k' st'. (kstep p blocks)\<^sup>*\<^sup>* k k' \<and> scheduler k' = Some st' \<and> rotation st' = rotate n (rotation st) \<and> zombie st' = None"
proof (induction n)
  case 0
  show ?case using k(2,3) by (intro exI [of _ k] exI [of _ st]) simp
next
  case (Suc n)
  then obtain k1 st1 where k1: "(kstep p blocks)\<^sup>*\<^sup>* k k1" "scheduler k1 = Some st1"
      "rotation st1 = rotate n (rotation st)" "zombie st1 = None" by blast
  have so: "sched_ok (x86 p) st1" by (rule reachable_sched_ok [OF p reachable_steps [OF k1(1) k(1)] k1(2)])
  have r: "reapable p k1" using k1(2,4) by (simp add: reapable_def)
  obtain k' st' where k': "schedule p k1 = Inr k'" "scheduler k' = Some st'" "rotation st' = rotate1 (rotation st1)" "zombie st' = None"
    using schedule_rotates [OF k1(2) so r] by blast
  then have "schedule_switch p k1 = Inr k'" using reap_zombie_None [OF k1(2,4)] by (simp add: schedule_def)
  from rtranclp.rtrancl_into_rtrancl [OF k1(1) step_schedule [OF this]]
  show ?case using k' k1(3) by (intro exI [of _ k'] exI [of _ st']) simp
qed

lemma sample_interrupted_exit:
  "\<exists>k k' st st'. reachable sample_platform set k \<and> scheduler k = Some st \<and> current st = 2 \<and> reap_zombie sample_platform k = Inr k
     \<and> (kstep sample_platform set)\<^sup>*\<^sup>* k k' \<and> scheduler k' = Some st' \<and> current st' = 2 \<and> zombie st' = Some 1"
proof -
  note p = sample_platform_ok
  obtain k0 st0 where k0: "reachable sample_platform set k0" "scheduler k0 = Some st0" "rotation st0 = [0..<3]" "zombie st0 = None"
    using sample_three by (auto simp: sample_state_def)
  obtain k1 st1 where k1: "(kstep sample_platform set)\<^sup>*\<^sup>* k0 k1" "scheduler k1 = Some st1"
      "rotation st1 = rotate 2 (rotation st0)" "zombie st1 = None"
    using ticks [OF p k0(1,2,4)] by blast
  have r1: "reachable sample_platform set k1" by (rule reachable_steps [OF k1(1) k0(1)])
  obtain k2 st2 where k2: "(kstep sample_platform set)\<^sup>*\<^sup>* k1 k2" "scheduler k2 = Some st2"
      "rotation st2 = rotate 2 (rotation st1)" "zombie st2 = None"
    using ticks [OF p r1 k1(2,4)] by blast
  have rot1: "rotation st1 = [2, 0, 1]" using k1(3) k0(3) by (simp add: upt_rec numeral_2_eq_2)
  then have rot2: "rotation st2 = [1, 2, 0]" using k2(3) by (simp add: numeral_2_eq_2)
  have so: "sched_ok (x86 sample_platform) st2" by (rule reachable_sched_ok [OF p reachable_steps [OF k2(1) r1] k2(2)])
  have r: "reapable sample_platform k2" using k2(2,4) by (simp add: reapable_def)
  have c: "current st2 = 1" "current st1 = 2" using rot1 rot2 by (simp_all add: rotation_def)
  then obtain ka k3 st3 where k3: "reap_zombie sample_platform k2 = Inr ka" "exit_switch sample_platform ka = Inr k3"
      "scheduler k3 = Some st3" "rotation st3 = tl (rotation st2)" "zombie st3 = Some (current st2)"
    using exit_leaves [OF k2(2) so r] by auto
  have "ka = k2" using k3(1) reap_zombie_None [OF k2(2,4)] by simp
  then have "(kstep sample_platform set)\<^sup>*\<^sup>* k1 k3"
    using rtranclp.rtrancl_into_rtrancl [OF k2(1) step_exit] k3(2) by simp
  moreover have "current st3 = 2" using k3(4) rot2 by (simp add: rotation_def)
  ultimately show ?thesis using r1 k1(2) c k3(3,5) reap_zombie_None [OF k1(2,4)] by auto
qed

theorem interrupted_exit_loses_zombie_witness:
  "\<exists>k k'. reachable sample_platform set k \<and> exit_switch sample_platform k = Inr k' \<and> lost 1 k'"
proof -
  obtain k k' st' where k: "reachable sample_platform set k" "(kstep sample_platform set)\<^sup>*\<^sup>* k k'"
      "scheduler k' = Some st'" "current st' = 2" "zombie st' = Some 1"
    using sample_interrupted_exit by blast
  have r: "reachable sample_platform set k'" by (rule reachable_steps [OF k(2,1)])
  have ok: "kernel_ok (x86 sample_platform) k'" using reachable_ok [OF sample_platform_ok r] by simp
  have "current st' \<noteq> 0" using k(4) by simp
  from interrupted_exit_loses_zombie [OF sample_platform_ok ok k(3,5) this] r show ?thesis by blast
qed

end
