(* ===== verification/Sched_Life.thy ===== *)
theory Sched_Life
  imports Sched_Props
begin

text \<open>
  The life of a thread: how it starts, that it resumes where it was suspended, what its handle
  and its descriptors mean, and that everything it owned is reclaimed.
\<close>

section \<open>Suspension and resumption\<close>

lemma away_suspended:
  assumes p: "platform_ok p blocks" and k0: "reachable p blocks k0" "scheduler k0 = Some st0" "current st0 = i"
    and k1: "schedule_switch p k0 = Inr k1" "scheduler k1 = Some st1" "current st1 \<noteq> i"
  shows "\<exists>t. i \<in> set (queued (ready_queue st1)) \<and> threads st1 ! i = Some t \<and> stack_pointer t = rsp (cpu_regs k0) - 56
    \<and> interrupts_were_enabled t = Some (interrupts_enabled k0)
    \<and> saved_frame (stack_mem (cpu_regs k1)) (stack_pointer t) = callee_saved (cpu_regs k0) @ [schedule_return_addr p]"
proof -
  have so: "sched_ok (x86 p) st0" by (rule reachable_sched_ok [OF p k0(1,2)])
  show ?thesis
  proof (cases rule: schedule_cases [OF k0(2) so k1(1)])
    case 1
    then show ?thesis using k0 k1 by simp
  next
    case (2 n ns q)
    obtain t u sp cpu where h: "threads (st0\<lparr>ready_queue := q, current := n\<rparr>) ! current st0 = Some t"
      "call_switch_to (schedule_return_addr p) (stack_pointer u) (space_of (st0\<lparr>ready_queue := q, current := n\<rparr>) u)
         (cpu_regs (disable k0)) = (sp, cpu)"
      "sp = rsp (cpu_regs (disable k0)) - 56" "cpu_regs k1 = cpu"
      "scheduler k1 = Some (set_thread (current st0) (Some (t\<lparr>stack_pointer := sp,
         interrupts_were_enabled := Some (interrupts_enabled k0)\<rparr>)) (st0\<lparr>ready_queue := q, current := n\<rparr>))"
      by (rule switchedE [OF 2(4)])
    have "current st0 < length (threads st0)" using sched_ok_current [OF so] by blast
    then show ?thesis
      using h k0(3) k1(2) 2(3) switch_saves(1) [OF h(2)] by auto
  qed
qed

text \<open>
  C1. A suspended thread resumes exactly where it was. When \<open>schedule\<close> switches away from a thread
  in a reachable state, then whatever the kernel does in between, the first switch back to it
  makes it return from its own call with its callee-saved registers, its stack pointer, its
  address space and the interrupt flag it had.
\<close>

theorem suspended_thread_resumes:
  assumes p: "platform_ok p blocks" and k0: "reachable p blocks k0" "scheduler k0 = Some st0" "current st0 = i"
    and k1: "schedule_switch p k0 = Inr k1" "scheduler k1 = Some st1" "current st1 \<noteq> i"
    and k2: "away p blocks i k1 k2" "schedule_switch p k2 = Inr k3 \<or> exit_switch p k2 = Inr k3"
    and k3: "scheduler k3 = Some st3" "current st3 = i"
  shows "rip (cpu_regs k3) = schedule_return_addr p \<and> callee_saved (cpu_regs k3) = callee_saved (cpu_regs k0)
    \<and> rsp (cpu_regs k3) = rsp (cpu_regs k0) \<and> interrupts_enabled k3 = interrupts_enabled k0
    \<and> (\<exists>t. threads st3 ! i = Some t \<and> cr3 (cpu_regs k3) = space_of st3 t)"
proof -
  obtain t where t: "i \<in> set (queued (ready_queue st1))" "threads st1 ! i = Some t" "stack_pointer t = rsp (cpu_regs k0) - 56"
      "interrupts_were_enabled t = Some (interrupts_enabled k0)"
      "saved_frame (stack_mem (cpu_regs k1)) (stack_pointer t) = callee_saved (cpu_regs k0) @ [schedule_return_addr p]"
    using away_suspended [OF p k0 k1] by blast
  have r1: "reachable p blocks k1" by (rule reachable_step [OF k0(1) step_schedule [OF k1(1)]])
  then have ok1: "kernel_ok (x86 p) k1" "stacks_ok p blocks k1" using reachable_ok [OF p] by blast+
  have ok2: "kernel_ok (x86 p) k2" "stacks_ok p blocks k2" "keeps k1 k2 i t"
    using away_keeps [OF p k2(1) ok1 k1(2) t(1,2)] by simp_all
  obtain st2 where st2: "scheduler k2 = Some st2" "i \<in> set (queued (ready_queue st2))" "threads st2 ! i = Some t"
      "saved_frame (stack_mem (cpu_regs k2)) (stack_pointer t) = saved_frame (stack_mem (cpu_regs k1)) (stack_pointer t)"
    using ok2(3) by (auto simp: keeps_def)
  have "sched_ok (x86 p) st2" using ok2(1) st2(1) by (simp add: kernel_ok_def)
  then have ne: "i \<noteq> current st2" using sched_okD(4) st2(2) by (auto simp: rotation_def)
  note into = step_into [OF p ok2(1,2) st2(1) k2(2) k3 ne st2(3)]
  have "callee_saved (cpu_regs k3) @ [rip (cpu_regs k3)] = callee_saved (cpu_regs k0) @ [schedule_return_addr p]"
    using into(1) st2(4) t(5) by simp
  then show ?thesis using into t(3,4) by simp
qed

theorem suspended_thread_resumes_witness:
  "\<exists>k0 k1 k3 st3. schedule_switch sample_platform k0 = Inr k1 \<and> schedule_switch sample_platform k1 = Inr k3
     \<and> scheduler k3 = Some st3 \<and> current st3 = 0
     \<and> rip (cpu_regs k3) = 0x203000 \<and> rsp (cpu_regs k3) = rsp (cpu_regs k0) \<and> interrupts_enabled k3"
proof -
  note p = sample_platform_ok
  obtain k0 st0 where k0: "reachable sample_platform set k0" "scheduler k0 = Some st0" "rotation st0 = [0..<2]"
      "zombie st0 = None" "interrupts_enabled k0"
    using sample_two by (auto simp: sample_state_def)
  have rot: "rotation st0 = [0, 1]" using k0(3) by (simp add: upt_rec)
  have sw: "\<exists>k' st'. schedule_switch sample_platform k = Inr k' \<and> scheduler k' = Some st' \<and> rotation st' = rotate1 (rotation st) \<and> zombie st' = None"
    if k: "reachable sample_platform set k" "scheduler k = Some st" "zombie st = None" for k st
    using schedule_rotates [OF k(2) reachable_sched_ok [OF p k(1,2)]] k(2,3) reap_zombie_None [OF k(2,3)]
    by (auto simp: reapable_def schedule_def)
  obtain k1 st1 where k1: "schedule_switch sample_platform k0 = Inr k1" "scheduler k1 = Some st1" "rotation st1 = [1, 0]" "zombie st1 = None"
    using sw [OF k0(1,2,4)] rot by auto
  have r1: "reachable sample_platform set k1" by (rule reachable_step [OF k0(1) step_schedule [OF k1(1)]])
  obtain k3 st3 where k3: "schedule_switch sample_platform k1 = Inr k3" "scheduler k3 = Some st3" "rotation st3 = [0, 1]"
    using sw [OF r1 k1(2,4)] k1(3) by auto
  have c: "current st0 = 0" "current st1 \<noteq> 0" "current st3 = 0" using rot k1(3) k3(3) by (simp_all add: rotation_def)
  from suspended_thread_resumes [OF p k0(1,2) c(1) k1(1,2) c(2) away_refl disjI1 [OF k3(1)] k3(2) c(3)]
  show ?thesis using k1(1) k3(1,2) c(3) k0(5) by (auto simp: sample_platform_def)
qed

lemma thread_trampoline_none:
  assumes "scheduler k = Some st" and "sched_ok x st" and "threads st ! current st = Some t" and "entry t = None"
  shows "thread_trampoline k = panic ''thread_trampoline entered for a thread with no entry point''"
proof -
  have "current st < length (threads st)" using sched_ok_current [OF assms(2)] by blast
  then show ?thesis using assms by (simp add: thread_trampoline_def without_interrupts_def)
qed

text \<open>
  C7. A spawned thread runs its entry once. After \<open>spawn\<close>, whatever the kernel does before the
  first switch to the new thread, that switch enters \<open>thread_trampoline\<close> with zeroed callee-saved
  registers and interrupts disabled; the trampoline takes the entry given to \<open>spawn\<close> and
  enables interrupts, and a second run of it would panic.
\<close>

theorem spawned_thread_runs_entry:
  assumes p: "platform_ok p blocks" and k: "reachable p blocks k" and sp: "spawn p start k = Inr ((), k1)"
    and k1: "scheduler k1 = Some st1" and i: "i = last (rotation st1)"
    and k2: "away p blocks i k1 k2" "schedule_switch p k2 = Inr k3 \<or> exit_switch p k2 = Inr k3"
    and k3: "scheduler k3 = Some st3" "current st3 = i"
  shows "rip (cpu_regs k3) = thread_trampoline_addr p \<and> callee_saved (cpu_regs k3) = replicate 6 0
    \<and> \<not> interrupts_enabled k3
    \<and> (\<exists>k4. thread_trampoline k3 = Inr (start, k4) \<and> interrupts_enabled k4
         \<and> thread_trampoline k4 = panic ''thread_trampoline entered for a thread with no entry point'')"
proof -
  have laws: "heap_laws p blocks" "x86_laws (x86 p)" using p by (auto simp: platform_ok_def)
  have ok: "kernel_ok (x86 p) k" using reachable_ok [OF p k] by simp
  then obtain st where st: "scheduler k = Some st" "sched_ok (x86 p) st" by (rule kernel_okE)
  obtain j where "spawned p start None None j k k1" using spawn_spawned [OF laws(1) sp] by blast
  then obtain t where t: "rotation st1 = rotation st @ [j]" "position (\<lambda>t. t = None) (threads st) = Some j"
      "threads st1 = (threads st)[j := Some t]" "entry t = Some start" "interrupts_were_enabled t = None"
      "saved_frame (stack_mem (cpu_regs k1)) (stack_pointer t) = [0, 0, 0, 0, 0, 0, thread_trampoline_addr p]"
    using spawned_rotation [OF laws st] k1 by fastforce
  have ij: "i = j" using i t(1) by simp
  have ti: "threads st1 ! i = Some t" "i \<in> set (queued (ready_queue st1))"
    using t(1,2,3) ij by (auto simp: position_Some_iff rotation_def Cons_eq_append_conv)
  have r1: "reachable p blocks k1" by (rule reachable_step [OF k step_spawn [OF sp]])
  then have ok1: "kernel_ok (x86 p) k1" "stacks_ok p blocks k1" using reachable_ok [OF p] by blast+
  have ok2: "kernel_ok (x86 p) k2" "stacks_ok p blocks k2" "keeps k1 k2 i t"
    using away_keeps [OF p k2(1) ok1 k1 ti(2,1)] by simp_all
  obtain st2 where st2: "scheduler k2 = Some st2" "i \<in> set (queued (ready_queue st2))" "threads st2 ! i = Some t"
      "saved_frame (stack_mem (cpu_regs k2)) (stack_pointer t) = saved_frame (stack_mem (cpu_regs k1)) (stack_pointer t)"
    using ok2(3) by (auto simp: keeps_def)
  have "sched_ok (x86 p) st2" using ok2(1) st2(1) by (simp add: kernel_ok_def)
  then have ne: "i \<noteq> current st2" using sched_okD(4) st2(2) by (auto simp: rotation_def)
  note into = step_into [OF p ok2(1,2) st2(1) k2(2) k3 ne st2(3)]
  have "callee_saved (cpu_regs k3) @ [rip (cpu_regs k3)] = replicate 6 0 @ [thread_trampoline_addr p]"
    using into(1) st2(4) t(6) by (simp add: numeral_eq_Suc)
  then have regs: "callee_saved (cpu_regs k3) = replicate 6 0 \<and> rip (cpu_regs k3) = thread_trampoline_addr p"
    by simp
  have ok3: "kernel_ok (x86 p) k3" using k2(2) schedule_ok [OF ok2(1)] exit_ok [OF ok2(1)] by blast
  then have so3: "sched_ok (x86 p) st3" using k3(1) by (simp add: kernel_ok_def)
  have cur: "threads st3 ! current st3 = Some t" using into(6) k3(2) by simp
  let ?k4 = "k3\<lparr>scheduler := Some (set_thread (current st3) (Some (t\<lparr>entry := None\<rparr>)) st3), interrupts_enabled := True\<rparr>"
  have run: "thread_trampoline k3 = Inr (start, ?k4)" by (rule thread_trampoline_eq [OF k3(1) so3 cur t(4)])
  then have "kernel_ok (x86 p) ?k4" using touches_ok [OF trampoline_step_touches(1) [OF ok3] ok3] by blast
  then have so4: "sched_ok (x86 p) (set_thread (current st3) (Some (t\<lparr>entry := None\<rparr>)) st3)" by (simp add: kernel_ok_def)
  have "current st3 < length (threads st3)" using sched_ok_current [OF so3] by blast
  then have "thread_trampoline ?k4 = panic ''thread_trampoline entered for a thread with no entry point''"
    by (intro thread_trampoline_none [OF _ so4, where t = "t\<lparr>entry := None\<rparr>"]) simp_all
  then show ?thesis using regs into(4) t(5) run by auto
qed

theorem spawned_thread_runs_entry_witness:
  "\<exists>k1 k3 k4. spawn sample_platform 0x205000 (sample_kernel\<lparr>scheduler := Some (initial_state 0x1000)\<rparr>) = Inr ((), k1)
     \<and> schedule_switch sample_platform k1 = Inr k3 \<and> rip (cpu_regs k3) = 0x201000
     \<and> thread_trampoline k3 = Inr (0x205000, k4)"
proof -
  note p = sample_platform_ok
  let ?k = "sample_kernel\<lparr>scheduler := Some (initial_state 0x1000)\<rparr>"
  have r: "reachable sample_platform set ?k" using sample_one by (simp add: sample_state_def)
  have a: "sample_alloc STACK_SIZE 4096 (heap ?k) = (HEAP_START, [(HEAP_START, STACK_SIZE)])" "HEAP_START \<noteq> 0"
    using sample_heap_first by (simp_all add: sample_kernel_def HEAP_START_def)
  obtain k1 where k1: "sample_state k1 (Suc 1)" "spawn sample_platform 0x205000 ?k = Inr ((), k1)"
    using sample_spawn [OF sample_one _ a] by auto
  obtain st1 where st1: "scheduler k1 = Some st1" "rotation st1 = [0..<2]" "zombie st1 = None" "reachable sample_platform set k1"
    using k1(1) by (auto simp: sample_state_def numeral_2_eq_2)
  have rot: "rotation st1 = [0, 1]" using st1(2) by (simp add: upt_rec)
  obtain k3 st3 where k3: "schedule_switch sample_platform k1 = Inr k3" "scheduler k3 = Some st3" "rotation st3 = rotate1 (rotation st1)"
    using schedule_rotates [OF st1(1) reachable_sched_ok [OF p st1(4,1)]] st1(1,3) reap_zombie_None [OF st1(1,3)]
    by (auto simp: reapable_def schedule_def)
  have c: "1 = last (rotation st1)" "current st3 = 1" using rot k3(3) by (simp_all add: rotation_def)
  from spawned_thread_runs_entry [OF p r k1(2) st1(1) c(1) away_refl disjI1 [OF k3(1)] k3(2) c(2)]
  show ?thesis using k1(2) k3(1) by (auto simp: sample_platform_def)
qed

section \<open>The address space follows the thread\<close>

definition coherent :: "('h, 'd) kernel \<Rightarrow> bool" where
  "coherent k \<longleftrightarrow> (\<exists>st t. scheduler k = Some st \<and> threads st ! current st = Some t \<and> cr3 (cpu_regs k) = space_of st t)"

text \<open>The boot thread never has an address space of its own.\<close>

definition boot_shared :: "('h, 'd) kernel \<Rightarrow> bool" where
  "boot_shared k \<longleftrightarrow> (\<forall>st t. scheduler k = Some st \<and> threads st ! 0 = Some t \<longrightarrow> page_table t = None)"

lemma boot_shared_update:
  assumes "boot_shared k" and "scheduler k = Some st" and "threads st ! c = Some t" and "page_table t' = page_table t"
    and "threads st' = (threads st)[c := Some t']" and "scheduler k' = Some st'"
  shows "boot_shared k'"
  using assms by (cases "c < length (threads st)") (auto simp: boot_shared_def nth_list_update list_update_beyond split: if_splits)

lemma boot_shared_switched:
  assumes "boot_shared k" and "scheduler k = Some st" and sw: "switched p ret were (current st) n st1 (disable k) k'"
    and "threads st1 = threads st"
  shows "boot_shared k'"
proof -
  obtain t sp where h: "threads st1 ! current st = Some t"
    "scheduler k' = Some (set_thread (current st) (Some (t\<lparr>stack_pointer := sp, interrupts_were_enabled := were\<rparr>)) st1)"
    by (rule switchedE [OF sw])
  show ?thesis
    by (rule boot_shared_update [OF assms(1,2) _ _ _ h(2), where c = "current st" and t = t
          and t' = "t\<lparr>stack_pointer := sp, interrupts_were_enabled := were\<rparr>"]) (use h(1) assms(4) in simp_all)
qed

lemma reachable_boot_shared:
  assumes p: "platform_ok p blocks" and "reachable p blocks k"
  shows "boot_shared k"
  using assms(2)
proof induction
  case (reachable_init k k')
  then show ?case by (auto simp: init_eq boot_shared_def initial_state_def boot_thread_def)
next
  case (reachable_step k k')
  have laws: "heap_laws p blocks" "x86_laws (x86 p)" using p by (auto simp: platform_ok_def)
  have ok: "kernel_ok (x86 p) k" using reachable_ok [OF p reachable_step(1)] by simp
  then obtain st where st: "scheduler k = Some st" "sched_ok (x86 p) st" by (rule kernel_okE)
  note IH = reachable_step.IH
  show ?case
  proof (cases rule: kstep_effect [OF laws(1) reachable_step(2) ok])
    case 1
    show ?thesis
    proof (cases rule: reaps_cases [OF st 1])
      case 1
      then show ?thesis using IH by simp
    next
      case (2 z t st' h c fs)
      have "z \<noteq> 0" using sched_okD(4,6) [OF st(2)] 2(1) by (metis IntI distinct_append empty_iff zombies_def list.set_intros(1) option.simps(5))
      then show ?thesis using IH st(1) 2(4,6) by (simp add: boot_shared_def)
    qed
  next
    case 2
    show ?thesis
    proof (cases rule: schedule_cases [OF st 2])
      case 1
      then show ?thesis using IH by simp
    next
      case (2 n ns q)
      show ?thesis by (rule boot_shared_switched [OF IH st(1) 2(4)]) simp
    qed
  next
    case 3
    obtain n q where e: "switched p (exit_return_addr p) None (current st) n
        (st\<lparr>ready_queue := q, current := n, zombie := Some (current st)\<rparr>) (disable k) k'"
      by (rule exit_cases [OF st 3])
    show ?thesis by (rule boot_shared_switched [OF IH st(1) e]) simp
  next
    case (4 start l4 user i)
    then obtain st' t where st': "scheduler k' = Some st'" "threads st' = (threads st)[i := Some t]"
        "position (\<lambda>t. t = None) (threads st) = Some i"
      using spawned_rotation [OF laws st] by blast
    have "threads st ! i = None" using st'(3) by (simp add: position_Some_iff)
    moreover have "threads st ! 0 \<noteq> None" using sched_okD(5,6) [OF st(2)] by (auto simp: occupied_def)
    ultimately have "i \<noteq> 0" by metis
    then show ?thesis using IH st(1) st' by (simp add: boot_shared_def)
  next
    case 5
    then obtain t t' b where t: "threads st ! current st = Some t"
      "t' = t\<lparr>entry := entry t', open_files := open_files t', user_entry := user_entry t'\<rparr>"
      "k' = k\<lparr>scheduler := Some (set_thread (current st) (Some t') st), interrupts_enabled := b\<rparr>"
      using st(1) by (auto simp: touches_def)
    have "page_table t' = page_table t" by (subst t(2)) simp
    then show ?thesis
      by (rule boot_shared_update [OF IH st(1) t(1), where st' = "set_thread (current st) (Some t') st"]) (use t(3) in simp_all)
  next
    case 6
    then show ?thesis using IH by (simp add: runs_def boot_shared_def)
  qed
qed

lemma switch_target:
  assumes st: "scheduler k = Some st" "sched_ok (x86 p) st" and sw: "schedule_switch p k = Inr k' \<or> exit_switch p k = Inr k'"
    and st': "scheduler k' = Some st'"
  shows "k' = k \<and> queued (ready_queue st) = []
    \<or> current st' \<in> set (queued (ready_queue st)) \<and> current st' \<noteq> current st"
proof -
  have ne: "n \<noteq> current st" if "queued (ready_queue st) = n # ns" for n ns
    using sched_okD(4) [OF st(2)] that by (auto simp: rotation_def)
  have target: "current st' = n" if s: "switched p ret were (current st) n st1 (disable k) k'" "current st1 = n" for ret were n st1
  proof -
    obtain t where "scheduler k' = Some (set_thread (current st) (Some t) st1)" by (rule switchedE [OF s(1)]) blast
    then show ?thesis using st' s(2) by simp
  qed
  from sw show ?thesis
  proof
    assume "schedule_switch p k = Inr k'"
    then show ?thesis
    proof (rule schedule_cases [OF st])
      fix n ns q
      assume q: "queued (ready_queue st) = n # ns" and s: "switched p (schedule_return_addr p) (Some (interrupts_enabled k))
        (current st) n (st\<lparr>ready_queue := q, current := n\<rparr>) (disable k) k'"
      have "current st' = n" by (rule target [OF s]) simp
      then show ?thesis using q ne by simp
    qed blast
  next
    assume "exit_switch p k = Inr k'"
    then show ?thesis
    proof (rule exit_cases [OF st])
      fix n ns q
      assume q: "queued (ready_queue st) = n # ns" and s: "switched p (exit_return_addr p) None (current st) n
        (st\<lparr>ready_queue := q, current := n, zombie := Some (current st)\<rparr>) (disable k) k'"
      have "current st' = n" by (rule target [OF s]) simp
      then show ?thesis using q ne by simp
    qed
  qed
qed

text \<open>
  C6. The processor always runs a thread in that thread's address space. If the page table in CR3
  is the running thread's in a reachable state, it is so again when \<open>schedule\<close> or
  \<open>exit_current_thread\<close> has run, also when reaping forced the kernel's table in between; and when
  another thread was switched to, RSP0 is the top of its kernel stack.
\<close>

theorem address_space_follows_thread:
  assumes p: "platform_ok p blocks" and k: "reachable p blocks k" "coherent k" "scheduler k = Some st"
    and k': "schedule p k = Inr k' \<or> exit_current_thread p k = Inr k'" "scheduler k' = Some st'"
  shows "\<exists>t. threads st' ! current st' = Some t \<and> cr3 (cpu_regs k') = space_of st' t
    \<and> (current st' \<noteq> current st \<longrightarrow> virt_try_new (x86 p) (kernel_stack_top t) = Some (rsp0 k'))"
proof -
  have so: "sched_ok (x86 p) st" by (rule reachable_sched_ok [OF p k(1,3)])
  obtain k1 where k1: "reap_zombie p k = Inr k1" "schedule_switch p k1 = Inr k' \<or> exit_switch p k1 = Inr k'"
    using k'(1) by (auto simp: schedule_def exit_current_thread_def bind_result_Inr_iff)
  have r1: "reachable p blocks k1" by (rule reachable_step [OF k(1) step_reap [OF k1(1)]])
  have ok1: "kernel_ok (x86 p) k1" "stacks_ok p blocks k1" using reachable_ok [OF p r1] by simp_all
  obtain st1 where st1: "scheduler k1 = Some st1" "sched_ok (x86 p) st1" using ok1(1) by (rule kernel_okE)
  have cur1: "current st1 = current st"
    by (rule reap_cases [OF k(3) so k1(1)]) (use st1(1) k(3) in auto)
  from switch_target [OF st1 k1(2) k'(2)] show ?thesis
  proof
    assume t: "current st' \<in> set (queued (ready_queue st1)) \<and> current st' \<noteq> current st1"
    then obtain u where u: "threads st1 ! current st' = Some u"
      using sched_okD(5) [OF st1(2)] by (auto simp: rotation_def occupied_def)
    note into = step_into [OF p ok1 st1(1) k1(2) k'(2) refl _ u]
    show ?thesis using into(3,5,6) t by blast
  next
    assume alone: "k' = k1 \<and> queued (ready_queue st1) = []"
    then have c: "current st1 = 0" "st' = st1" using sched_okD(6) [OF st1(2)] st1(1) k'(2) by (simp_all add: rotation_def)
    obtain t where t: "threads st1 ! current st1 = Some t" using sched_ok_current [OF st1(2)] by blast
    have "page_table t = None" using reachable_boot_shared [OF p r1] st1(1) t c(1) by (simp add: boot_shared_def)
    moreover have "cr3 (cpu_regs k1) = kernel_page_table st1"
    proof (rule reap_cases [OF k(3) so k1(1)])
      assume "k1 = k"
      then show ?thesis using k(2) st1(1) t \<open>page_table t = None\<close> by (auto simp: coherent_def space_of_def)
    next
      fix z t fs st2
      assume "st2 = set_thread z None (st\<lparr>zombie := None\<rparr>)" "k1 = cr3_write (kernel_page_table st) (k\<lparr>scheduler := Some st2\<rparr>)
         \<lparr>heap := heap_dealloc p (stack_base t) (stack_size t) 4096 (heap k), frames := fs\<rparr>"
      then show ?thesis using st1(1) by auto
    qed
    ultimately show ?thesis using t alone c cur1 by (simp add: space_of_def)
  qed
qed

theorem address_space_follows_thread_witness:
  "\<exists>k k' st'. coherent k \<and> schedule sample_platform k = Inr k' \<and> scheduler k' = Some st' \<and> current st' = 1 \<and> coherent k'"
proof -
  note p = sample_platform_ok
  obtain k st where k: "reachable sample_platform set k" "scheduler k = Some st" "rotation st = [0..<2]" "zombie st = None"
      "cr3 (cpu_regs k) = 0x1000" "kernel_page_table st = 0x1000"
      "\<forall>i<16. \<forall>t. threads st ! i = Some t \<longrightarrow> page_table t = None"
    using sample_two by (auto simp: sample_state_def)
  have so: "sched_ok (x86 sample_platform) st" by (rule reachable_sched_ok [OF p k(1,2)])
  obtain t where t: "current st < length (threads st)" "threads st ! current st = Some t" using sched_ok_current [OF so] by blast
  have "current st < 16" using t(1) sched_okD(1) [OF so] by (simp add: MAX_THREADS_def)
  then have "space_of st t = 0x1000" using k(6,7) t(2) by (simp add: space_of_def)
  then have c: "coherent k" using k(2,5) t(2) by (simp add: coherent_def)
  have r: "reapable sample_platform k" using k(2,4) by (simp add: reapable_def)
  obtain k' st' where k': "schedule sample_platform k = Inr k'" "scheduler k' = Some st'" "rotation st' = rotate1 (rotation st)"
    using schedule_rotates [OF k(2) so r] by blast
  have c1: "current st' = 1" using k'(3) k(3) by (simp add: rotation_def upt_rec)
  obtain u where u: "threads st' ! current st' = Some u" "cr3 (cpu_regs k') = space_of st' u"
    using address_space_follows_thread [OF p k(1) c k(2) disjI1 [OF k'(1)] k'(2)] by blast
  then have "coherent k'" using k'(2) by (auto simp: coherent_def)
  then show ?thesis using c k' c1 by auto
qed

end
