(* ===== verification/Sched_Resources.thy ===== *)
theory Sched_Resources
  imports Sched_Life
begin

text \<open>
  What threads hold and what becomes of it: stacks and address spaces are reclaimed after an
  exit, spawning succeeds exactly when there is a slot and memory, a process id names one thread
  for good, and descriptors deliver the contents of the files they were opened with.
\<close>

section \<open>Reclamation\<close>

lemma schedule_switch_same:
  assumes st: "scheduler k = Some st" "sched_ok (x86 p) st" and sw: "schedule_switch p k = Inr k'"
  shows "heap k' = heap k \<and> frames k' = frames k \<and> (\<forall>st' i. scheduler k' = Some st' \<and> threads st ! i = None \<longrightarrow> threads st' ! i = None)"
proof (cases rule: schedule_cases [OF st sw])
  case 1
  then show ?thesis using st by simp
next
  case (2 n ns q)
  obtain t u where h: "threads (st\<lparr>ready_queue := q, current := n\<rparr>) ! current st = Some u"
    "scheduler k' = Some (set_thread (current st) (Some t) (st\<lparr>ready_queue := q, current := n\<rparr>))"
    "heap k' = heap (disable k)" "frames k' = frames (disable k)"
    by (rule switchedE [OF 2(4)]) blast
  have "threads st ! i = None \<Longrightarrow> (threads st)[current st := Some t] ! i = None" for i
    using h(1) by (cases "i = current st") simp_all
  then show ?thesis using h by auto
qed

text \<open>
  C10. An exited thread is reclaimed completely. In a reachable state with nothing pending, a thread
  other than the boot thread whose address space is well-formed can exit, and the next
  \<open>schedule\<close> of whichever thread runs then frees its slot, its stack and exactly the frames its
  address space owns, the stack's own frames excepted.
\<close>

theorem exited_thread_reclaimed:
  assumes p: "platform_ok p blocks" and k: "reachable p blocks k" "scheduler k = Some st" "zombie st = None"
    and i: "current st = i" "i \<noteq> 0" "threads st ! i = Some t" and f: "space_freeable (x86 p) k t"
  shows "\<exists>k1 k2 st2. exit_current_thread p k = Inr k1 \<and> schedule p k1 = Inr k2 \<and> scheduler k2 = Some st2
    \<and> threads st2 ! i = None \<and> i \<notin> set (rotation st2) \<and> zombie st2 = None
    \<and> blocks (heap k2) = blocks (heap k) - {(stack_base t, stack_size t)}
    \<and> global_avail (frames k2) = rev (freed_frames (x86 p) k t) @ global_avail (frames k)"
proof -
  have so: "sched_ok (x86 p) st" by (rule reachable_sched_ok [OF p k(1,2)])
  have laws: "heap_laws p blocks" using p by (simp add: platform_ok_def)
  have il: "i < length (threads st)" using sched_ok_current [OF so] i(1) by blast
  have live: "(stack_base t, stack_size t) \<in> blocks (heap k)"
    using table_okD(2) [OF stacks_okE(1) [OF _ k(2)] il i(3,2)] reachable_ok [OF p k(1)] by blast
  obtain k1 q n ns where e: "queued (ready_queue st) = n # ns" "exit_switch p k = Inr k1" "queued q = ns"
    and sw: "switched p (exit_return_addr p) None (current st) n
        (st\<lparr>ready_queue := q, current := n, zombie := Some (current st)\<rparr>) (disable k) k1"
    using exit_switch_leaves [OF k(2) so] i by blast
  let ?st = "st\<lparr>ready_queue := q, current := n, zombie := Some (current st)\<rparr>"
  obtain sp where st1: "scheduler k1 = Some (set_thread i (Some (t\<lparr>stack_pointer := sp, interrupts_were_enabled := None\<rparr>)) ?st)"
    and same: "heap k1 = heap k" "frames k1 = frames k" "memory k1 = memory k"
    by (rule switchedE [OF sw]) (use i in auto)
  have off: "physical_memory_offset k1 = physical_memory_offset k" using sw by (auto simp: switched_def disable_def)
  let ?t = "t\<lparr>stack_pointer := sp, interrupts_were_enabled := None\<rparr>" and ?st1 = "set_thread i (Some (t\<lparr>stack_pointer := sp, interrupts_were_enabled := None\<rparr>)) ?st"
  have so1: "sched_ok (x86 p) ?st1"
    using exit_ok [OF _ e(2)] reachable_ok [OF p k(1)] st1 by (simp add: kernel_ok_def)
  have t1: "threads ?st1 ! i = Some ?t" "zombie ?st1 = Some i" using il i(1) by simp_all
  have "space_freeable (x86 p) k1 ?t" using f same off by (simp add: space_freeable_def split: option.splits)
  then have r1: "reapable p k1" using st1 t1 by (simp add: reapable_def)
  obtain k2 where k2: "reap_zombie p k1 = Inr k2" "scheduler k2 = Some (reaped_state ?st1)" "sched_ok (x86 p) (reaped_state ?st1)"
      "heap k2 = heap_dealloc p (stack_base t) (stack_size t) 4096 (heap k)"
      "global_avail (frames k2) = rev (freed_frames (x86 p) k1 ?t) @ global_avail (frames k)"
    using reap_returns [OF st1 so1 r1] t1 same by fastforce
  obtain k3 st3 where k3: "schedule p k1 = Inr k3" "scheduler k3 = Some st3" "rotation st3 = rotate1 (rotation ?st1)" "zombie st3 = None"
    using schedule_rotates [OF st1 so1 r1] by blast
  then have "schedule_switch p k2 = Inr k3" using k2(1) by (simp add: schedule_def)
  from schedule_switch_same [OF k2(2,3) this]
  have s3: "heap k3 = heap k2" "frames k3 = frames k2" "threads (reaped_state ?st1) ! i = None \<Longrightarrow> threads st3 ! i = None"
    using k3(2) by auto
  have "threads (reaped_state ?st1) ! i = None" using t1(2) il by (simp add: reaped_state_def)
  moreover have "i \<notin> set (rotation st3)" using k3(3) e(1,3) sched_okD(4) [OF so] i(1) by (simp add: rotation_def)
  moreover have "freed_frames (x86 p) k1 ?t = freed_frames (x86 p) k t" using same off by (simp add: freed_frames_def stack_range_def split: option.splits)
  moreover have "exit_current_thread p k = Inr k1" using reap_zombie_None [OF k(2,3)] e(2) by (simp add: exit_current_thread_def)
  moreover have "blocks (heap k3) = blocks (heap k) - {(stack_base t, stack_size t)}"
    using heap_dealloc_law [OF laws live] k2(4) s3(1) by simp
  ultimately show ?thesis using k2(5) k3 s3 by (intro exI [of _ k1] exI [of _ k3] exI [of _ st3]) simp
qed

theorem exited_thread_reclaimed_witness:
  "\<exists>k k1 k2 st st2 t. reachable sample_platform set k \<and> scheduler k = Some st \<and> current st = 1 \<and> threads st ! 1 = Some t
     \<and> exit_current_thread sample_platform k = Inr k1 \<and> schedule sample_platform k1 = Inr k2 \<and> scheduler k2 = Some st2
     \<and> threads st2 ! 1 = None \<and> set (heap k2) = set (heap k) - {(stack_base t, stack_size t)}"
proof -
  note p = sample_platform_ok
  obtain k0 st0 where k0: "reachable sample_platform set k0" "scheduler k0 = Some st0" "rotation st0 = [0..<2]" "zombie st0 = None"
      "\<forall>i<16. \<forall>t. threads st0 ! i = Some t \<longrightarrow> page_table t = None"
    using sample_two by (auto simp: sample_state_def)
  have so: "sched_ok (x86 sample_platform) st0" by (rule reachable_sched_ok [OF p k0(1,2)])
  have q: "queued (ready_queue st0) = [1]" "current st0 = 0" using k0(3) by (simp_all add: rotation_def upt_rec)
  obtain k q' where k: "schedule_switch sample_platform k0 = Inr k"
      "switched sample_platform (schedule_return_addr sample_platform) (Some (interrupts_enabled k0)) (current st0) 1
        (st0\<lparr>ready_queue := q', current := 1\<rparr>) (disable k0) k"
    using schedule_switch_rotates [OF k0(2) so q(1)] by blast
  obtain u t where st: "scheduler k = Some (set_thread 0 (Some u) (st0\<lparr>ready_queue := q', current := 1\<rparr>))"
      and t: "threads st0 ! 1 = Some t"
    by (rule switchedE [OF k(2)]) (use q in auto)
  let ?st = "set_thread 0 (Some u) (st0\<lparr>ready_queue := q', current := 1\<rparr>)"
  have r: "reachable sample_platform set k" by (rule reachable_step [OF k0(1) step_schedule [OF k(1)]])
  have "zombie ?st = None" "current ?st = 1" "(1::nat) \<noteq> 0" "threads ?st ! 1 = Some t" using k0(4) t by simp_all
  moreover have "space_freeable (x86 sample_platform) k t" using k0(5) [rule_format, of 1 t] t by (simp add: space_freeable_def)
  ultimately show ?thesis
    using exited_thread_reclaimed [OF p r st] r st by blast
qed

section \<open>Spawning\<close>

text \<open>
  C13. The outcomes of \<open>spawn\<close>. It panics when the heap has no block for the stack and when the
  thread table is full; otherwise it returns, with the new thread in the lowest free slot and at
  the end of the rotation, a new generation of that slot and one more live block of the heap.
\<close>

theorem spawn_outcomes:
  assumes p: "platform_ok p blocks" and k: "kernel_ok (x86 p) k" "scheduler k = Some st"
    and a: "heap_alloc p STACK_SIZE 4096 (heap k) = (b, h)"
  shows "(b = 0 \<longrightarrow> spawn p start k = panic ''kernel thread stack allocation failed'')
    \<and> (b \<noteq> 0 \<and> None \<notin> set (threads st) \<longrightarrow> spawn p start k = panic ''thread table full (MAX_THREADS exceeded)'')
    \<and> (\<forall>i. b \<noteq> 0 \<and> position (\<lambda>t. t = None) (threads st) = Some i \<and> unat (slot_generations st ! i) + 1 < 2 ^ 64 \<longrightarrow>
        (\<exists>k' st' t. spawn p start k = Inr ((), k') \<and> scheduler k' = Some st' \<and> rotation st' = rotation st @ [i]
          \<and> threads st' = (threads st)[i := Some t] \<and> entry t = Some start
          \<and> unat (slot_generations st' ! i) = unat (slot_generations st ! i) + 1
          \<and> blocks (heap k') = insert (b, STACK_SIZE) (blocks (heap k))))"
proof (intro conjI allI impI; (elim conjE)?)
  have so: "sched_ok (x86 p) st" using k by (simp add: kernel_ok_def)
  have laws: "heap_laws p blocks" "x86_laws (x86 p)" using p by (auto simp: platform_ok_def)
  have a': "heap_alloc p STACK_SIZE 4096 (heap (disable k)) = (b, h)" using a by simp
  show "spawn p start k = panic ''kernel thread stack allocation failed''" if "b = 0"
    using a' that by (simp add: spawn_def without_interrupts_def alloc_stack_def)
  show "spawn p start k = panic ''thread table full (MAX_THREADS exceeded)''" if b: "b \<noteq> 0" "None \<notin> set (threads st)"
  proof -
    obtain mem where m: "alloc_stack p (disable k) = Inr ((b, b + STACK_SIZE - 64),
        (disable k)\<lparr>heap := h, cpu_regs := (cpu_regs (disable k))\<lparr>stack_mem := mem\<rparr>\<rparr>)"
      by (rule alloc_stack_returns [OF laws(1) a' b(1)])
    have "\<forall>t\<in>set (threads st). t \<noteq> None" using b(2) by metis
    then show ?thesis using m k(2) by (simp add: spawn_def without_interrupts_def add_thread_full)
  qed
  fix i
  assume b: "b \<noteq> 0" "position (\<lambda>t. t = None) (threads st) = Some i" "unat (slot_generations st ! i) + 1 < 2 ^ 64"
  obtain k' where k': "spawn p start k = Inr ((), k')" using spawn_returns [OF laws(1) k(2) so a b] by blast
  obtain j where j: "spawned p start None None j k k'" using spawn_spawned [OF laws(1) k'] by blast
  obtain st' t where s: "scheduler k' = Some st'" "rotation st' = rotation st @ [j]"
      "position (\<lambda>t. t = None) (threads st) = Some j" "threads st' = (threads st)[j := Some t]" "entry t = Some start"
      "slot_generations st' = (slot_generations st)[j := slot_generations st ! j + 1]"
      "heap_alloc p STACK_SIZE 4096 (heap k) = (stack_base t, heap k')"
    using spawned_rotation [OF laws k(2) so j] by blast
  have ij: "j = i" using s(3) b(2) by simp
  have "i < length (slot_generations st)" using b(2) sched_okD(1,2) [OF so] by (simp add: position_Some_iff)
  then have "unat (slot_generations st' ! i) = unat (slot_generations st ! i) + 1"
    using s(6) ij b(3) by (simp add: unat_word_ariths)
  moreover have "blocks (heap k') = insert (b, STACK_SIZE) (blocks (heap k))"
    using heap_alloc_law(5) [OF laws(1) a b(1)] s(7) a by simp
  ultimately show "\<exists>k' st' t. spawn p start k = Inr ((), k') \<and> scheduler k' = Some st' \<and> rotation st' = rotation st @ [i]
          \<and> threads st' = (threads st)[i := Some t] \<and> entry t = Some start
          \<and> unat (slot_generations st' ! i) = unat (slot_generations st ! i) + 1
          \<and> blocks (heap k') = insert (b, STACK_SIZE) (blocks (heap k))"
    using k' s ij by blast
qed

theorem spawn_outcomes_witness:
  "spawn sample_platform 0x205000 (sample_kernel\<lparr>scheduler := Some (initial_state 0x1000), heap := [(HEAP_START, HEAP_SIZE)]\<rparr>)
     = panic ''kernel thread stack allocation failed''"
proof -
  let ?k = "sample_kernel\<lparr>scheduler := Some (initial_state 0x1000), heap := [(HEAP_START, HEAP_SIZE)]\<rparr>"
  have "kernel_ok (x86 sample_platform) ?k"
    using initial_state_ok [of "x86 sample_platform"] sample_platform_ok by (simp add: kernel_ok_def platform_ok_def)
  moreover have "scheduler ?k = Some (initial_state 0x1000)" by simp
  moreover have "\<not> apart (HEAP_START + of_nat (65536 * i), STACK_SIZE) (HEAP_START, HEAP_SIZE)" if "i < 64" for i
    using sample_candidate [OF that] that stack_size_nat by (simp add: apart_def HEAP_SIZE_def)
  then have "find (\<lambda>b. \<forall>c\<in>set [(HEAP_START, HEAP_SIZE)]. apart (b, STACK_SIZE) c)
      (map (\<lambda>i. HEAP_START + of_nat (65536 * i)) [0..<64]) = None"
    by (auto simp: find_None_iff simp del: of_nat_mult)
  then have "heap_alloc sample_platform STACK_SIZE 4096 (heap ?k) = (0, [(HEAP_START, HEAP_SIZE)])"
    by (simp add: sample_platform_def sample_alloc_def del: of_nat_mult)
  ultimately show ?thesis using spawn_outcomes [OF sample_platform_ok] by blast
qed

section \<open>Process ids\<close>

lemma thread_alive_eq:
  assumes "scheduler k = Some st" and "sched_ok x st" and "unpack_pid pid = (s, g)"
  shows "thread_alive pid k = Inr (s < MAX_THREADS \<and> threads st ! s \<noteq> None \<and> slot_generations st ! s = g, k)"
  using assms sched_okD(1,2) [OF assms(2)] by (auto simp: thread_alive_def without_interrupts_def)

text \<open>
  How a slot changes over time: its generation never decreases, and while it stays the same a
  free slot stays free.
\<close>

definition slot_later :: "nat \<Rightarrow> scheduler_state \<Rightarrow> scheduler_state \<Rightarrow> bool" where
  "slot_later s st st' \<longleftrightarrow> unat (slot_generations st ! s) \<le> unat (slot_generations st' ! s)
     \<and> (slot_generations st' ! s = slot_generations st ! s \<and> threads st ! s = None \<longrightarrow> threads st' ! s = None)"

lemma slot_later_refl: "slot_later s st st"
  by (simp add: slot_later_def)

lemma slot_later_same:
  "slot_later s a b \<Longrightarrow> unat (slot_generations b ! s) \<le> unat (slot_generations a ! s) \<Longrightarrow> slot_generations b ! s = slot_generations a ! s"
  by (simp add: slot_later_def word_unat_eq_iff)

lemma slot_later_trans:
  assumes "slot_later s a b" and "slot_later s b c"
  shows "slot_later s a c"
proof -
  have "slot_generations b ! s = slot_generations a ! s" if "slot_generations c ! s = slot_generations a ! s"
    using assms that by (intro slot_later_same) (auto simp: slot_later_def)
  then show ?thesis using assms by (auto simp: slot_later_def)
qed

lemma update_keeps_free: "xs ! c = Some t \<Longrightarrow> xs ! i = None \<Longrightarrow> xs[c := Some u] ! i = None"
  by (cases "i = c") auto

lemma switched_slots:
  assumes sw: "switched p ret were (current st) n st1 (disable k) k'"
    and st1: "threads st1 = threads st" "slot_generations st1 = slot_generations st" and st': "scheduler k' = Some st'"
  shows "slot_later s st st'"
proof -
  obtain t u where h: "threads st1 ! current st = Some t" "scheduler k' = Some (set_thread (current st) (Some u) st1)"
    by (rule switchedE [OF sw]) blast
  have "threads st ! s = None \<Longrightarrow> (threads st)[current st := Some u] ! s = None"
    using h(1) st1(1) by (simp add: update_keeps_free)
  moreover have "st' = set_thread (current st) (Some u) st1" using h(2) st' by simp
  ultimately show ?thesis using st1 by (simp add: slot_later_def)
qed

lemma kstep_slots:
  assumes p: "platform_ok p blocks" and ok: "kernel_ok (x86 p) k" and step: "kstep p blocks k k'" and s: "s < MAX_THREADS"
    and st: "scheduler k = Some st" and st': "scheduler k' = Some st'"
  shows "slot_later s st st'"
proof -
  have so: "sched_ok (x86 p) st" using ok st by (simp add: kernel_ok_def)
  have laws: "heap_laws p blocks" "x86_laws (x86 p)" using p by (auto simp: platform_ok_def)
  show ?thesis
  proof (cases rule: kstep_effect [OF laws(1) step ok])
    case 1
    show ?thesis
    proof (cases rule: reaps_cases [OF st so 1])
      case 1
      then show ?thesis using st st' by (simp add: slot_later_refl)
    next
      case (2 z t st1 h c fs)
      have "threads st ! s = None \<Longrightarrow> threads st1 ! s = None" using 2(3,4) by (cases "s = z") simp_all
      moreover have "st' = st1" using 2(6) st' by simp
      moreover have "slot_generations st1 = slot_generations st" unfolding 2(4) by simp
      ultimately show ?thesis by (simp add: slot_later_def)
    qed
  next
    case 2
    show ?thesis
    proof (cases rule: schedule_cases [OF st so 2])
      case 1
      then show ?thesis using st st' by (simp add: slot_later_refl)
    next
      case (2 n ns q)
      show ?thesis by (rule switched_slots [OF 2(4) _ _ st']) simp_all
    qed
  next
    case 3
    obtain n q where e: "switched p (exit_return_addr p) None (current st) n
        (st\<lparr>ready_queue := q, current := n, zombie := Some (current st)\<rparr>) (disable k) k'"
      by (rule exit_cases [OF st so 3])
    show ?thesis by (rule switched_slots [OF e _ _ st']) simp_all
  next
    case (4 start l4 user i)
    obtain t where t: "threads st' = (threads st)[i := Some t]"
        "slot_generations st' = (slot_generations st)[i := slot_generations st ! i + 1]"
        "unat (slot_generations st ! i) + 1 < 2 ^ 64"
      using spawned_rotation [OF laws st so 4] st' by auto
    have "unat (slot_generations st ! i + 1) = unat (slot_generations st ! i) + 1"
      using t(3) by (simp add: unat_word_ariths)
    then show ?thesis
      using t(1,2) s sched_okD(2) [OF so] by (cases "s = i") (auto simp: slot_later_def)
  next
    case 5
    then obtain t t' where t: "threads st ! current st = Some t" "st' = set_thread (current st) (Some t') st"
      using st st' by (auto simp: touches_def)
    then show ?thesis using update_keeps_free [OF t(1)] by (simp add: slot_later_def)
  next
    case 6
    then show ?thesis using st st' by (simp add: runs_def slot_later_refl)
  qed
qed

lemma slots_over_time:
  assumes p: "platform_ok p blocks" and "(kstep p blocks)\<^sup>*\<^sup>* k k'" and k: "reachable p blocks k" "scheduler k = Some st"
    and s: "s < MAX_THREADS" and k': "scheduler k' = Some st'"
  shows "slot_later s st st'"
  using assms(2) k'
proof (induction arbitrary: st')
  case base
  then show ?case using k(2) by (simp add: slot_later_refl)
next
  case (step y z)
  have ok: "kernel_ok (x86 p) y" using reachable_ok [OF p reachable_steps [OF step(1) k(1)]] by simp
  then obtain sty where y: "scheduler y = Some sty" by (rule kernel_okE)
  show ?case
    by (rule slot_later_trans [OF step.IH [OF y] kstep_slots [OF p ok step(2) s y step.prems]])
qed

text \<open>
  C11. A process id names one thread, for good. Right after \<open>spawn_isolated_inner\<close> returned an
  id, \<open>thread_alive\<close> says yes to it; and whatever the kernel does after that, once
  \<open>thread_alive\<close> has said no to it, it never says yes again, even when the slot is used for
  another thread. Neither call changes anything. The id has room for a generation of 56 bits.
\<close>

theorem process_id_names_one_thread:
  assumes p: "platform_ok p blocks" and k: "reachable p blocks k"
    and sp: "spawn_isolated_inner p start user l4 km im k = Inr (pid, k0)"
    and g: "\<forall>st. scheduler k = Some st \<longrightarrow> (\<forall>g \<in> set (slot_generations st). unat g + 1 < 2 ^ 56)"
  shows "thread_alive pid k0 = Inr (True, k0)
    \<and> (\<forall>k1 k2. (kstep p blocks)\<^sup>*\<^sup>* k0 k1 \<and> thread_alive pid k1 = Inr (False, k1) \<and> (kstep p blocks)\<^sup>*\<^sup>* k1 k2
        \<longrightarrow> thread_alive pid k2 = Inr (False, k2))"
proof -
  have laws: "heap_laws p blocks" "x86_laws (x86 p)" using p by (auto simp: platform_ok_def)
  obtain i st where i: "spawned p start (Some l4) user i k k0" "scheduler k = Some st" "pid = pack_pid i (slot_generations st ! i + 1)"
    using spawn_isolated_spawned [OF laws(1) sp] by blast
  have so: "sched_ok (x86 p) st" by (rule reachable_sched_ok [OF p k i(2)])
  obtain st0 t where st0: "scheduler k0 = Some st0" "position (\<lambda>t. t = None) (threads st) = Some i"
      "threads st0 = (threads st)[i := Some t]" "slot_generations st0 = (slot_generations st)[i := slot_generations st ! i + 1]"
      "unat (slot_generations st ! i) + 1 < 2 ^ 64"
    using spawned_rotation [OF laws i(2) so i(1)] by blast
  have il: "i < MAX_THREADS" using st0(2) sched_okD(1) [OF so] by (auto simp: position_Some_iff)
  have lens: "length (threads st) = MAX_THREADS" "length (slot_generations st) = MAX_THREADS" using sched_okD(1,2) [OF so] .
  let ?g = "slot_generations st ! i + 1"
  have "unat ?g < 2 ^ 56" using g i(2) il lens st0(5) by (simp add: unat_word_ariths)
  then have pid: "unpack_pid pid = (i, ?g)" using i(3) il by (simp add: unpack_pack_pid MAX_THREADS_def)
  have r0: "reachable p blocks k0" using reachable_step [OF k step_spawn_isolated [OF sp]] .
  have alive: "\<exists>st'. scheduler k' = Some st' \<and> slot_later i st0 st'
      \<and> thread_alive pid k' = Inr (threads st' ! i \<noteq> None \<and> slot_generations st' ! i = ?g, k')"
    if "(kstep p blocks)\<^sup>*\<^sup>* k0 k'" for k'
  proof -
    have ok: "kernel_ok (x86 p) k'" using reachable_ok [OF p reachable_steps [OF that r0]] by simp
    then obtain st' where st': "scheduler k' = Some st'" "sched_ok (x86 p) st'" by (rule kernel_okE)
    have "thread_alive pid k' = Inr (threads st' ! i \<noteq> None \<and> slot_generations st' ! i = ?g, k')"
      using thread_alive_eq [OF st' pid] il by simp
    then show ?thesis
      using slots_over_time [OF p that r0 st0(1) il st'(1)] st'(1) by (intro exI [of _ st']) simp
  qed
  have "thread_alive pid k0 = Inr (True, k0)" using alive [OF rtranclp.rtrancl_refl] st0 il lens by auto
  moreover have "thread_alive pid k2 = Inr (False, k2)"
    if k1: "(kstep p blocks)\<^sup>*\<^sup>* k0 k1" "thread_alive pid k1 = Inr (False, k1)" and k2: "(kstep p blocks)\<^sup>*\<^sup>* k1 k2" for k1 k2
  proof -
    obtain st1 where st1: "scheduler k1 = Some st1" "slot_later i st0 st1" "\<not> (threads st1 ! i \<noteq> None \<and> slot_generations st1 ! i = ?g)"
      using alive [OF k1(1)] k1(2) by auto
    have k02: "(kstep p blocks)\<^sup>*\<^sup>* k0 k2" using k1(1) k2 by simp
    obtain st2 where st2: "scheduler k2 = Some st2"
        "thread_alive pid k2 = Inr (threads st2 ! i \<noteq> None \<and> slot_generations st2 ! i = ?g, k2)"
      using alive [OF k02] by blast
    have "slot_later i st1 st2" by (rule slots_over_time [OF p k2 reachable_steps [OF k1(1) r0] st1(1) il st2(1)])
    moreover have "unat ?g \<le> unat (slot_generations st1 ! i)" using st1(2) st0(4) il lens by (simp add: slot_later_def)
    moreover have "slot_generations st1 ! i = ?g \<and> threads st1 ! i = None" if "slot_generations st2 ! i = ?g"
    proof -
      have "slot_generations st2 ! i = slot_generations st1 ! i" using calculation that by (intro slot_later_same) simp_all
      then show ?thesis using st1(3) that by auto
    qed
    ultimately show ?thesis using st2(2) by (auto simp: slot_later_def)
  qed
  ultimately show ?thesis by blast
qed

lemma spawn_isolated_returns:
  assumes laws: "heap_laws p blocks" "x86_laws (x86 p)" and k: "scheduler k = Some st" "sched_ok x st"
    and a: "heap_alloc p STACK_SIZE 4096 (heap k) = (b, h)" "b \<noteq> 0"
    and pos: "position (\<lambda>t. t = None) (threads st) = Some i" and g: "unat (slot_generations st ! i) + 1 < 2 ^ 64"
    and share: "for_each [0..<16] (share_stack_page p km im (page_containing (x86 p) b)) (memory k, frames k) = Inr m"
  shows "\<exists>k'. spawn_isolated_inner p start user l4 km im k = Inr (pack_pid i (slot_generations st ! i + 1), k')"
proof -
  have a': "heap_alloc p STACK_SIZE 4096 (heap (disable k)) = (b, h)" using a by simp
  obtain mem where m: "alloc_stack p (disable k) = Inr ((b, b + STACK_SIZE - 64),
      (disable k)\<lparr>heap := h, cpu_regs := (cpu_regs (disable k))\<lparr>stack_mem := mem\<rparr>\<rparr>)" "unat b + 65536 \<le> HEAP_END"
    by (rule alloc_stack_returns [OF laws(1) a' a(2)])
  obtain st' where t: "add_thread b (b + STACK_SIZE - 64) start (Some l4) user st = Inr ((i, slot_generations st ! i + 1), st')"
    by (rule add_thread_returns [OF k(2) pos g m(2)])
  have "canonical b" using lower_half [of b] m(2) heap_end_low by simp
  then have "virt_new (x86 p) b = Inr b" by (rule virt_new_canonical [OF laws(2)])
  moreover have "unat STACK_SIZE div 4096 = 16" by (simp add: stack_size_nat)
  ultimately show ?thesis
    using m(1) t k(1) share by (simp add: spawn_isolated_inner_def without_interrupts_def Let_def split: prod.splits)
qed

lemma sample_share:
  assumes "unat b + 65536 \<le> HEAP_END"
  shows "for_each [0..<16] (share_stack_page sample_platform km im (page_containing x86_ref b)) m = Inr m"
proof -
  have "unat b < 2 ^ 47" using assms heap_end_low by simp
  then have c: "canonical b" and n: "page_number b < 2 ^ 35" using lower_half [of b] by auto
  have pg: "page_containing x86_ref b = page_numbered (page_number b)"
    by (rule page_containing_numbered [OF x86_ref_laws c])
  have "\<exists>s'. for_each [0..<16] (share_stack_page sample_platform km im (page_containing x86_ref b)) m = Inr s' \<and> s' = m"
  proof (rule for_each_upt)
    fix i :: nat and s' :: "pmem \<times> frame_allocator option" assume i: "i < 16" and s: "s' = m"
    then have "unat (of_nat i :: u64) = i" by (intro unat_of_nat_u64) simp
    then have "\<exists>r. page_add x86_ref (page_containing x86_ref b) (of_nat i) = Inr r"
      using n i unfolding pg by (simp add: x86_ref_def canonical_numbered page_number_numbered)
    then show "\<exists>s''. share_stack_page sample_platform km im (page_containing x86_ref b) i s' = Inr s'' \<and> s'' = m"
      using s by (cases m) (auto simp: share_stack_page_def sample_platform_def)
  qed simp_all
  then show ?thesis by blast
qed

theorem process_id_names_one_thread_witness:
  "\<exists>k k0 pid. reachable sample_platform set k
     \<and> spawn_isolated_inner sample_platform 0x206000 None 0x5000 0x1000 0x5000 k = Inr (pid, k0)
     \<and> thread_alive pid k0 = Inr (True, k0)"
proof -
  let ?k = "sample_kernel\<lparr>scheduler := Some (initial_state 0x1000)\<rparr>" and ?st = "initial_state 0x1000"
  have k: "reachable sample_platform set ?k" using sample_one by (simp add: sample_state_def)
  have so: "sched_ok (x86 sample_platform) ?st" by (rule reachable_sched_ok [OF sample_platform_ok k]) simp
  have x: "x86_laws (x86 sample_platform)" by (simp add: sample_platform_def x86_ref_laws)
  have a: "heap_alloc sample_platform STACK_SIZE 4096 (heap ?k) = (HEAP_START, [(HEAP_START, STACK_SIZE)])"
    using sample_heap_first by (simp add: sample_kernel_def sample_platform_def)
  have pos: "position (\<lambda>t. t = None) (threads ?st) = Some 1" 
    by (simp add: initial_state_def MAX_THREADS_def upt_conv_Cons numeral_eq_Suc)
  have g: "\<forall>g\<in>set (slot_generations ?st). unat g + 1 < 2 ^ 56" by (simp add: initial_state_def MAX_THREADS_def)
  have "HEAP_START \<noteq> 0" "unat HEAP_START + 65536 \<le> HEAP_END" by (simp_all add: HEAP_START_def HEAP_END_def HEAP_SIZE_def)
  moreover have "unat (slot_generations ?st ! 1) + 1 < 2 ^ 64" by (simp add: initial_state_def MAX_THREADS_def)
  moreover have "x86 sample_platform = x86_ref" by (simp add: sample_platform_def)
  ultimately obtain k0 where k0: "spawn_isolated_inner sample_platform 0x206000 None 0x5000 0x1000 0x5000 ?k
      = Inr (pack_pid 1 (slot_generations ?st ! 1 + 1), k0)"
    using spawn_isolated_returns [OF sample_heap_laws x _ so a _ pos] sample_share by fastforce
  have "\<forall>st. scheduler ?k = Some st \<longrightarrow> (\<forall>g \<in> set (slot_generations st). unat g + 1 < 2 ^ 56)" using g by simp
  from process_id_names_one_thread [OF sample_platform_ok k k0 this] show ?thesis using k k0 by blast
qed

section \<open>Open files\<close>

text \<open>
  Reads of descriptor \<open>fd\<close> with buffers of the given sizes, one after the other, and the bytes
  they deliver; \<open>None\<close> when one of them fails.
\<close>

fun read_all :: "u64 \<Rightarrow> nat list \<Rightarrow> ('h, 'd) kernel \<Rightarrow> (u8 list option \<times> ('h, 'd) kernel) result" where
  "read_all fd [] k = Inr (Some [], k)"
| "read_all fd (n # ns) k =
     bind_result (read_open_file fd (replicate n 0) k) (\<lambda>((count, buf), k).
     case count of
       None \<Rightarrow> Inr (None, k)
     | Some c \<Rightarrow> bind_result (read_all fd ns k) (\<lambda>(rest, k). Inr (map_option ((@) (take c buf)) rest, k)))"

text \<open>The kernel with other open files for the running thread.\<close>

definition with_files :: "('h, 'd) kernel \<Rightarrow> OpenFile option list \<Rightarrow> ('h, 'd) kernel" where
  "with_files k fs = (case scheduler k of None \<Rightarrow> k | Some st \<Rightarrow>
     (case threads st ! current st of None \<Rightarrow> k
      | Some t \<Rightarrow> k\<lparr>scheduler := Some (set_thread (current st) (Some (t\<lparr>open_files := fs\<rparr>)) st)\<rparr>))"

definition current_thread :: "('h, 'd) kernel \<Rightarrow> thread option" where
  "current_thread k = (case scheduler k of None \<Rightarrow> None | Some st \<Rightarrow> threads st ! current st)"

lemma with_files_twice: "with_files (with_files k fs) fs' = with_files k fs'"
proof (cases "current_thread k")
  case (Some t)
  then obtain st where st: "scheduler k = Some st" "threads st ! current st = Some t"
    by (auto simp: current_thread_def split: option.splits)
  show ?thesis
  proof (cases "current st < length (threads st)")
    case True
    then show ?thesis using st by (simp add: with_files_def set_thread_def)
  next
    case False
    then have "(threads st)[current st := v] = threads st" for v by (simp add: list_update_beyond)
    then show ?thesis using st by (simp add: with_files_def set_thread_def)
  qed
qed (auto simp: current_thread_def with_files_def split: option.splits)

lemma with_files_same:
  assumes "current_thread k = Some t"
  shows "with_files k (open_files t) = k"
proof -
  obtain st where st: "scheduler k = Some st" "threads st ! current st = Some t"
    using assms by (auto simp: current_thread_def split: option.splits)
  have "(threads st)[current st := Some t] = threads st" using st(2) by (metis list_update_id)
  then show ?thesis using st by (cases k) (simp add: with_files_def set_thread_def)
qed

lemma file_call:
  assumes ok: "kernel_ok x k" and t: "current_thread k = Some t" and f: "f t = Inr (r, t\<lparr>open_files := fs\<rparr>)" and fs: "files_ok (t\<lparr>open_files := fs\<rparr>)"
  shows "with_current_thread f k = Inr (r, with_files k fs) \<and> kernel_ok x (with_files k fs)
    \<and> current_thread (with_files k fs) = Some (t\<lparr>open_files := fs\<rparr>)"
proof -
  obtain st where st: "scheduler k = Some st" "sched_ok x st" using ok by (rule kernel_okE)
  have h: "threads st ! current st = Some t" using t st by (simp add: current_thread_def)
  have l: "current st < length (threads st)" using sched_ok_current [OF st(2)] by blast
  have w: "with_files k fs = k\<lparr>scheduler := Some (set_thread (current st) (Some (t\<lparr>open_files := fs\<rparr>)) st)\<rparr>"
    using st h by (simp add: with_files_def)
  then have "with_current_thread f k = Inr (r, with_files k fs)" using with_current_thread_eq [OF st h, of f] f by simp
  moreover have "touches k (with_files k fs)"
    unfolding w by (rule touchesI [OF st(1) h]) (use fs in simp_all)
  then have "kernel_ok x (with_files k fs)" using touches_ok ok by blast
  moreover have "current_thread (with_files k fs) = Some (t\<lparr>open_files := fs\<rparr>)" using l by (simp add: w current_thread_def)
  ultimately show ?thesis by blast
qed

lemma read_all_delivers:
  assumes "kernel_ok x k" and "current_thread k = Some t" and "files_ok t" and "fd_file t fd = Some f"
  shows "\<exists>fs f'. read_all fd ns k = Inr (Some (take (sum_list ns) (unread f)), with_files k fs)
    \<and> kernel_ok x (with_files k fs) \<and> current_thread (with_files k fs) = Some (t\<lparr>open_files := fs\<rparr>)
    \<and> files_ok (t\<lparr>open_files := fs\<rparr>) \<and> fd_file (t\<lparr>open_files := fs\<rparr>) = (fd_file t)(fd := Some f')"
  using assms
proof (induction ns arbitrary: k t f)
  case Nil
  have "with_files k (open_files t) = k" using Nil(2) by (rule with_files_same)
  then show ?case using Nil by (intro exI [of _ "open_files t"] exI [of _ f]) auto
next
  case (Cons n ns)
  let ?n = "min (length (unread f)) n"
  obtain fs where fs: "read_open_file_in fd (replicate n 0) t = Inr ((Some ?n, take ?n (unread f) @ drop ?n (replicate n 0)), t\<lparr>open_files := fs\<rparr>)"
      "files_ok (t\<lparr>open_files := fs\<rparr>)"
      "fd_file (t\<lparr>open_files := fs\<rparr>) = (fd_file t)(fd := Some (f\<lparr>file_offset := file_offset f + ?n\<rparr>))"
    using read_open_file_in_spec(2) [OF Cons.prems(3,4), of ?n "replicate n 0"] by auto
  let ?f = "f\<lparr>file_offset := file_offset f + ?n\<rparr>" and ?t = "t\<lparr>open_files := fs\<rparr>" and ?k = "with_files k fs"
  have c: "read_open_file fd (replicate n 0) k = Inr ((Some ?n, take ?n (unread f) @ drop ?n (replicate n 0)), ?k)"
      "kernel_ok x ?k" "current_thread ?k = Some ?t"
    using file_call [OF Cons.prems(1,2), of "read_open_file_in fd (replicate n 0)"] fs(1,2) by (simp_all add: read_open_file_def)
  have "fd_file ?t fd = Some ?f" using fs(3) by simp
  then obtain fs' f' where r: "read_all fd ns ?k = Inr (Some (take (sum_list ns) (unread ?f)), with_files k fs')"
      "kernel_ok x (with_files k fs')" "current_thread (with_files k fs') = Some (?t\<lparr>open_files := fs'\<rparr>)"
      "files_ok (?t\<lparr>open_files := fs'\<rparr>)" "fd_file (?t\<lparr>open_files := fs'\<rparr>) = (fd_file ?t)(fd := Some f')"
    using Cons.IH [OF c(2,3) fs(2), unfolded with_files_twice] by blast
  have "take ?n (unread f) @ take (sum_list ns) (unread ?f) = take (sum_list (n # ns)) (unread f)"
    by (simp add: unread_def take_add add.commute min_def)
  then have "read_all fd (n # ns) k = Inr (Some (take (sum_list (n # ns)) (unread f)), with_files k fs')"
    using c(1) r(1) by simp
  then show ?case using r(2-5) fs(3) by (intro exI [of _ fs'] exI [of _ f']) simp
qed

lemma fd_file_determines:
  assumes "files_ok t" and "files_ok (t\<lparr>open_files := fs\<rparr>)" and "fd_file (t\<lparr>open_files := fs\<rparr>) = fd_file t"
  shows "fs = open_files t"
proof (rule nth_equalityI)
  show l: "length fs = length (open_files t)" using assms by (simp add: files_ok_def)
  fix i assume i: "i < length fs"
  then have i4: "i < MAX_OPEN_FILES" using assms(2) by (simp add: files_ok_def)
  have "fd_file (t\<lparr>open_files := fs\<rparr>) (of_nat i + 2) = fd_file t (of_nat i + 2)" using assms(3) by simp
  then show "fs ! i = open_files t ! i"
    using fd_of_slot [OF i4] i l by (simp add: fd_file_cases)
qed

text \<open>
  C12. The life of a descriptor. Opening a file fails exactly when the running thread has
  \<open>MAX_OPEN_FILES\<close> open already; otherwise it gives the lowest descriptor from 2 on that is not in
  use. Reads through it, however they are cut up, deliver the contents of the file from the start
  and stop at its end, and closing it then brings the kernel back to the state before the file
  was opened: no other descriptor, thread or address space has changed.
\<close>

theorem file_descriptor_life:
  assumes k: "kernel_ok x k" "current_thread k = Some t"
  shows "(None \<notin> set (open_files t) \<longrightarrow> open_file bytes k = Inr (None, k))
    \<and> (None \<in> set (open_files t) \<longrightarrow> (\<exists>fd k1. open_file bytes k = Inr (Some fd, k1)
        \<and> 2 \<le> unat fd \<and> unat fd < 2 + MAX_OPEN_FILES \<and> fd_file t fd = None
        \<and> (\<forall>fd'. 2 \<le> unat fd' \<and> unat fd' < unat fd \<longrightarrow> fd_file t fd' \<noteq> None)
        \<and> (\<forall>ns. \<exists>k2. read_all fd ns k1 = Inr (Some (take (sum_list ns) bytes), k2) \<and> close_file fd k2 = Inr (True, k))))"
proof (intro conjI impI)
  obtain st where st: "scheduler k = Some st" "sched_ok x st" using k(1) by (rule kernel_okE)
  have h: "threads st ! current st = Some t" using k(2) st(1) by (simp add: current_thread_def)
  have f: "files_ok t" by (rule sched_ok_current [OF st(2)]) (use h in \<open>simp add: thread_ok_def\<close>)
  note same = with_files_same [OF k(2)]
  show "open_file bytes k = Inr (None, k)" if "None \<notin> set (open_files t)"
  proof -
    have "\<forall>g\<in>set (open_files t). g \<noteq> None" using that by metis
    then have "open_file_in bytes t = Inr (None, t\<lparr>open_files := open_files t\<rparr>)"
      using open_file_in_spec(1) [OF f, of bytes] by simp
    then show ?thesis using file_call [OF k, of "open_file_in bytes" None "open_files t"] f same by (simp add: open_file_def)
  qed
  assume "None \<in> set (open_files t)"
  then obtain fd fs where fs: "open_file_in bytes t = Inr (Some fd, t\<lparr>open_files := fs\<rparr>)" "files_ok (t\<lparr>open_files := fs\<rparr>)"
      and fd: "2 \<le> unat fd \<and> unat fd < 2 + MAX_OPEN_FILES \<and> fd_file t fd = None
        \<and> (\<forall>fd'. 2 \<le> unat fd' \<and> unat fd' < unat fd \<longrightarrow> fd_file t fd' \<noteq> None)"
      and new: "fd_file (t\<lparr>open_files := fs\<rparr>) = (fd_file t)(fd := Some \<lparr>file_data = bytes, file_offset = 0\<rparr>)"
    using open_file_in_spec(2) [OF f, of bytes] by auto
  have o: "open_file bytes k = Inr (Some fd, with_files k fs)" and k1: "kernel_ok x (with_files k fs)"
      "current_thread (with_files k fs) = Some (t\<lparr>open_files := fs\<rparr>)"
    using file_call [OF k, of "open_file_in bytes"] fs by (simp_all add: open_file_def)
  have "\<exists>k2. read_all fd ns (with_files k fs) = Inr (Some (take (sum_list ns) bytes), k2) \<and> close_file fd k2 = Inr (True, k)" for ns
  proof -
    obtain fs2 f2 where r: "read_all fd ns (with_files k fs) = Inr (Some (take (sum_list ns) bytes), with_files k fs2)"
        "kernel_ok x (with_files k fs2)" "current_thread (with_files k fs2) = Some (t\<lparr>open_files := fs2\<rparr>)"
        "files_ok (t\<lparr>open_files := fs2\<rparr>)" "fd_file (t\<lparr>open_files := fs2\<rparr>) = (fd_file (t\<lparr>open_files := fs\<rparr>))(fd := Some f2)"
      using read_all_delivers [OF k1 fs(2), of fd "\<lparr>file_data = bytes, file_offset = 0\<rparr>" ns] new
      by (auto simp: with_files_twice unread_def)
    obtain fs3 where c: "close_file_in fd (t\<lparr>open_files := fs2\<rparr>) = Inr (True, t\<lparr>open_files := fs3\<rparr>)"
        "files_ok (t\<lparr>open_files := fs3\<rparr>)" "fd_file (t\<lparr>open_files := fs3\<rparr>) = (fd_file (t\<lparr>open_files := fs2\<rparr>))(fd := None)"
      using close_file_in_spec [OF r(4), of fd] r(5) by auto
    have "fd_file (t\<lparr>open_files := fs3\<rparr>) = fd_file t" using c(3) r(5) new fd by (auto simp: fun_eq_iff)
    then have "fs3 = open_files t" by (rule fd_file_determines [OF f c(2)])
    then have "close_file fd (with_files k fs2) = Inr (True, k)"
      using file_call [OF r(2,3), of "close_file_in fd" True fs3] c same by (simp add: close_file_def with_files_twice)
    then show ?thesis using r(1) by blast
  qed
  then show "\<exists>fd k1. open_file bytes k = Inr (Some fd, k1) \<and> 2 \<le> unat fd \<and> unat fd < 2 + MAX_OPEN_FILES \<and> fd_file t fd = None
        \<and> (\<forall>fd'. 2 \<le> unat fd' \<and> unat fd' < unat fd \<longrightarrow> fd_file t fd' \<noteq> None)
        \<and> (\<forall>ns. \<exists>k2. read_all fd ns k1 = Inr (Some (take (sum_list ns) bytes), k2) \<and> close_file fd k2 = Inr (True, k))"
    using o fd by blast
qed

theorem file_descriptor_life_witness:
  "\<exists>fd k1 k2. open_file [1, 2, 3] (sample_kernel\<lparr>scheduler := Some (initial_state 0x1000)\<rparr>) = Inr (Some fd, k1)
     \<and> read_all fd [2, 0, 5] k1 = Inr (Some [1, 2, 3], k2)
     \<and> close_file fd k2 = Inr (True, sample_kernel\<lparr>scheduler := Some (initial_state 0x1000)\<rparr>)"
proof -
  let ?k = "sample_kernel\<lparr>scheduler := Some (initial_state 0x1000)\<rparr>"
  have "reachable sample_platform set ?k" using sample_one by (simp add: sample_state_def)
  then have "kernel_ok (x86 sample_platform) ?k" using reachable_ok [OF sample_platform_ok] by blast
  moreover have "current_thread ?k = Some boot_thread"
    by (simp add: current_thread_def initial_state_def MAX_THREADS_def)
  moreover have "None \<in> set (open_files boot_thread)" by (simp add: boot_thread_def MAX_OPEN_FILES_def)
  moreover have "take (sum_list [2, 0, 5]) [1, 2, 3] = [1, 2, 3 :: u8]" by simp
  ultimately show ?thesis using file_descriptor_life [of "x86 sample_platform" ?k boot_thread "[1, 2, 3]"] by metis
qed

end
