(* ===== verification/Syscall.thy ===== *)
theory Syscall
  imports Elf Fs Sched_Resources
begin

text \<open>
  The system calls (\<open>src/syscall.rs\<close>): the entry code behind \<open>int 0x80\<close>, the dispatcher, the
  checked copies from and to the memory of the caller, and the seven calls.

  A system call can give a value back to its caller (\<open>Back\<close>), or end with the calling thread
  gone and another thread running (\<open>Gone\<close>); it can panic; and it may never return (\<open>None\<close>),
  which is what a loop that does not end gives.
\<close>

datatype 'a control = Back 'a | Gone

type_synonym ('a, 'h, 'd) call = "('a control \<times> ('h, 'd) kernel) result option"

definition give :: "'a \<Rightarrow> ('h, 'd) kernel \<Rightarrow> ('a, 'h, 'd) call" where
  "give v k = Some (Inr (Back v, k))"

definition run :: "('a \<times> ('h, 'd) kernel) result \<Rightarrow> ('a, 'h, 'd) call" where
  "run m = Some (bind_result m (\<lambda>(v, k). Inr (Back v, k)))"

definition leave :: "('h, 'd) kernel result \<Rightarrow> ('a, 'h, 'd) call" where
  "leave m = Some (bind_result m (\<lambda>k. Inr (Gone, k)))"

definition bind_call :: "('a, 'h, 'd) call \<Rightarrow> ('a \<Rightarrow> ('h, 'd) kernel \<Rightarrow> ('b, 'h, 'd) call) \<Rightarrow> ('b, 'h, 'd) call" where
  "bind_call m f =
     (case m of
        None \<Rightarrow> None
      | Some (Inl e) \<Rightarrow> Some (Inl e)
      | Some (Inr (Gone, k)) \<Rightarrow> Some (Inr (Gone, k))
      | Some (Inr (Back v, k)) \<Rightarrow> f v k)"

lemma bind_call_simps [simp]:
  "bind_call None f = None" "bind_call (Some (Inl e)) f = Some (Inl e)"
  "bind_call (Some (Inr (Gone, k))) f = Some (Inr (Gone, k))" "bind_call (Some (Inr (Back v, k))) f = f v k"
  by (simp_all add: bind_call_def)

lemma call_simps [simp]:
  "bind_call (give v k) f = f v k" "run (Inl e) = Some (Inl e)" "run (Inr (v, k)) = give v k"
  "leave (Inl e) = Some (Inl e)" "leave (Inr k) = Some (Inr (Gone, k))"
  by (simp_all add: give_def run_def leave_def)

section \<open>Numbers\<close>

definition SYS_WRITE :: u64 where "SYS_WRITE = 0"
definition SYS_READ :: u64 where "SYS_READ = 1"
definition SYS_EXIT :: u64 where "SYS_EXIT = 2"
definition SYS_OPEN :: u64 where "SYS_OPEN = 3"
definition SYS_CLOSE :: u64 where "SYS_CLOSE = 4"
definition SYS_SPAWN :: u64 where "SYS_SPAWN = 5"
definition SYS_WAIT :: u64 where "SYS_WAIT = 6"
definition u64_MAX :: u64 where "u64_MAX = 0xFFFFFFFFFFFFFFFF"

lemmas syscall_numbers = SYS_WRITE_def SYS_READ_def SYS_EXIT_def SYS_OPEN_def SYS_CLOSE_def SYS_SPAWN_def SYS_WAIT_def

section \<open>The caller's memory\<close>

definition user_range_ok :: "('h, 'd) platform \<Rightarrow> u64 \<Rightarrow> nat \<Rightarrow> bool \<Rightarrow> ('h, 'd) kernel \<Rightarrow> (bool, 'h, 'd) call" where
  "user_range_ok p ptr len need_write k =
     (if ptr = 0 then give False k
      else case virt_try_new (x86 p) ptr of
             None \<Rightarrow> give False k
           | Some addr \<Rightarrow>
               (case physical_memory_offset k of
                  None \<Rightarrow> Some (panic ''memory::set_physical_memory_offset was never called'')
                | Some _ \<Rightarrow>
                    map_option (\<lambda>r. bind_result r (\<lambda>ok. Inr (Back ok, k)))
                      (user_range_mapped (x86 p) (memory k) (cr3 (cpu_regs k)) addr (of_nat len) need_write)))"

text \<open>
  An access of the kernel to a virtual address goes through the active table; an address that
  is not mapped is a page fault, and \<open>page_fault_handler\<close> panics.
\<close>

definition virt_frame :: "('h, 'd) platform \<Rightarrow> ('h, 'd) kernel \<Rightarrow> u64 \<Rightarrow> phys_frame result" where
  "virt_frame p k a =
     (case translate_levels (x86 p) (memory k) a [4, 3, 2, 1] (cr3 (cpu_regs k)) of
        Inr (Some frame) \<Rightarrow> Inr frame
      | _ \<Rightarrow> panic ''EXCEPTION: PAGE FAULT'')"

definition load_byte :: "('h, 'd) platform \<Rightarrow> ('h, 'd) kernel \<Rightarrow> u64 \<Rightarrow> u8 result" where
  "load_byte p k a = bind_result (virt_frame p k a) (\<lambda>frame. Inr (memory k frame (unat (take_bit 12 a))))"

definition store_byte :: "('h, 'd) platform \<Rightarrow> u64 \<Rightarrow> u8 \<Rightarrow> ('h, 'd) kernel \<Rightarrow> ('h, 'd) kernel result" where
  "store_byte p a b k =
     bind_result (virt_frame p k a) (\<lambda>frame.
     Inr (k\<lparr>memory := (memory k)(frame := (memory k frame)(unat (take_bit 12 a) := b))\<rparr>))"

text \<open>\<open>core::ptr::copy_nonoverlapping\<close> from and to virtual memory.\<close>

definition load_bytes :: "('h, 'd) platform \<Rightarrow> ('h, 'd) kernel \<Rightarrow> u64 \<Rightarrow> nat \<Rightarrow> u8 list result" where
  "load_bytes p k ptr n =
     for_each [0..<n] (\<lambda>i bs. bind_result (load_byte p k (ptr + of_nat i)) (\<lambda>b. Inr (bs @ [b]))) []"

definition store_bytes :: "('h, 'd) platform \<Rightarrow> u64 \<Rightarrow> u8 list \<Rightarrow> ('h, 'd) kernel \<Rightarrow> ('h, 'd) kernel result" where
  "store_bytes p ptr bs = for_each [0..<length bs] (\<lambda>i. store_byte p (ptr + of_nat i) (bs ! i))"

definition copy_from_user :: "('h, 'd) platform \<Rightarrow> u64 \<Rightarrow> nat \<Rightarrow> ('h, 'd) kernel \<Rightarrow> (u8 list, 'h, 'd) call" where
  "copy_from_user p ptr n k =
     bind_call (user_range_ok p ptr n False k) (\<lambda>ok k.
     if \<not> ok then leave (kill_current_thread p ''syscall argument pointer not mapped for read'' k)
     else run (bind_result (load_bytes p k ptr n) (\<lambda>bs. Inr (bs, k))))"

definition copy_to_user :: "('h, 'd) platform \<Rightarrow> u64 \<Rightarrow> u8 list \<Rightarrow> ('h, 'd) kernel \<Rightarrow> (unit, 'h, 'd) call" where
  "copy_to_user p ptr bs k =
     bind_call (user_range_ok p ptr (length bs) True k) (\<lambda>ok k.
     if \<not> ok then leave (kill_current_thread p ''syscall argument pointer not mapped for write'' k)
     else run (bind_result (store_bytes p ptr bs k) (\<lambda>k. Inr ((), k))))"

section \<open>UTF-8\<close>

text \<open>
  \<open>core::str::from_utf8\<close>: the characters of a well-formed byte sequence. The bounds on the second
  byte exclude overlong forms, surrogates and values above 0x10FFFF.
\<close>

definition continuation :: "u8 \<Rightarrow> bool" where
  "continuation b \<longleftrightarrow> 0x80 \<le> b \<and> b \<le> 0xBF"

definition second_ok :: "u8 \<Rightarrow> u8 \<Rightarrow> bool" where
  "second_ok b c \<longleftrightarrow>
     (if b = 0xE0 then 0xA0 \<le> c \<and> c \<le> 0xBF else if b = 0xED then 0x80 \<le> c \<and> c \<le> 0x9F
      else if b = 0xF0 then 0x90 \<le> c \<and> c \<le> 0xBF else if b = 0xF4 then 0x80 \<le> c \<and> c \<le> 0x8F
      else continuation c)"

fun from_utf8 :: "u8 list \<Rightarrow> nat list option" where
  "from_utf8 [] = Some []"
| "from_utf8 (b # bs) =
     (if b < 0x80 then map_option ((#) (unat b)) (from_utf8 bs)
      else if 0xC2 \<le> b \<and> b \<le> 0xDF then
        (case bs of
           c # bs \<Rightarrow> if continuation c
             then map_option ((#) ((unat b - 0xC0) * 64 + (unat c - 0x80))) (from_utf8 bs) else None
         | _ \<Rightarrow> None)
      else if 0xE0 \<le> b \<and> b \<le> 0xEF then
        (case bs of
           c # d # bs \<Rightarrow> if second_ok b c \<and> continuation d
             then map_option ((#) (((unat b - 0xE0) * 64 + (unat c - 0x80)) * 64 + (unat d - 0x80))) (from_utf8 bs) else None
         | _ \<Rightarrow> None)
      else if 0xF0 \<le> b \<and> b \<le> 0xF4 then
        (case bs of
           c # d # e # bs \<Rightarrow> if second_ok b c \<and> continuation d \<and> continuation e
             then map_option ((#) ((((unat b - 0xF0) * 64 + (unat c - 0x80)) * 64 + (unat d - 0x80)) * 64 + (unat e - 0x80)))
               (from_utf8 bs) else None
         | _ \<Rightarrow> None)
      else None)"

section \<open>The calls\<close>

definition print_chars :: "nat list \<Rightarrow> ('h, 'd) kernel \<Rightarrow> ('h, 'd) kernel result" where
  "print_chars s k = bind_result (write_string s (screen k)) (\<lambda>w. Inr (k\<lparr>screen := w\<rparr>))"

definition sys_write :: "('h, 'd) platform \<Rightarrow> u64 \<Rightarrow> u64 \<Rightarrow> u64 \<Rightarrow> ('h, 'd) kernel \<Rightarrow> (u64, 'h, 'd) call" where
  "sys_write p fd ptr len k =
     (if fd \<noteq> 1 then give u64_MAX k
      else
        let len = min len 1024 in
        bind_call (copy_from_user p ptr (unat len) k) (\<lambda>staged k.
        run (bind_result
          (print_chars (case from_utf8 staged of Some s \<Rightarrow> s | None \<Rightarrow> map of_char ''<sys_write: invalid utf-8>'') k)
          (\<lambda>k. Inr (len, k)))))"

text \<open>A block of code with the kernel's own table active, for the parts that need its heap.\<close>

definition in_kernel_space ::
  "(('h, 'd) kernel \<Rightarrow> ('a, 'h, 'd) call) \<Rightarrow> ('h, 'd) kernel \<Rightarrow> ('a, 'h, 'd) call" where
  "in_kernel_space body k =
     (let caller_page_table = cr3 (cpu_regs k) in
      bind_call (run (kernel_page_table_of k)) (\<lambda>l4 k.
      let needs_switch = (caller_page_table \<noteq> l4);
          k = (if needs_switch then cr3_write l4 k else k) in
      bind_call (body k) (\<lambda>v k.
      give v (if needs_switch then cr3_write caller_page_table k else k))))"

fun pop_input :: "nat \<Rightarrow> input_queue \<Rightarrow> u8 list \<times> input_queue" where
  "pop_input 0 q = ([], q)"
| "pop_input (Suc n) q =
     (case try_pop_input_byte q of
        (Some byte, q) \<Rightarrow> (let (bs, q) = pop_input n q in (byte # bs, q))
      | (None, q) \<Rightarrow> ([], q))"

definition sys_read_stdin :: "('h, 'd) platform \<Rightarrow> u64 \<Rightarrow> nat \<Rightarrow> ('h, 'd) kernel \<Rightarrow> (u64, 'h, 'd) call" where
  "sys_read_stdin p ptr len k =
     bind_call (user_range_ok p ptr len True k) (\<lambda>ok k.
     if \<not> ok then leave (kill_current_thread p ''sys_read: destination pointer not mapped for write'' k)
     else
       bind_call (in_kernel_space (\<lambda>k. let (staged, q) = pop_input len (input k) in give staged (k\<lparr>input := q\<rparr>)) k)
         (\<lambda>staged k.
       if 0 < length staged
       then bind_call (copy_to_user p ptr staged k) (\<lambda>_ k. give (of_nat (length staged)) k)
       else give (of_nat (length staged)) k))"

definition sys_read_file :: "('h, 'd) platform \<Rightarrow> u64 \<Rightarrow> u64 \<Rightarrow> nat \<Rightarrow> ('h, 'd) kernel \<Rightarrow> (u64, 'h, 'd) call" where
  "sys_read_file p fd ptr len k =
     bind_call (user_range_ok p ptr len True k) (\<lambda>ok k.
     if \<not> ok then leave (kill_current_thread p ''sys_read: destination pointer not mapped for write'' k)
     else
       bind_call (run (read_open_file fd (replicate len 0) k)) (\<lambda>(found, staged) k.
       case found of
         Some n \<Rightarrow>
           if 0 < n
           then bind_call (copy_to_user p ptr (take n staged) k) (\<lambda>_ k. give (of_nat n) k)
           else give (of_nat n) k
       | None \<Rightarrow> give u64_MAX k))"

definition sys_read :: "('h, 'd) platform \<Rightarrow> u64 \<Rightarrow> u64 \<Rightarrow> u64 \<Rightarrow> ('h, 'd) kernel \<Rightarrow> (u64, 'h, 'd) call" where
  "sys_read p fd ptr len k =
     (let len = unat (min len 256) in
      if len = 0 then give 0 k
      else if fd = 0 then sys_read_stdin p ptr len k
      else if FIRST_FILE_FD \<le> fd then sys_read_file p fd ptr len k
      else give u64_MAX k)"

text \<open>
  \<open>fs::read_file\<close> on the disk of the kernel. The vector of the file is a value of the model, not a
  block of its heap, which holds the stacks of the threads; whether the vector fits is asked of the heap.
\<close>

definition heap_room :: "('h, 'd) platform \<Rightarrow> 'h \<Rightarrow> nat \<Rightarrow> bool" where
  "heap_room p h n \<longleftrightarrow> fst (heap_alloc p (of_nat n) 1 h) \<noteq> 0"

definition kernel_read_file :: "('h, 'd) platform \<Rightarrow> u8 list \<Rightarrow> ('h, 'd) kernel \<Rightarrow> (u8 list option, 'h, 'd) call" where
  "kernel_read_file p path k =
     map_option (\<lambda>r. bind_result r (\<lambda>(contents, d). Inr (Back contents, k\<lparr>disk := d\<rparr>)))
       (read_file (fs_read_sector (ata_ports p)) (heap_room p (heap k)) path (disk k))"

definition sys_open :: "('h, 'd) platform \<Rightarrow> u64 \<Rightarrow> u64 \<Rightarrow> ('h, 'd) kernel \<Rightarrow> (u64, 'h, 'd) call" where
  "sys_open p path_ptr path_len k =
     (if path_len = 0 \<or> 255 < path_len then give u64_MAX k
      else
        bind_call (copy_from_user p path_ptr (unat path_len) k) (\<lambda>path k.
        if from_utf8 path = None then give u64_MAX k
        else
          bind_call (in_kernel_space (kernel_read_file p path) k) (\<lambda>contents k.
          case contents of
            Some contents \<Rightarrow>
              bind_call (run (open_file contents k)) (\<lambda>fd k. give (case fd of Some fd \<Rightarrow> fd | None \<Rightarrow> u64_MAX) k)
          | None \<Rightarrow> give u64_MAX k)))"

definition sys_close :: "u64 \<Rightarrow> ('h, 'd) kernel \<Rightarrow> (u64, 'h, 'd) call" where
  "sys_close fd k = bind_call (run (close_file fd k)) (\<lambda>closed k. give (if closed then 0 else u64_MAX) k)"

definition spawn_from_path :: "('h, 'd) platform \<Rightarrow> u8 list \<Rightarrow> u8 list \<Rightarrow> ('h, 'd) kernel \<Rightarrow> (u64 option, 'h, 'd) call" where
  "spawn_from_path p path args k =
     bind_call (kernel_read_file p path k) (\<lambda>contents k.
     case contents of
       None \<Rightarrow> give None k
     | Some contents \<Rightarrow>
         (case physical_memory_offset k of
            None \<Rightarrow> Some (panic ''memory::set_physical_memory_offset was never called'')
          | Some offset \<Rightarrow>
              bind_call (run (bind_result (load p contents offset args (cr3 (cpu_regs k)) (memory k, frames k))
                  (\<lambda>(loaded, pm, fs). Inr (loaded, k\<lparr>memory := pm, frames := fs\<rparr>)))) (\<lambda>loaded k.
              case loaded of
                None \<Rightarrow> give None k
              | Some (isolated_mapper, elf) \<Rightarrow>
                  let kernel_mapper = cr3 (cpu_regs k) in
                  bind_call (run (spawn_user p (elf_entry elf) (elf_stack_top elf) (elf_args_ptr elf) (elf_args_len elf)
                      (elf_page_table elf) kernel_mapper isolated_mapper k))
                    (\<lambda>pid k. give (Some pid) k))))"

definition sys_spawn :: "('h, 'd) platform \<Rightarrow> u64 \<Rightarrow> u64 \<Rightarrow> u64 \<Rightarrow> u64 \<Rightarrow> ('h, 'd) kernel \<Rightarrow> (u64, 'h, 'd) call" where
  "sys_spawn p path_ptr path_len args_ptr args_len k =
     (if path_len = 0 \<or> 255 < path_len \<or> 255 < args_len then give u64_MAX k
      else
        bind_call (copy_from_user p path_ptr (unat path_len) k) (\<lambda>path k.
        if from_utf8 path = None then give u64_MAX k
        else
          bind_call (if 0 < args_len then copy_from_user p args_ptr (unat args_len) k else give [] k) (\<lambda>args k.
          bind_call (in_kernel_space (spawn_from_path p path args) k) (\<lambda>pid k.
          give (case pid of Some pid \<Rightarrow> pid | None \<Rightarrow> u64_MAX) k))))"

text \<open>
  The polling loop of \<open>sys_wait\<close>. After \<open>yield_now\<close> another thread may run; \<open>others\<close> is what the
  machine does until the waiting thread runs again.
\<close>

partial_function (option) wait_loop ::
  "('h, 'd) platform \<Rightarrow> (('h, 'd) kernel \<Rightarrow> ('h, 'd) kernel) \<Rightarrow> u64 \<Rightarrow> ('h, 'd) kernel \<Rightarrow> (u64, 'h, 'd) call" where
  "wait_loop p others pid k =
     (case thread_alive pid k of
        Inl e \<Rightarrow> Some (Inl e)
      | Inr (alive, k) \<Rightarrow>
          if \<not> alive then give 0 k
          else (case yield_now p k of
                  Inl e \<Rightarrow> Some (Inl e)
                | Inr k \<Rightarrow> wait_loop p others pid (others k)))"

definition sys_wait ::
  "('h, 'd) platform \<Rightarrow> (('h, 'd) kernel \<Rightarrow> ('h, 'd) kernel) \<Rightarrow> u64 \<Rightarrow> ('h, 'd) kernel \<Rightarrow> (u64, 'h, 'd) call" where
  "sys_wait p others pid k =
     bind_call (run (thread_alive pid k)) (\<lambda>alive k.
     if \<not> alive then give u64_MAX k else wait_loop p others pid k)"

definition dispatch ::
  "('h, 'd) platform \<Rightarrow> (('h, 'd) kernel \<Rightarrow> ('h, 'd) kernel) \<Rightarrow> u64 \<Rightarrow> u64 \<Rightarrow> u64 \<Rightarrow> u64 \<Rightarrow> u64 \<Rightarrow> ('h, 'd) kernel
   \<Rightarrow> (u64, 'h, 'd) call" where
  "dispatch p others number arg1 arg2 arg3 arg4 k =
     (if number = SYS_WRITE then sys_write p arg1 arg2 arg3 k
      else if number = SYS_READ then sys_read p arg1 arg2 arg3 k
      else if number = SYS_OPEN then sys_open p arg1 arg2 k
      else if number = SYS_CLOSE then sys_close arg1 k
      else if number = SYS_SPAWN then sys_spawn p arg1 arg2 arg3 arg4 k
      else if number = SYS_WAIT then sys_wait p others arg1 k
      else if number = SYS_EXIT then leave (exit_current_thread p k)
      else give u64_MAX k)"

end
