(* ===== verification/Elf_Props.thy ===== *)
theory Elf_Props
  imports Elf
begin

text \<open>
  What the ELF loader does: the segments of a file as a reference parser reads them, the memory
  of the new address space after a load, and the files it gives up on.
\<close>

section \<open>The segments of a file\<close>

text \<open>A loadable segment: its bytes in the file, its address, its size in memory, and whether it is writable.\<close>

type_synonym segment = "u8 list \<times> u64 \<times> u64 \<times> bool"

text \<open>Header \<open>i\<close>: \<open>None\<close> when it cannot be read, \<open>Some None\<close> when it is not a loadable segment.\<close>

definition parse_header :: "u8 list \<Rightarrow> u64 \<Rightarrow> u64 \<Rightarrow> nat \<Rightarrow> segment option option" where
  "parse_header bytes phoff phentsize i =
     Option.bind (checked_mul (of_nat i) phentsize) (\<lambda>d.
     Option.bind (checked_add phoff d) (\<lambda>ph.
     Option.bind (read_u32 bytes ph 0) (\<lambda>p_type.
     if p_type \<noteq> PT_LOAD then Some None
     else
     Option.bind (read_u32 bytes ph 4) (\<lambda>p_flags.
     Option.bind (read_u64 bytes ph 8) (\<lambda>p_offset.
     Option.bind (read_u64 bytes ph 16) (\<lambda>p_vaddr.
     Option.bind (read_u64 bytes ph 32) (\<lambda>p_filesz.
     Option.bind (read_u64 bytes ph 40) (\<lambda>p_memsz.
     Option.bind (checked_add p_offset p_filesz) (\<lambda>file_end.
     Option.bind (get_range bytes (unat p_offset) (unat file_end)) (\<lambda>file_bytes.
     Some (Some (file_bytes, p_vaddr, p_memsz, p_flags AND PF_W \<noteq> 0))))))))))))"

fun parse_headers :: "u8 list \<Rightarrow> u64 \<Rightarrow> u64 \<Rightarrow> nat list \<Rightarrow> segment list option" where
  "parse_headers bytes phoff phentsize [] = Some []"
| "parse_headers bytes phoff phentsize (i # is) =
     Option.bind (parse_header bytes phoff phentsize i) (\<lambda>seg.
     Option.bind (parse_headers bytes phoff phentsize is) (\<lambda>segs.
     Some (case seg of None \<Rightarrow> segs | Some seg \<Rightarrow> seg # segs)))"

definition elf_segments :: "u8 list \<Rightarrow> segment list option" where
  "elf_segments bytes =
     Option.bind (read_u64 bytes 0 32) (\<lambda>phoff.
     Option.bind (read_u16 bytes 0 54) (\<lambda>phentsize.
     Option.bind (read_u16 bytes 0 56) (\<lambda>phnum.
     parse_headers bytes phoff (ucast phentsize) [0..<unat phnum])))"

lemma try_opt_bind: "try_opt (Option.bind x f) s g = try_opt x s (\<lambda>v. try_opt (f v) s g)"
  by (cases x) simp_all

lemma try_opt_if: "try_opt (if c then x else y) s g = (if c then try_opt x s g else try_opt y s g)"
  by simp

lemma load_segment_parse:
  "load_segment p bytes mapper phoff phentsize i highest m =
     try_opt (parse_header bytes phoff phentsize i) m (\<lambda>seg.
     case seg of
       None \<Rightarrow> Inr (Some highest, m)
     | Some (file_bytes, vaddr, memsz, writable) \<Rightarrow>
         try_call (map_segment p mapper file_bytes vaddr memsz writable m) (\<lambda>_ m.
         try_opt (checked_add vaddr memsz) m (\<lambda>segment_end.
         Inr (Some (max highest segment_end), m))))"
  by (simp add: load_segment_def parse_header_def try_opt_bind try_opt_if Let_def cong: if_cong)

text \<open>The end of the highest segment, which the loop computes.\<close>

definition segment_end :: "segment \<Rightarrow> u64" where
  "segment_end = (\<lambda>(file_bytes, vaddr, memsz, writable). vaddr + memsz)"

text \<open>The segments one after the other, as the loop maps them.\<close>

fun map_segments :: "('h, 'd) platform \<Rightarrow> phys_frame \<Rightarrow> segment list \<Rightarrow> mem_state \<Rightarrow> (unit option \<times> mem_state) result" where
  "map_segments p mapper [] m = Inr (Some (), m)"
| "map_segments p mapper ((file_bytes, vaddr, memsz, writable) # segs) m =
     try_call (map_segment p mapper file_bytes vaddr memsz writable m) (\<lambda>_ m. map_segments p mapper segs m)"

lemma try_call_SomeE:
  assumes "try_call m f = Inr (Some y, s)"
  obtains x s1 where "m = Inr (Some x, s1)" "f x s1 = Inr (Some y, s)"
proof (cases m)
  case (Inr r)
  obtain v s1 where "r = (v, s1)" by fastforce
  then show ?thesis using assms Inr that by (cases v) simp_all
qed (use assms in simp)

lemma try_opt_SomeE:
  assumes "try_opt x s0 f = Inr (Some y, s)"
  obtains v where "x = Some v" "f v = Inr (Some y, s)"
  using assms that by (cases x) simp_all

lemma load_headers_segments:
  assumes "load_headers p bytes mapper phoff phentsize is highest m = Inr (Some h, m')"
  shows "\<exists>segs. parse_headers bytes phoff phentsize is = Some segs \<and> map_segments p mapper segs m = Inr (Some (), m')
    \<and> h = fold (\<lambda>s. max (segment_end s)) segs highest \<and> (\<forall>(f, v, n, w) \<in> set segs. unat v + unat n < 2 ^ 64)"
  using assms
proof (induction "is" arbitrary: highest m)
  case Nil
  then show ?case by simp
next
  case (Cons i "is")
  obtain h1 m1 where s: "load_segment p bytes mapper phoff phentsize i highest m = Inr (Some h1, m1)"
      and r: "load_headers p bytes mapper phoff phentsize is h1 m1 = Inr (Some h, m')"
    using Cons.prems by (auto elim: try_call_SomeE)
  obtain segs where segs: "parse_headers bytes phoff phentsize is = Some segs" "map_segments p mapper segs m1 = Inr (Some (), m')"
      "h = fold (\<lambda>s. max (segment_end s)) segs h1" "\<forall>(f, v, n, w) \<in> set segs. unat v + unat n < 2 ^ 64"
    using Cons.IH [OF r] by blast
  obtain seg where seg: "parse_header bytes phoff phentsize i = Some seg"
      "(case seg of None \<Rightarrow> Inr (Some highest, m)
        | Some (file_bytes, vaddr, memsz, writable) \<Rightarrow>
            try_call (map_segment p mapper file_bytes vaddr memsz writable m) (\<lambda>_ m.
            try_opt (checked_add vaddr memsz) m (\<lambda>segment_end.
            Inr (Some (max highest segment_end), m)))) = Inr (Some h1, m1)"
    using s unfolding load_segment_parse by (rule try_opt_SomeE)
  show ?case
  proof (cases seg)
    case None
    then show ?thesis using seg segs by simp
  next
    case (Some g)
    obtain f v n w where g: "g = (f, v, n, w)" by (cases g)
    have "try_call (map_segment p mapper f v n w m) (\<lambda>_ m. try_opt (checked_add v n) m (\<lambda>e. Inr (Some (max highest e), m)))
        = Inr (Some h1, m1)"
      using seg(2) Some g by simp
    then obtain s1 where ms: "map_segment p mapper f v n w m = Inr (Some (), s1)"
        "try_opt (checked_add v n) s1 (\<lambda>e. Inr (Some (max highest e), s1)) = Inr (Some h1, m1)"
      by (elim try_call_SomeE) simp
    then obtain e where e: "checked_add v n = Some e" "h1 = max highest e" "m1 = s1" by (auto elim: try_opt_SomeE)
    have "e = v + n" "unat v + unat n < 2 ^ 64" using e(1) by (simp_all add: checked_add_def split: if_splits)
    moreover have "max (segment_end g) highest = h1" using e(2) calculation(1) g by (simp add: segment_end_def max.commute)
    ultimately show ?thesis using seg(1) segs ms(1) e Some g by simp
  qed
qed

section \<open>The mapper\<close>

text \<open>
  What the loader relies on of \<open>Mapper::map_to\<close> of the x86_64 crate, for address spaces that are
  well formed (\<open>good\<close>) and whose page tables are the frames \<open>tables\<close>: it succeeds only for a page
  that is not mapped; then that page is mapped to the frame with the flags, pages mapped before
  stay as they are, new tables come from the allocator, and only tables are written. What a space
  maps depends on its tables only. A new top-level table whose entries are empty or those of a
  well-formed space is well formed, with the tables of that space below it.
\<close>

definition is_page :: "virt_addr \<Rightarrow> bool" where
  "is_page a \<longleftrightarrow> canonical a \<and> take_bit 12 a = 0"

definition same_mapping :: "('h, 'd) platform \<Rightarrow> phys_frame \<Rightarrow> virt_addr \<Rightarrow> pmem \<Rightarrow> pmem \<Rightarrow> bool" where
  "same_mapping p l4 q pm pm' \<longleftrightarrow> translate_page p pm' l4 q = translate_page p pm l4 q
     \<and> (\<forall>w. page_accessible (x86 p) pm' l4 q w = page_accessible (x86 p) pm l4 q w)"

definition mapped :: "('h, 'd) platform \<Rightarrow> (pmem \<Rightarrow> phys_frame \<Rightarrow> bool) \<Rightarrow> (pmem \<Rightarrow> phys_frame \<Rightarrow> phys_frame set)
    \<Rightarrow> phys_frame \<Rightarrow> virt_addr \<Rightarrow> phys_frame \<Rightarrow> u64 \<Rightarrow> mem_state \<Rightarrow> mem_state \<Rightarrow> bool" where
  "mapped p good tables l4 page frame flags = (\<lambda>(pm, fs) (pm', fs').
     good pm' l4 \<and> global_ok fs'
     \<and> translate_page p pm l4 page = None \<and> translate_page p pm' l4 page = Some frame
     \<and> (\<forall>w. page_accessible (x86 p) pm' l4 page w \<longleftrightarrow> (w \<longrightarrow> flags_contain flags WRITABLE))
     \<and> (\<forall>q. is_page q \<and> translate_page p pm l4 q \<noteq> None \<longrightarrow> same_mapping p l4 q pm pm')
     \<and> (\<exists>taken. mset (global_avail fs) = mset taken + mset (global_avail fs') \<and> tables pm' l4 \<subseteq> tables pm l4 \<union> set taken)
     \<and> (\<forall>f. f \<notin> tables pm' l4 \<longrightarrow> pm' f = pm f))"

definition mapper_laws :: "('h, 'd) platform \<Rightarrow> (pmem \<Rightarrow> phys_frame \<Rightarrow> bool) \<Rightarrow> (pmem \<Rightarrow> phys_frame \<Rightarrow> phys_frame set) \<Rightarrow> bool" where
  "mapper_laws p good tables \<longleftrightarrow>
     (\<forall>l4 page frame flags pm fs pm' fs'.
        good pm l4 \<and> global_ok fs \<and> is_page page \<and> frame \<notin> tables pm l4 \<and> frame \<notin> set (global_avail fs)
        \<and> flags_contain flags (PRESENT OR USER_ACCESSIBLE) \<and> map_to p l4 page frame flags (pm, fs) = Inr (None, pm', fs')
        \<longrightarrow> mapped p good tables l4 page frame flags (pm, fs) (pm', fs'))
   \<and> (\<forall>l4 pm pm'. good pm l4 \<and> (\<forall>f \<in> tables pm l4. pm' f = pm f) \<longrightarrow>
        good pm' l4 \<and> tables pm' l4 = tables pm l4 \<and> (\<forall>q. is_page q \<longrightarrow> same_mapping p l4 q pm pm'))
   \<and> (\<forall>pm active l4. good pm active \<and> l4 \<notin> tables pm active
        \<and> (\<forall>i<512. read_entry pm l4 i = 0 \<or> read_entry pm l4 i = read_entry pm active i) \<longrightarrow>
        good pm l4 \<and> tables pm l4 \<subseteq> insert l4 (tables pm active))"

lemma mapper_mapped:
  assumes "mapper_laws p good tables" and "good pm l4" and "global_ok fs" and "is_page page" and "frame \<notin> tables pm l4"
    and "frame \<notin> set (global_avail fs)" and "flags_contain flags (PRESENT OR USER_ACCESSIBLE)"
    and "map_to p l4 page frame flags (pm, fs) = Inr (None, pm', fs')"
  shows "mapped p good tables l4 page frame flags (pm, fs) (pm', fs')"
  by (rule assms(1) [unfolded mapper_laws_def, THEN conjunct1, rule_format]) (use assms(2-) in simp)

lemma mapper_local:
  assumes "mapper_laws p good tables" and "good pm l4" and "\<And>f. f \<in> tables pm l4 \<Longrightarrow> pm' f = pm f"
  shows "good pm' l4 \<and> tables pm' l4 = tables pm l4 \<and> (\<forall>q. is_page q \<longrightarrow> same_mapping p l4 q pm pm')"
  by (rule assms(1) [unfolded mapper_laws_def, THEN conjunct2, THEN conjunct1, rule_format]) (use assms(2-) in simp)

lemma mapper_fresh:
  assumes "mapper_laws p good tables" and "good pm active" and "l4 \<notin> tables pm active"
    and "\<And>i. i < 512 \<Longrightarrow> read_entry pm l4 i = 0 \<or> read_entry pm l4 i = read_entry pm active i"
  shows "good pm l4 \<and> tables pm l4 \<subseteq> insert l4 (tables pm active)"
  by (rule assms(1) [unfolded mapper_laws_def, THEN conjunct2, THEN conjunct2, rule_format]) (use assms(2-) in simp)

section \<open>Loaded pages\<close>

text \<open>
  A set of pages with their contents and permissions that are in place: each is mapped to a frame of
  its own that is neither a table nor available. The last parameter is what the allocator had.
\<close>

type_synonym page_image = "virt_addr \<times> (nat \<Rightarrow> u8) \<times> bool"

definition page_loaded :: "('h, 'd) platform \<Rightarrow> (pmem \<Rightarrow> phys_frame \<Rightarrow> phys_frame set) \<Rightarrow> phys_frame \<Rightarrow> mem_state \<Rightarrow> page_image \<Rightarrow> bool" where
  "page_loaded p tables l4 m = (\<lambda>(page, contents, w). is_page page \<and> (\<exists>f. translate_page p (fst m) l4 page = Some f
     \<and> f \<notin> tables (fst m) l4 \<and> f \<notin> set (global_avail (snd m)) \<and> (\<forall>j<4096. fst m f j = contents j))
     \<and> (\<forall>v. page_accessible (x86 p) (fst m) l4 page v \<longleftrightarrow> (v \<longrightarrow> w)))"

definition loading :: "('h, 'd) platform \<Rightarrow> (pmem \<Rightarrow> phys_frame \<Rightarrow> bool) \<Rightarrow> (pmem \<Rightarrow> phys_frame \<Rightarrow> phys_frame set)
    \<Rightarrow> phys_frame \<Rightarrow> page_image set \<Rightarrow> mem_state \<Rightarrow> bool" where
  "loading p good tables l4 L m \<longleftrightarrow> good (fst m) l4 \<and> global_ok (snd m) \<and> distinct (global_avail (snd m))
     \<and> tables (fst m) l4 \<inter> set (global_avail (snd m)) = {} \<and> (\<forall>pg\<in>L. page_loaded p tables l4 m pg)"

text \<open>The contents of page \<open>i\<close> of a segment: its bytes of the file, then zeros.\<close>

definition segment_page :: "u8 list \<Rightarrow> nat \<Rightarrow> nat \<Rightarrow> u8" where
  "segment_page file_bytes i j = (if i * 4096 + j < length file_bytes then file_bytes ! (i * 4096 + j) else 0)"

lemma page_filled:
  assumes "i * 4096 < 2 ^ 64" and "j < 4096"
  shows "(if i * 4096 < length bs
      then copy_to_frame f (take (min (length bs - i * 4096) (unat PAGE_SIZE)) (drop (i * 4096) bs)) (zero_frame f pm)
      else zero_frame f pm) f j = segment_page bs i j"
  using assms by (auto simp: copy_to_frame_def zero_frame_def segment_page_def PAGE_SIZE_def)

lemma load_pageE:
  assumes "load_page p mapper bs flags start i m = Inr m'" and "i * 4096 < 2 ^ 64"
  obtains page frame fs1 pm fs where "page_add (x86 p) start (of_nat i) = Inr page"
    "global_allocate_frame (x86 p) (snd m) = Inr (Some frame, fs1)"
    "map_to p mapper page frame flags (fst m, fs1) = Inr (None, pm, fs)" "snd m' = fs"
    "\<forall>f. f \<noteq> frame \<longrightarrow> fst m' f = pm f" "\<forall>j<4096. fst m' frame j = segment_page bs i j"
proof -
  have i: "mul_ovf (of_nat i) PAGE_SIZE = Inr (of_nat i * PAGE_SIZE)" "unat (of_nat i * PAGE_SIZE) = i * 4096"
  proof -
    have u: "unat (of_nat i :: u64) = i" using assms(2) by (intro unat_of_nat_u64) simp
    have "unat (of_nat i :: u64) * unat PAGE_SIZE < 2 ^ LENGTH(64)" using assms(2) unfolding u by (simp add: PAGE_SIZE_def)
    then show "mul_ovf (of_nat i) PAGE_SIZE = Inr (of_nat i * PAGE_SIZE)" by (rule mul_ovf_no_overflow)
    then show "unat (of_nat i * PAGE_SIZE) = i * 4096" unfolding mul_ovf_Inr_iff u by (simp add: PAGE_SIZE_def)
  qed
  obtain page where page: "page_add (x86 p) start (of_nat i) = Inr page"
    using assms(1) by (cases "page_add (x86 p) start (of_nat i)") (simp_all add: load_page_def)
  obtain f fs1 where f: "global_allocate_frame (x86 p) (snd m) = Inr (f, fs1)"
    using assms(1) page by (cases "global_allocate_frame (x86 p) (snd m)") (auto simp: load_page_def)
  obtain frame where frame: "f = Some frame" using assms(1) page f by (cases f) (simp_all add: load_page_def)
  obtain err pm fs where mt: "map_to p mapper page frame flags (fst m, fs1) = Inr (err, pm, fs)"
    using assms(1) page f frame by (cases "map_to p mapper page frame flags (fst m, fs1)") (auto simp: load_page_def)
  have e: "err = None" using assms(1) page f frame mt by (cases err) (simp_all add: load_page_def)
  let ?pm = "if i * 4096 < length bs
      then copy_to_frame frame (take (min (length bs - i * 4096) (unat PAGE_SIZE)) (drop (i * 4096) bs)) (zero_frame frame pm)
      else zero_frame frame pm"
  have m': "m' = (?pm, fs)" using assms(1) page f frame mt e i by (simp add: load_page_def Let_def i(2) cong: if_cong)
  show ?thesis
  proof (rule that [OF page _ _ _ _ _])
    show "\<forall>j<4096. fst m' frame j = segment_page bs i j" using page_filled [OF assms(2)] m' by simp
  qed (use f frame mt e m' in \<open>auto simp: copy_to_frame_def zero_frame_def\<close>)
qed

lemma load_page_loads:
  assumes laws: "mapper_laws p good tables" "x86_laws (x86 p)" and inv: "loading p good tables l4 L m"
    and flags: "flags_contain flags (PRESENT OR USER_ACCESSIBLE)" and i: "i * 4096 < 2 ^ 64"
    and page: "page_add (x86 p) start (of_nat i) = Inr page" "is_page page"
    and call: "load_page p l4 bs flags start i m = Inr m'"
  shows "loading p good tables l4 (insert (page, segment_page bs i, flags_contain flags WRITABLE) L) m'
    \<and> length (global_avail (snd m')) < length (global_avail (snd m))"
proof -
  obtain page' frame fs1 pm fs where c: "page_add (x86 p) start (of_nat i) = Inr page'"
    "global_allocate_frame (x86 p) (snd m) = Inr (Some frame, fs1)"
    "map_to p l4 page' frame flags (fst m, fs1) = Inr (None, pm, fs)" "snd m' = fs"
    "\<forall>f. f \<noteq> frame \<longrightarrow> fst m' f = pm f" "\<forall>j<4096. fst m' frame j = segment_page bs i j"
    by (rule load_pageE [OF call i])
  have inv': "good (fst m) l4" "global_ok (snd m)" "distinct (global_avail (snd m))"
      "tables (fst m) l4 \<inter> set (global_avail (snd m)) = {}" "\<And>pg. pg \<in> L \<Longrightarrow> page_loaded p tables l4 m pg"
    using inv by (auto simp: loading_def)
  have a: "global_ok fs1" "global_avail (snd m) = frame # global_avail fs1"
    using global_frames.alloc_SomeD [OF _ c(2)] inv'(2) laws(2) by auto
  have fresh: "frame \<notin> tables (fst m) l4" "frame \<notin> set (global_avail fs1)" using inv'(3,4) a(2) by auto
  have "map_to p l4 page frame flags (fst m, fs1) = Inr (None, pm, fs)" using c(1,3) page(1) by simp
  then have mp: "mapped p good tables l4 page frame flags (fst m, fs1) (pm, fs)"
    using mapper_mapped [OF laws(1) inv'(1) a(1) page(2) fresh flags] by simp
  then obtain taken where t: "mset (global_avail fs1) = mset taken + mset (global_avail fs)" "tables pm l4 \<subseteq> tables (fst m) l4 \<union> set taken"
    by (auto simp: mapped_def)
  have laws2: "good (fst m') l4" "tables (fst m') l4 = tables pm l4" "\<And>q. is_page q \<Longrightarrow> same_mapping p l4 q pm (fst m')"
  proof -
    have "frame \<notin> tables pm l4" using t(2) mset_eq_setD [of "global_avail fs1" "taken @ global_avail fs"] t(1) fresh by auto
    then have "fst m' f = pm f" if "f \<in> tables pm l4" for f using c(5) that by metis
    moreover have "good pm l4" using mp by (simp add: mapped_def)
    ultimately show "good (fst m') l4" "tables (fst m') l4 = tables pm l4" "\<And>q. is_page q \<Longrightarrow> same_mapping p l4 q pm (fst m')"
      using mapper_local [OF laws(1)] by blast+
  qed
  have av: "set (global_avail fs1) = set taken \<union> set (global_avail fs)" "distinct (taken @ global_avail fs)"
    using mset_eq_setD [of "global_avail fs1" "taken @ global_avail fs"]
      mset_eq_imp_distinct_iff [of "global_avail fs1" "taken @ global_avail fs"] t(1) inv'(3) a(2) by auto
  have "page_loaded p tables l4 m' (page, segment_page bs i, flags_contain flags WRITABLE)"
    using laws2 [unfolded same_mapping_def] mp page(2) c(4,6) fresh t(2) av(1)
    by (auto simp: page_loaded_def mapped_def)
  moreover have "page_loaded p tables l4 m' pg" if pg: "pg \<in> L" for pg
  proof -
    obtain q contents w where q: "pg = (q, contents, w)" by (cases pg)
    obtain g where g: "is_page q" "translate_page p (fst m) l4 q = Some g" "g \<notin> tables (fst m) l4" "g \<notin> set (global_avail (snd m))"
        "\<forall>j<4096. fst m g j = contents j" "\<forall>v. page_accessible (x86 p) (fst m) l4 q v \<longleftrightarrow> (v \<longrightarrow> w)"
      using inv'(5) [OF pg] q by (auto simp: page_loaded_def)
    have "same_mapping p l4 q (fst m) pm" "same_mapping p l4 q pm (fst m')"
      using mp g(1,2) laws2(3) [OF g(1)] by (auto simp: mapped_def)
    moreover have "g \<notin> tables pm l4" "g \<notin> set (global_avail fs)" "g \<noteq> frame" using t(2) g(3,4) a(2) av(1) by auto
    moreover have "pm g = fst m g" using mp calculation(3) by (simp add: mapped_def)
    ultimately show ?thesis using g c(4,5) laws2(2) q by (simp add: page_loaded_def same_mapping_def)
  qed
  moreover have "tables (fst m') l4 \<inter> set (global_avail (snd m')) = {}"
    using laws2(2) t(2) av inv'(4) a(2) c(4) by auto
  moreover have "global_ok (snd m')" using mp c(4) by (simp add: mapped_def)
  moreover have "length (global_avail fs1) = length taken + length (global_avail fs)"
    using arg_cong [OF t(1), of size] by simp
  ultimately show ?thesis using laws2(1) av(2) c(4) a(2) by (auto simp: loading_def)
qed

section \<open>Segments\<close>

lemma page_remainder: "(a :: nat) < a div 4096 * 4096 + 4096"
  using div_mult_mod_eq [of a 4096] mod_less_divisor [of 4096 a] by linarith

lemma is_page_numbered: "is_page (page_numbered n)"
proof -
  have "take_bit 12 (page_numbered n) = 0"
    by (rule bit_word_eqI) (auto simp: bit_take_bit_iff page_numbered_def bit_sign_extend48 bit_push_bit_iff)
  then show ?thesis by (simp add: is_page_def canonical_numbered)
qed

lemma page_down: "unat (push_bit 12 (drop_bit 12 (a :: u64))) = unat a div 4096 * 4096"
proof -
  have "unat (drop_bit 12 a) = unat a div 4096" by (simp only: unat_drop_bit_eq) (simp add: drop_bit_eq_div)
  moreover have "unat a div 4096 * 4096 < 2 ^ 64" using unat_u64_less [of a] by (meson div_times_less_eq_dividend le_less_trans)
  ultimately show ?thesis by (simp add: push_bit_eq_mult unat_word_ariths)
qed

lemma page_containing_unat: "x86_laws x \<Longrightarrow> unat (page_containing x a) = unat a div 4096 * 4096"
  using page_down by (simp add: x86_laws_def)

lemma high_bit_set: "bit (a :: u64) 63 \<Longrightarrow> 2 ^ 63 \<le> unat a"
  using high_bits_zero [of a 63 63] by (meson not_le order_refl)

lemma try_new_high:
  assumes x: "x86_laws x" and a: "virt_try_new x a = Some b" "2 ^ 47 \<le> unat a"
  shows "2 ^ 63 \<le> unat b"
proof (cases "canonical a")
  case True
  have "bit a 63"
  proof (rule ccontr)
    assume n: "\<not> bit a 63"
    have b: "bit a k = bit a (min 47 k)" if "k < 64" for k using True that unfolding canonical_iff by blast
    have "bit a 63 = bit a (min 47 63)" by (rule b) simp
    then have c: "\<not> bit a 47" using n by simp
    have "k < 47" if k: "bit a k" for k
    proof (rule ccontr)
      assume "\<not> k < 47"
      moreover have "k < 64" using bit_imp_le_length [OF k] by simp
      ultimately have "bit a k = bit a 47" using b [of k] by (simp only: min_def not_less if_True)
      then show False using c k by simp
    qed
    then have "take_bit 47 a = a" by (intro bit_word_eqI) (auto simp: bit_take_bit_iff)
    then have "unat a = take_bit 47 (unat a)" by (metis unsigned_take_bit_eq)
    then have "unat a < 2 ^ 47" by (metis take_bit_nat_less_exp)
    then show False using a(2) by simp
  qed
  then show ?thesis using a(1) True x high_bit_set by (simp add: x86_laws_def)
next
  case False
  then have "drop_bit 47 a = 1" and b: "b = sign_extend48 a"
    using a(1) x by (auto simp: x86_laws_def split: if_splits)
  then have "bit (drop_bit 47 a) 0" by simp
  then have "bit a 47" by (simp add: bit_drop_bit_eq)
  then have "bit b 63" unfolding b by (simp add: bit_sign_extend48)
  then show ?thesis by (rule high_bit_set)
qed

lemma for_each_upt_Inr:
  assumes "for_each [lo..<hi] body s = Inr s'" and "lo \<le> hi" and "P lo s"
    and "\<And>i s s'. lo \<le> i \<Longrightarrow> i < hi \<Longrightarrow> P i s \<Longrightarrow> body i s = Inr s' \<Longrightarrow> P (Suc i) s'"
  shows "P hi s'"
  using assms(2,1,3,4)
proof (induction "hi - lo" arbitrary: lo s)
  case 0
  then show ?case by simp
next
  case (Suc n)
  have lt: "lo < hi" using Suc.hyps(2) by simp
  then obtain s1 where s1: "body lo s = Inr s1" "for_each [Suc lo..<hi] body s1 = Inr s'"
    using Suc.prems(2) by (cases "body lo s") (simp_all add: upt_conv_Cons)
  have "P (Suc lo) s1" using Suc.prems(4) [OF _ lt Suc.prems(3) s1(1)] by simp
  then show ?case using Suc.hyps lt s1(2) Suc.prems(4) by (intro Suc.hyps(1) [of "Suc lo" s1]) auto
qed

definition pages_of :: "u8 list \<Rightarrow> nat \<Rightarrow> bool \<Rightarrow> nat \<Rightarrow> page_image set" where
  "pages_of bs n0 w n = (\<lambda>i. (page_numbered (n0 + i), segment_page bs i, w)) ` {..<n}"

lemma load_pages:
  assumes laws: "mapper_laws p good tables" "x86_laws (x86 p)" and inv: "loading p good tables l4 L m"
    and flags: "flags_contain flags (PRESENT OR USER_ACCESSIBLE)" and n0: "n0 < 2 ^ 35"
    and room: "length (global_avail (snd m)) < 2 ^ 35"
    and loop: "for_each [0..<n] (load_page p l4 bs flags (page_numbered n0)) m = Inr m'"
  shows "loading p good tables l4 (L \<union> pages_of bs n0 (flags_contain flags WRITABLE) n) m'
    \<and> length (global_avail (snd m')) + n \<le> length (global_avail (snd m))"
proof (rule for_each_upt_Inr [OF loop])
  fix i s s' assume P: "loading p good tables l4 (L \<union> pages_of bs n0 (flags_contain flags WRITABLE) i) s
    \<and> length (global_avail (snd s)) + i \<le> length (global_avail (snd m))"
    and call: "load_page p l4 bs flags (page_numbered n0) i s = Inr s'"
  have i: "i < 2 ^ 35" using P room by linarith
  then have "unat (of_nat i :: u64) = i" by (intro unat_of_nat_u64) simp
  then have "page_add (x86 p) (page_numbered n0) (of_nat i) = Inr (page_numbered (n0 + i))"
    using laws(2) n0 i canonical_numbered [of n0] page_number_numbered [of n0] unfolding x86_laws_def by auto
  from load_page_loads [OF laws conjunct1 [OF P] flags _ this is_page_numbered call] i
  show "loading p good tables l4 (L \<union> pages_of bs n0 (flags_contain flags WRITABLE) (Suc i)) s'
    \<and> length (global_avail (snd s')) + Suc i \<le> length (global_avail (snd m))"
    using P by (simp add: pages_of_def lessThan_Suc)
qed (use inv in \<open>simp_all add: pages_of_def\<close>)

definition segment_pages :: "segment \<Rightarrow> page_image set" where
  "segment_pages = (\<lambda>(bs, v, n, w). pages_of bs (unat v div 4096) w ((unat n + 4095) div 4096))"

text \<open>What a segment must satisfy to be mapped: page aligned, and below the canonical boundary.\<close>

definition segment_ok :: "segment \<Rightarrow> bool" where
  "segment_ok = (\<lambda>(bs, v, n, w). n \<noteq> 0 \<longrightarrow> unat v mod 4096 = 0 \<and> unat v + unat n \<le> 2 ^ 47)"

lemma segment_flags:
  "flags_contain (if w then (PRESENT OR USER_ACCESSIBLE) OR WRITABLE else PRESENT OR USER_ACCESSIBLE) (PRESENT OR USER_ACCESSIBLE)"
  "flags_contain (if w then (PRESENT OR USER_ACCESSIBLE) OR WRITABLE else PRESENT OR USER_ACCESSIBLE) WRITABLE = w"
  by (simp_all add: flags_contain_def)

lemma page_count_eq:
  assumes "v mod 4096 = 0" and "0 < n"
  shows "(v + n - 1) div 4096 * 4096 - v = ((n + 4095) div 4096 - 1) * (4096 :: nat)"
proof -
  obtain c where c: "v = 4096 * c" using assms(1) by (auto simp: mod_eq_0_iff_dvd)
  have "(v + n - 1) div 4096 = c + (n - 1) div 4096"
    using assms(2) unfolding c by (simp add: Nat.add_diff_assoc)
  moreover have "(n + 4095) div 4096 = (n - 1) div 4096 + 1" using assms(2) by (cases n) simp_all
  ultimately show ?thesis unfolding c by (simp add: algebra_simps)
qed

lemma map_segment_loads:
  assumes laws: "mapper_laws p good tables" "x86_laws (x86 p)" and inv: "loading p good tables l4 L m"
    and room: "length (global_avail (snd m)) < 2 ^ 35"
    and call: "map_segment p l4 bs v n w m = Inr (Some (), m')"
  shows "loading p good tables l4 (L \<union> segment_pages (bs, v, n, w)) m' \<and> segment_ok (bs, v, n, w)
    \<and> length (global_avail (snd m')) + (unat n + 4095) div 4096 \<le> length (global_avail (snd m))"
proof (cases "n = 0")
  case True
  then show ?thesis using call inv by (simp add: map_segment_def segment_pages_def segment_ok_def pages_of_def)
next
  case False
  then have n: "0 < unat n" by (simp add: unat_gt_0)
  define flags where "flags = (if w then (PRESENT OR USER_ACCESSIBLE) OR WRITABLE else PRESENT OR USER_ACCESSIBLE)"
  have v: "v mod PAGE_SIZE = 0" "v < 0x0000800000000000"
    using call False by (auto simp: map_segment_def not_le split: if_splits)
  have vl: "unat v < 2 ^ 47" using v(2) by (simp add: word_less_nat_alt)
  have va: "unat v mod 4096 = 0" using v(1) by (simp add: PAGE_SIZE_def word_unat_eq_iff unat_word_ariths)
  have "virt_try_new (x86 p) v = Some v" using laws(2) lower_half [OF vl] by (simp add: x86_laws_def)
  with call False v have c: "try_opt (checked_add v n) m (\<lambda>segment_end.
        try_opt (checked_sub segment_end 1) m (\<lambda>last_byte.
        try_opt (virt_try_new (x86 p) last_byte) m (\<lambda>end_addr.
        bind_result (page_sub (x86 p) (page_containing (x86 p) end_addr) (page_containing (x86 p) v)) (\<lambda>pages.
        bind_result (add_ovf pages 1) (\<lambda>page_count.
        bind_result (for_each [0..<unat page_count] (load_page p l4 bs flags (page_containing (x86 p) v)) m) (\<lambda>m.
        Inr (Some (), m))))))) = Inr (Some (), m')"
    unfolding map_segment_def flags_def [symmetric] by (simp add: Let_def not_le [symmetric])
  then obtain e where e: "checked_add v n = Some e" by (auto elim: try_opt_SomeE)
  with c obtain l where l: "checked_sub e 1 = Some l" by (auto elim: try_opt_SomeE)
  with c e obtain ea where ea: "virt_try_new (x86 p) l = Some ea" by (auto elim: try_opt_SomeE)
  have ul: "unat l = unat v + unat n - 1" using e l by (simp add: checked_add_Some_iff checked_sub_Some_iff)
  have pv: "page_containing (x86 p) v = page_numbered (unat v div 4096)" "unat (page_containing (x86 p) v) = unat v"
    using page_containing_numbered [OF laws(2)] lower_half [OF vl] page_containing_unat [OF laws(2), of v] va by auto
  let ?ep = "page_containing (x86 p) ea"
  have uep: "unat ?ep = unat ea div 4096 * 4096" by (rule page_containing_unat [OF laws(2)])
  have ge: "unat v \<le> unat ?ep \<and> (2 ^ 47 \<le> unat l \<longrightarrow> 2 ^ 62 \<le> unat ?ep) \<and> (unat l < 2 ^ 47 \<longrightarrow> ea = l)"
  proof (cases "unat l < 2 ^ 47")
    case True
    then have "ea = l" using ea laws(2) lower_half [of l] by (simp add: x86_laws_def)
    moreover have "unat v div 4096 * 4096 \<le> unat l div 4096 * 4096" using ul n by (intro mult_le_mono1 div_le_mono) simp
    moreover have "unat v div 4096 * 4096 = unat v" using va div_mult_mod_eq [of "unat v" 4096] by linarith
    ultimately show ?thesis using uep True by simp
  next
    case False
    then have "2 ^ 63 \<le> unat ea" using try_new_high [OF laws(2) ea] by simp
    then have "2 ^ 63 \<le> unat ea div 4096 * 4096 + 4095" using page_remainder [of "unat ea"] by linarith
    then show ?thesis using uep vl False by simp
  qed
  then have ps: "page_sub (x86 p) ?ep (page_containing (x86 p) v) = Inr ((?ep - page_containing (x86 p) v) div 4096)"
    using laws(2) pv(2) unfolding x86_laws_def by (simp add: word_le_nat_alt)
  let ?n = "(?ep - page_containing (x86 p) v) div 4096"
  have un: "unat ?n = (unat ?ep - unat v) div 4096"
    using ge pv(2) by (simp add: unat_div unat_sub word_le_nat_alt)
  then have "unat ?n + unat (1 :: u64) < 2 ^ LENGTH(64)" using unat_u64_less [of ?ep] by (simp add: less_Suc_eq_le)
  then have ao: "add_ovf ?n 1 = Inr (?n + 1)" "unat (?n + 1) = unat ?n + 1"
    using add_ovf_no_overflow [of ?n 1] by (simp_all add: add_ovf_Inr_iff)
  have loop: "for_each [0..<unat ?n + 1] (load_page p l4 bs flags (page_numbered (unat v div 4096))) m = Inr m'"
    using c e l ea ps ao pv(1) by (cases "for_each [0..<unat ?n + 1] (load_page p l4 bs flags (page_numbered (unat v div 4096))) m") simp_all
  have "unat v div 4096 < 2 ^ 35" using vl by simp
  from load_pages [OF laws inv segment_flags(1) [of w, folded flags_def] this room loop]
  have r: "loading p good tables l4 (L \<union> pages_of bs (unat v div 4096) w (unat ?n + 1)) m'"
      "length (global_avail (snd m')) + (unat ?n + 1) \<le> length (global_avail (snd m))"
    using segment_flags(2) [of w, folded flags_def] by simp_all
  have low: "unat l < 2 ^ 47"
  proof (rule ccontr)
    assume "\<not> unat l < 2 ^ 47"
    then have "2 ^ 62 \<le> unat ?ep" using ge by simp
    then have "2 ^ 40 \<le> unat ?n" using un vl by simp
    then show False using r(2) room by simp
  qed
  have "0 < (unat n + 4095) div 4096" using n by (simp add: div_greater_zero_iff)
  then have "unat ?n + 1 = (unat n + 4095) div 4096"
    using un uep ge low ul page_count_eq [OF va n] n by simp
  moreover have "unat v + unat n \<le> 2 ^ 47" using low ul n by linarith
  ultimately show ?thesis using r va by (simp add: segment_pages_def segment_ok_def)
qed

lemma map_segments_loads:
  assumes laws: "mapper_laws p good tables" "x86_laws (x86 p)"
    and "loading p good tables l4 L m" and "length (global_avail (snd m)) < 2 ^ 35"
    and "map_segments p l4 segs m = Inr (Some (), m')"
  shows "loading p good tables l4 (L \<union> \<Union> (segment_pages ` set segs)) m' \<and> (\<forall>s\<in>set segs. segment_ok s)
    \<and> length (global_avail (snd m')) \<le> length (global_avail (snd m))"
  using assms(3-)
proof (induction segs arbitrary: L m)
  case Nil
  then show ?case by simp
next
  case (Cons s segs)
  obtain bs v n w where s: "s = (bs, v, n, w)" by (cases s)
  obtain m1 where m1: "map_segment p l4 bs v n w m = Inr (Some (), m1)" "map_segments p l4 segs m1 = Inr (Some (), m')"
    using Cons.prems(3) unfolding s by (auto elim: try_call_SomeE)
  note one = map_segment_loads [OF laws Cons.prems(1,2) m1(1)]
  then have "length (global_avail (snd m1)) < 2 ^ 35" using Cons.prems(2) by linarith
  from Cons.IH [OF conjunct1 [OF one] this m1(2)] one show ?case
    unfolding s [symmetric] by (simp add: Un_assoc)
qed

text \<open>The byte a user program reads at an address.\<close>

definition user_byte :: "('h, 'd) platform \<Rightarrow> pmem \<Rightarrow> phys_frame \<Rightarrow> u64 \<Rightarrow> u8 option" where
  "user_byte p pm l4 a =
     map_option (\<lambda>f. pm f (unat (take_bit 12 a))) (translate_page p pm l4 (page_containing (x86 p) a))"

text \<open>A segment is in place: its bytes, zeros after them, and its permissions.\<close>

definition segment_in_place :: "('h, 'd) platform \<Rightarrow> pmem \<Rightarrow> phys_frame \<Rightarrow> segment \<Rightarrow> bool" where
  "segment_in_place p pm l4 = (\<lambda>(bs, v, n, w). \<forall>j < unat n.
     user_byte p pm l4 (v + of_nat j) = Some (if j < length bs then bs ! j else 0)
     \<and> page_accessible (x86 p) pm l4 (page_containing (x86 p) (v + of_nat j)) False
     \<and> page_accessible (x86 p) pm l4 (page_containing (x86 p) (v + of_nat j)) True = w)"

lemma pages_in_place:
  assumes x: "x86_laws (x86 p)" and inv: "loading p good tables l4 L m" and L: "segment_pages s \<subseteq> L" and ok: "segment_ok s"
  shows "segment_in_place p (fst m) l4 s"
proof -
  obtain bs v n w where s: "s = (bs, v, n, w)" by (cases s)
  have "user_byte p (fst m) l4 (v + of_nat j) = Some (if j < length bs then bs ! j else 0)
     \<and> page_accessible (x86 p) (fst m) l4 (page_containing (x86 p) (v + of_nat j)) False
     \<and> page_accessible (x86 p) (fst m) l4 (page_containing (x86 p) (v + of_nat j)) True = w" if j: "j < unat n" for j
  proof -
    have v: "unat v mod 4096 = 0" "unat v + unat n \<le> 2 ^ 47" using ok j by (auto simp: s segment_ok_def)
    have "unat (of_nat j :: u64) = j" using j v(2) by (intro unat_of_nat_u64) simp
    then have a: "unat (v + of_nat j) = unat v + j" using j v(2) by (simp add: unat_word_ariths)
    have h: "canonical (v + of_nat j)" "page_number (v + of_nat j) = unat (v + of_nat j) div 4096"
      using lower_half [of "v + of_nat j"] a j v(2) by auto
    have "unat (v + of_nat j) div 4096 = unat v div 4096 + j div 4096" unfolding a using v(1) by (simp add: div_add1_eq)
    then have pg: "page_containing (x86 p) (v + of_nat j) = page_numbered (unat v div 4096 + j div 4096)"
      using page_containing_numbered [OF x h(1)] h(2) by simp
    have "(unat v + j) mod 4096 = j mod 4096" using v(1) by (metis add_0 mod_add_left_eq)
    then have "take_bit 12 (unat (v + of_nat j)) = j mod 4096" unfolding a by (simp add: take_bit_eq_mod)
    then have off: "unat (take_bit 12 (v + of_nat j)) = j mod 4096" by (metis unsigned_take_bit_eq)
    have "j div 4096 < (unat n + 4095) div 4096" using j by linarith
    then have "(page_numbered (unat v div 4096 + j div 4096), segment_page bs (j div 4096), w) \<in> segment_pages s"
      by (auto simp: s segment_pages_def pages_of_def)
    then have "page_loaded p tables l4 m (page_numbered (unat v div 4096 + j div 4096), segment_page bs (j div 4096), w)"
      using L inv by (auto simp: loading_def)
    moreover have "segment_page bs (j div 4096) (j mod 4096) = (if j < length bs then bs ! j else 0)"
      by (simp add: segment_page_def)
    ultimately show ?thesis using pg off by (auto simp: page_loaded_def user_byte_def)
  qed
  then show ?thesis by (simp add: s segment_in_place_def)
qed

section \<open>The whole load\<close>

lemma new_space_loading:
  assumes laws: "mapper_laws p good tables" "x86_laws (x86 p)" and inv: "loading p good tables active {} m"
    and active: "active \<in> tables (fst m) active"
    and new: "new_address_space (x86 p) (global_allocate_frame (x86 p)) offset active (fst m) (snd m) = Inr (l4, m')"
  shows "loading p good tables l4 {} m' \<and> length (global_avail (snd m')) < length (global_avail (snd m))"
proof -
  have inv': "good (fst m) active" "global_ok (snd m)" "distinct (global_avail (snd m))"
      "tables (fst m) active \<inter> set (global_avail (snd m)) = {}"
    using inv by (auto simp: loading_def)
  obtain f fs where av: "global_avail (snd m) = f # fs"
    using new global_frames.alloc_none [OF conjI [OF laws(2) inv'(2)]]
    by (cases "global_avail (snd m)") (simp_all add: new_address_space_def)
  have ne: "active \<noteq> f" using active inv'(4) av by auto
  have l4: "l4 = f" and m': "global_ok (snd m')" "global_avail (snd m') = fs"
      and e: "\<forall>i < 512. read_entry (fst m') f i = (if i = 0 \<or> i = p_index (x86 p) 4 offset then read_entry (fst m) active i else 0)"
      and o: "\<forall>frame. frame \<noteq> f \<longrightarrow> fst m' frame = fst m frame"
    using new_address_space_table [OF laws(2) inv'(2) av ne, of offset "fst m"] new by auto
  have "fst m' g = fst m g" if "g \<in> tables (fst m) active" for g using o inv'(4) av that by auto
  then have g: "good (fst m') active" "tables (fst m') active = tables (fst m) active"
    using mapper_local [OF laws(1) inv'(1)] by blast+
  have "read_entry (fst m') active i = read_entry (fst m) active i" for i using o ne by (simp add: read_entry_def)
  then have "read_entry (fst m') l4 i = 0 \<or> read_entry (fst m') l4 i = read_entry (fst m') active i" if "i < 512" for i
    using e l4 that by auto
  moreover have "l4 \<notin> tables (fst m') active" using g(2) inv'(4) av l4 by auto
  ultimately have "good (fst m') l4" "tables (fst m') l4 \<subseteq> insert l4 (tables (fst m') active)"
    using mapper_fresh [OF laws(1) g(1)] by blast+
  then show ?thesis using g(2) inv'(3,4) av l4 m' by (auto simp: loading_def)
qed

lemma align_up_page:
  assumes "align_up a PAGE_SIZE = Inr (Some b)"
  shows "unat b = (unat a + 4095) div 4096 * 4096"
proof -
  have "sub_ovf PAGE_SIZE 1 = Inr (4095 :: u64)" by (simp add: sub_ovf_Inr_iff PAGE_SIZE_def)
  then obtain c where c: "checked_add a 4095 = Some c" "b = c AND NOT 4095" using assms by (auto simp: align_up_def)
  have m: "(4095 :: u64) = mask 12" by (simp add: mask_numeral)
  have "c AND NOT 4095 = push_bit 12 (drop_bit 12 c)"
    unfolding m by (rule bit_word_eqI) (auto simp: bit_and_iff bit_not_iff bit_push_bit_iff bit_drop_bit_eq bit_mask_iff)
  moreover have "unat c = unat a + 4095" using c(1) by (simp add: checked_add_Some_iff)
  ultimately show ?thesis using page_down [of c] c(2) by simp
qed

lemma load_segments_and_stackE:
  assumes "load_segments_and_stack p bytes l4 args m = Inr (Some (start, stack_top, args_ptr, args_len), m')"
  obtains e phoff phentsize phnum h m1 aligned stack_bottom m2 sp
  where "read_u64 bytes 0 24 = Some e" "read_u64 bytes 0 32 = Some phoff" "read_u16 bytes 0 54 = Some phentsize"
    "read_u16 bytes 0 56 = Some phnum" "load_headers p bytes l4 phoff (ucast phentsize) [0..<unat phnum] 0 m = Inr (Some h, m1)"
    "align_up h PAGE_SIZE = Inr (Some aligned)" "checked_add aligned PAGE_SIZE = Some stack_bottom"
    "map_segment p l4 [] stack_bottom USER_STACK_SIZE True m1 = Inr (Some (), m2)"
    "checked_add stack_bottom USER_STACK_SIZE = Some (stack_bottom + USER_STACK_SIZE)"
    "checked_sub (stack_bottom + USER_STACK_SIZE) 16 = Some sp" "virt_try_new (x86 p) sp = Some stack_top"
    "virt_try_new (x86 p) e = Some start"
    "map_segment p l4 args (stack_bottom + USER_STACK_SIZE) ARGS_SIZE False m2 = Inr (Some (), m')"
    "virt_try_new (x86 p) (stack_bottom + USER_STACK_SIZE) = Some args_ptr" "args_len = of_nat (length args)"
proof -
  obtain e phoff phentsize phnum h m1 where a: "read_u64 bytes 0 24 = Some e" "read_u64 bytes 0 32 = Some phoff"
      "read_u16 bytes 0 54 = Some phentsize" "read_u16 bytes 0 56 = Some phnum"
      "load_headers p bytes l4 phoff (ucast phentsize) [0..<unat phnum] 0 m = Inr (Some h, m1)"
    using assms unfolding load_segments_and_stack_def by (elim try_opt_SomeE try_call_SomeE) blast
  obtain al where al: "align_up h PAGE_SIZE = Inr al" by (auto simp: align_up_def sub_ovf_def checked_sub_def PAGE_SIZE_def)
  have "try_opt al m1 (\<lambda>aligned.
     try_opt (checked_add aligned PAGE_SIZE) m1 (\<lambda>stack_bottom.
     try_call (map_segment p l4 [] stack_bottom USER_STACK_SIZE True m1) (\<lambda>_ m.
     try_opt (checked_add stack_bottom USER_STACK_SIZE) m (\<lambda>stack_end.
     try_opt (checked_sub stack_end 16) m (\<lambda>sp.
     try_opt (virt_try_new (x86 p) sp) m (\<lambda>stack_top.
     try_opt (virt_try_new (x86 p) e) m (\<lambda>start.
     try_opt (checked_add stack_bottom USER_STACK_SIZE) m (\<lambda>args_bottom.
     try_call (map_segment p l4 args args_bottom ARGS_SIZE False m) (\<lambda>_ m.
     try_opt (virt_try_new (x86 p) args_bottom) m (\<lambda>args_ptr.
     Inr (Some (start, stack_top, args_ptr, of_nat (length args)), m)))))))))))
     = Inr (Some (start, stack_top, args_ptr, args_len), m')"
    using assms unfolding load_segments_and_stack_def a try_opt_simps try_call_simps al bind_result_simps .
  then obtain aligned stack_bottom m2 stack_end sp where b: "al = Some aligned" "checked_add aligned PAGE_SIZE = Some stack_bottom"
      "map_segment p l4 [] stack_bottom USER_STACK_SIZE True m1 = Inr (Some (), m2)"
      "checked_add stack_bottom USER_STACK_SIZE = Some stack_end" "checked_sub stack_end 16 = Some sp"
      "virt_try_new (x86 p) sp = Some stack_top" "virt_try_new (x86 p) e = Some start"
      "map_segment p l4 args stack_end ARGS_SIZE False m2 = Inr (Some (), m')"
      "virt_try_new (x86 p) stack_end = Some args_ptr" "args_len = of_nat (length args)"
    by (elim try_opt_SomeE try_call_SomeE) simp
  have "stack_end = stack_bottom + USER_STACK_SIZE" using b(4) by (simp add: checked_add_def split: if_splits)
  then show ?thesis using that a al b by blast
qed

lemma highest_end: "h0 \<le> fold (\<lambda>s. max (segment_end s)) segs h0"
  "s \<in> set segs \<Longrightarrow> segment_end s \<le> fold (\<lambda>s. max (segment_end s)) segs h0"
proof (induction segs arbitrary: h0)
  case (Cons t segs)
  { case 1 show ?case using Cons.IH(1) [of "max (segment_end t) h0"] by simp }
  case 2
  then show ?case using Cons.IH(1) [of "max (segment_end t) h0"] Cons.IH(2) [of "max (segment_end t) h0"] by auto
qed simp_all

lemma loadE:
  assumes "load p bytes offset args active m = Inr (Some (l4, elf), m')"
  obtains m0 start stack_top args_ptr args_len where "header_ok bytes"
    "new_address_space (x86 p) (global_allocate_frame (x86 p)) offset active (fst m) (snd m) = Inr (l4, m0)"
    "load_segments_and_stack p bytes l4 args m0 = Inr (Some (start, stack_top, args_ptr, args_len), m')"
    "elf = \<lparr>elf_page_table = l4, elf_entry = start, elf_stack_top = stack_top, elf_args_ptr = args_ptr, elf_args_len = args_len\<rparr>"
proof -
  have h: "header_ok bytes" using assms by (auto simp: load_def split: if_splits)
  obtain l m0 where n: "new_address_space (x86 p) (global_allocate_frame (x86 p)) offset active (fst m) (snd m) = Inr (l, m0)"
    using assms h by (cases "new_address_space (x86 p) (global_allocate_frame (x86 p)) offset active (fst m) (snd m)") (auto simp: load_def)
  obtain r m1 where r: "load_segments_and_stack p bytes l args m0 = Inr (r, m1)"
    using assms h n by (cases "load_segments_and_stack p bytes l args m0") (auto simp: load_def)
  obtain a b c d where "r = Some (a, b, c, d)"
    using assms h n r by (cases r) (auto simp: load_def bind_result_Inr_iff)
  then show ?thesis using that h n r assms by (auto simp: load_def)
qed

text \<open>
  C19. A loaded program is what its file says. When \<open>load\<close> succeeds, the file has a valid header and
  a program header table; in the new address space every loadable segment is at its address with
  its bytes, zeros after them and exactly its permissions; the stack is one writable page of zeros
  that starts at least a page above the end of every segment; the arguments are in a read-only
  page right above it; and entry point, stack top and argument pointer are the ones returned. The
  allocator has less than 128 TiB of frames.
\<close>

theorem load_program_image:
  assumes laws: "mapper_laws p good tables" "x86_laws (x86 p)"
    and m: "good (fst m) active" "global_ok (snd m)" "distinct (global_avail (snd m))"
      "tables (fst m) active \<inter> set (global_avail (snd m)) = {}" "active \<in> tables (fst m) active"
      "length (global_avail (snd m)) < 2 ^ 35"
    and call: "load p bytes offset args active m = Inr (Some (l4, elf), m')"
  shows "header_ok bytes \<and> elf_page_table elf = l4 \<and> (\<exists>segs e stack_bottom.
      elf_segments bytes = Some segs \<and> read_u64 bytes 0 24 = Some e \<and> virt_try_new (x86 p) e = Some (elf_entry elf)
    \<and> elf_stack_top elf = stack_bottom + 4080 \<and> elf_args_ptr elf = stack_bottom + 4096 \<and> elf_args_len elf = of_nat (length args)
    \<and> (\<forall>s \<in> set (segs @ [([], stack_bottom, 4096, True), (args, stack_bottom + 4096, 4096, False)]).
         segment_in_place p (fst m') l4 s)
    \<and> (\<forall>s \<in> set segs. segment_ok s \<and> unat (segment_end s) + 4096 \<le> unat stack_bottom)
    \<and> unat stack_bottom mod 4096 = 0 \<and> unat stack_bottom + 8192 \<le> 2 ^ 47)"
proof -
  obtain m0 start stack_top args_ptr args_len where l: "header_ok bytes"
    "new_address_space (x86 p) (global_allocate_frame (x86 p)) offset active (fst m) (snd m) = Inr (l4, m0)"
    "load_segments_and_stack p bytes l4 args m0 = Inr (Some (start, stack_top, args_ptr, args_len), m')"
    "elf = \<lparr>elf_page_table = l4, elf_entry = start, elf_stack_top = stack_top, elf_args_ptr = args_ptr, elf_args_len = args_len\<rparr>"
    by (rule loadE [OF call])
  have "loading p good tables active {} m" using m by (simp add: loading_def)
  note m0 = new_space_loading [OF laws this m(5) l(2)]
  obtain e phoff phentsize phnum h m1 aligned sb m2 sp where s: "read_u64 bytes 0 24 = Some e" "read_u64 bytes 0 32 = Some phoff"
    "read_u16 bytes 0 54 = Some phentsize" "read_u16 bytes 0 56 = Some phnum"
    "load_headers p bytes l4 phoff (ucast phentsize) [0..<unat phnum] 0 m0 = Inr (Some h, m1)"
    "align_up h PAGE_SIZE = Inr (Some aligned)" "checked_add aligned PAGE_SIZE = Some sb"
    "map_segment p l4 [] sb USER_STACK_SIZE True m1 = Inr (Some (), m2)"
    "checked_add sb USER_STACK_SIZE = Some (sb + USER_STACK_SIZE)"
    "checked_sub (sb + USER_STACK_SIZE) 16 = Some sp" "virt_try_new (x86 p) sp = Some stack_top"
    "virt_try_new (x86 p) e = Some start"
    "map_segment p l4 args (sb + USER_STACK_SIZE) ARGS_SIZE False m2 = Inr (Some (), m')"
    "virt_try_new (x86 p) (sb + USER_STACK_SIZE) = Some args_ptr" "args_len = of_nat (length args)"
    by (rule load_segments_and_stackE [OF l(3)])
  obtain segs where segs: "parse_headers bytes phoff (ucast phentsize) [0..<unat phnum] = Some segs"
      "map_segments p l4 segs m0 = Inr (Some (), m1)" "h = fold (\<lambda>s. max (segment_end s)) segs 0"
    using load_headers_segments [OF s(5)] by blast
  have r0: "length (global_avail (snd m0)) < 2 ^ 35" using m0 m(6) by linarith
  note L1 = map_segments_loads [OF laws conjunct1 [OF m0] r0 segs(2)]
  have r1: "length (global_avail (snd m1)) < 2 ^ 35" using L1 r0 by linarith
  note L2 = map_segment_loads [OF laws conjunct1 [OF L1] r1 s(8)]
  have r2: "length (global_avail (snd m2)) < 2 ^ 35" using L2 r1 by linarith
  note L3 = map_segment_loads [OF laws conjunct1 [OF L2] r2 s(13)]
  have sizes: "USER_STACK_SIZE = 4096" "ARGS_SIZE = 4096" by (simp_all add: size_consts)
  have sb: "unat sb mod 4096 = 0" "unat (sb + 4096) + 4096 \<le> 2 ^ 47" "unat (sb + 4096) = unat sb + 4096"
    using L2 L3 s(9) by (simp_all add: segment_ok_def sizes checked_add_Some_iff)
  have sp: "sp = sb + 4080" using s(10) by (auto simp: checked_sub_def sizes add.commute split: if_splits)
  have usp: "unat sp = unat sb + 4080" using s(10) sb(3) by (simp add: checked_sub_Some_iff sizes)
  have top: "stack_top = sb + 4080" "args_ptr = sb + 4096"
    using s(11,14) laws(2) lower_half [of sp] lower_half [of "sb + 4096"] usp sb sp by (auto simp: x86_laws_def sizes)
  have aligned: "unat aligned + 4096 = unat sb" using s(7) by (simp add: checked_add_Some_iff PAGE_SIZE_def)
  have ends: "unat (segment_end t) + 4096 \<le> unat sb" if "t \<in> set segs" for t
  proof -
    have "unat (segment_end t) \<le> unat h" using highest_end(2) [OF that, of 0] segs(3) by (simp add: word_le_nat_alt)
    moreover have "unat h \<le> (unat h + 4095) div 4096 * 4096" using page_remainder [of "unat h + 4095"] by linarith
    ultimately show ?thesis using align_up_page [OF s(6)] aligned by linarith
  qed
  have inplace: "segment_in_place p (fst m') l4 t"
    if "t \<in> set (segs @ [([], sb, 4096, True), (args, sb + 4096, 4096, False)])" for t
    using that L1 L2 L3 by (intro pages_in_place [OF laws(2) conjunct1 [OF L3]]) (auto simp: sizes)
  have "elf_segments bytes = Some segs" using s(2-4) segs(1) by (simp add: elf_segments_def)
  then show ?thesis
    using l(1,4) s(1,12,15) top inplace ends L1 sb by (intro conjI exI [of _ segs] exI [of _ e] exI [of _ sb]) auto
qed

section \<open>Files that panic the kernel\<close>

lemma map_segment_not_None:
  assumes x: "x86_laws (x86 p)" and ok: "segment_ok (bs, v, n, w)" and n: "n \<noteq> 0"
  shows "map_segment p l4 bs v n w m \<noteq> Inr (None, m')"
proof -
  have v: "unat v mod 4096 = 0" "unat v + unat n \<le> 2 ^ 47" using ok n by (auto simp: segment_ok_def)
  have n0: "0 < unat n" using n by (simp add: unat_gt_0)
  have al: "v mod PAGE_SIZE = 0" "\<not> 0x0000800000000000 \<le> v"
    using v n0 by (auto simp: PAGE_SIZE_def word_unat_eq_iff unat_word_ariths word_le_nat_alt)
  have e: "checked_add v n = Some (v + n)" using v(2) by (simp add: checked_add_def)
  then have ue: "unat (v + n) = unat v + unat n" by (simp add: checked_add_Some_iff)
  then have l: "checked_sub (v + n) 1 = Some (v + n - 1)" using n0 by (simp add: checked_sub_def word_le_nat_alt)
  then have "unat (v + n - 1) < 2 ^ 47" using ue v(2) by (simp add: checked_sub_Some_iff)
  then have "virt_try_new (x86 p) (v + n - 1) = Some (v + n - 1)" "virt_try_new (x86 p) v = Some v"
    using x lower_half [of "v + n - 1"] lower_half [of v] v(2) n0 by (auto simp: x86_laws_def)
  then show ?thesis using al e l n by (auto simp: map_segment_def Let_def bind_result_Inr_iff)
qed

lemma map_segment_too_big:
  assumes laws: "mapper_laws p good tables" "x86_laws (x86 p)" and inv: "loading p good tables l4 L m"
    and room: "length (global_avail (snd m)) < 2 ^ 35" and seg: "segment_ok (bs, v, n, w)"
    and big: "length (global_avail (snd m)) < (unat n + 4095) div 4096"
  shows "\<exists>e. map_segment p l4 bs v n w m = Inl e"
proof (cases "map_segment p l4 bs v n w m")
  case (Inr r)
  obtain s m' where r: "r = (s, m')" by (cases r)
  have "n \<noteq> 0" using big by (cases "n = 0") simp_all
  then have "s \<noteq> None" using map_segment_not_None [OF laws(2) seg, of l4 m m'] Inr r by (cases s) simp_all
  then have "map_segment p l4 bs v n w m = Inr (Some (), m')" using Inr r by auto
  from map_segment_loads [OF laws inv room this] big show ?thesis by linarith
qed simp

text \<open>
  C20. A file can panic the kernel. When the first program header of a file with a valid header is a
  well-formed loadable segment that takes more pages of memory than there are free frames, \<open>load\<close>
  does not return: neither a program nor \<open>None\<close>. The file itself may be tiny, since only the size
  in memory matters.
\<close>

theorem oversized_segment_panics:
  assumes laws: "mapper_laws p good tables" "x86_laws (x86 p)"
    and m: "good (fst m) active" "global_ok (snd m)" "distinct (global_avail (snd m))"
      "tables (fst m) active \<inter> set (global_avail (snd m)) = {}" "active \<in> tables (fst m) active"
      "length (global_avail (snd m)) < 2 ^ 35"
    and h: "header_ok bytes" "read_u64 bytes 0 32 = Some phoff" "read_u16 bytes 0 54 = Some phentsize"
      "read_u16 bytes 0 56 = Some phnum" "0 < phnum"
    and seg: "parse_header bytes phoff (ucast phentsize) 0 = Some (Some (bs, v, n, w))" "segment_ok (bs, v, n, w)"
    and big: "length (global_avail (snd m)) < (unat n + 4095) div 4096"
  shows "\<not> returns (load p bytes offset args active m)"
proof (cases "new_address_space (x86 p) (global_allocate_frame (x86 p)) offset active (fst m) (snd m)")
  case (Inl e)
  then show ?thesis using h(1) by (simp add: load_def)
next
  case (Inr r)
  obtain l4 m0 where r: "r = (l4, m0)" by (cases r)
  have "loading p good tables active {} m" using m by (simp add: loading_def)
  note m0 = new_space_loading [OF laws this m(5) Inr [unfolded r]]
  obtain e where e: "map_segment p l4 bs v n w m0 = Inl e"
    using map_segment_too_big [OF laws conjunct1 [OF m0] _ seg(2)] m0 m(6) big by force
  have "[0..<unat phnum] = 0 # [1..<unat phnum]" using h(5) by (simp add: upt_conv_Cons unat_gt_0)
  then have lh: "load_headers p bytes l4 phoff (ucast phentsize) [0..<unat phnum] 0 m0 = Inl e"
    using seg(1) e by (simp add: load_segment_parse)
  have "\<exists>x. read_u64 bytes 0 24 = Some x"
    using h(1) by (simp add: header_ok_def read_u64_def field_def checked_add_def get_range_def)
  then obtain x where "read_u64 bytes 0 24 = Some x" ..
  then have "load_segments_and_stack p bytes l4 args m0 = Inl e"
    unfolding load_segments_and_stack_def by (simp add: h lh)
  then show ?thesis using Inr r h(1) by (simp add: load_def)
qed

end
