(* ===== verification/User_Memory.thy ===== *)
theory User_Memory
  imports Syscall Elf_Props
begin

text \<open>
  The memory of the caller of a system call: the check of a user's range as a condition on the bytes
  of the range, for every pointer a program can pass, and what the copies to and from user memory do.

  \<open>user_space\<close> states what the kernel keeps true of the address space of a running program: user
  pages are in the lower half, and a page that a program can write is neither a page table of its
  own space nor at two addresses.
\<close>

section \<open>Walks of the page tables\<close>

fun walked :: "x86_api \<Rightarrow> pmem \<Rightarrow> virt_addr \<Rightarrow> nat list \<Rightarrow> phys_frame \<Rightarrow> phys_frame set" where
  "walked x pm a [] frame = {}"
| "walked x pm a (level # levels) frame = insert frame
     (case entry_frame x (read_entry pm frame (p_index x level a)) of
        Inr child \<Rightarrow> walked x pm a levels child
      | Inl _ \<Rightarrow> {})"

lemma walk_cong:
  assumes "\<And>f. f \<in> walked x pm a levels frame \<Longrightarrow> pm' f = pm f"
  shows "walked x pm' a levels frame = walked x pm a levels frame
    \<and> translate_levels x pm' a levels frame = translate_levels x pm a levels frame
    \<and> accessible_levels x pm' a required levels frame = accessible_levels x pm a required levels frame"
  using assms
proof (induction levels arbitrary: frame)
  case (Cons l levels)
  have e: "read_entry pm' frame i = read_entry pm frame i" for i
    using Cons.prems [of frame] by (simp add: read_entry_def)
  have "walked x pm' a levels c = walked x pm a levels c
      \<and> translate_levels x pm' a levels c = translate_levels x pm a levels c
      \<and> accessible_levels x pm' a required levels c = accessible_levels x pm a required levels c"
    if "entry_frame x (read_entry pm frame (p_index x l a)) = Inr c" for c
    by (rule Cons.IH) (use that Cons.prems in simp)
  then show ?case
    by (auto simp: e Let_def split: sum.splits frame_error.splits)
qed simp

lemma walk_same_page:
  assumes "\<And>l. l \<in> set levels \<Longrightarrow> p_index x l b = p_index x l a"
  shows "walked x pm b levels frame = walked x pm a levels frame
    \<and> translate_levels x pm b levels frame = translate_levels x pm a levels frame
    \<and> accessible_levels x pm b required levels frame = accessible_levels x pm a required levels frame"
  using assms by (induction levels arbitrary: frame) (auto simp: Let_def split: sum.splits frame_error.splits)

lemma p_index_page:
  assumes x: "x86_laws x" and l: "l \<in> {1, 2, 3, 4}"
  shows "p_index x l (page_containing x a) = p_index x l a"
proof -
  have b: "bit (push_bit 12 (drop_bit 12 a)) k \<longleftrightarrow> 12 \<le> k \<and> bit a k" for k
    using bit_imp_le_length [of a k] by (auto simp: bit_push_bit_iff bit_drop_bit_eq)
  have "take_bit 9 (drop_bit n (push_bit 12 (drop_bit 12 a))) = take_bit 9 (drop_bit n a)" if "12 \<le> n" for n
    by (rule bit_word_eqI) (use that in \<open>simp add: bit_take_bit_iff bit_drop_bit_eq b\<close>)
  moreover have "page_containing x a = push_bit 12 (drop_bit 12 a)" using x by (simp add: x86_laws_def)
  ultimately show ?thesis unfolding x86_p_index [OF x l] by simp
qed

section \<open>The address space of the caller\<close>

definition page_at :: "('h, 'd) platform \<Rightarrow> ('h, 'd) kernel \<Rightarrow> u64 \<Rightarrow> bool \<Rightarrow> bool" where
  "page_at p k a w \<longleftrightarrow> page_accessible (x86 p) (memory k) (cr3 (cpu_regs k)) (page_containing (x86 p) a) w"

text \<open>Where a byte of virtual memory is, and its value.\<close>

definition frame_of :: "('h, 'd) platform \<Rightarrow> ('h, 'd) kernel \<Rightarrow> u64 \<Rightarrow> phys_frame option" where
  "frame_of p k a = (case translate_levels (x86 p) (memory k) a [4, 3, 2, 1] (cr3 (cpu_regs k)) of
     Inr f \<Rightarrow> f | Inl _ \<Rightarrow> None)"

definition byte_at :: "('h, 'd) platform \<Rightarrow> ('h, 'd) kernel \<Rightarrow> u64 \<Rightarrow> u8" where
  "byte_at p k a = memory k (the (frame_of p k a)) (unat (take_bit 12 a))"

definition bytes_at :: "('h, 'd) platform \<Rightarrow> ('h, 'd) kernel \<Rightarrow> u64 \<Rightarrow> nat \<Rightarrow> u8 list" where
  "bytes_at p k ptr n = map (\<lambda>i. byte_at p k (ptr + of_nat i)) [0..<n]"

definition user_space :: "('h, 'd) platform \<Rightarrow> ('h, 'd) kernel \<Rightarrow> bool" where
  "user_space p k \<longleftrightarrow>
     (\<forall>a. canonical a \<and> page_at p k a False \<longrightarrow> unat a < 2 ^ 47)
   \<and> (\<forall>a b f. page_at p k a True \<and> frame_of p k a = Some f
        \<longrightarrow> f \<notin> walked (x86 p) (memory k) b [4, 3, 2, 1] (cr3 (cpu_regs k)))
   \<and> (\<forall>a b. unat a < 2 ^ 47 \<and> unat b < 2 ^ 47 \<and> page_at p k a True \<and> page_at p k b False
        \<and> frame_of p k a = frame_of p k b \<longrightarrow> page_containing (x86 p) a = page_containing (x86 p) b)"

text \<open>A range that the kernel may touch for its caller.\<close>

definition user_range :: "('h, 'd) platform \<Rightarrow> ('h, 'd) kernel \<Rightarrow> u64 \<Rightarrow> nat \<Rightarrow> bool \<Rightarrow> bool" where
  "user_range p k ptr n w \<longleftrightarrow> ptr \<noteq> 0 \<and> virt_try_new (x86 p) ptr \<noteq> None
     \<and> (\<forall>i < n. unat ptr + i < 2 ^ 47 \<and> page_at p k (ptr + of_nat i) w)"

lemma accessible_mono:
  assumes "\<And>fl. flags_contain fl r \<Longrightarrow> flags_contain fl r'"
  shows "accessible_levels x pm a r levels frame \<Longrightarrow> accessible_levels x pm a r' levels frame"
  using assms by (induction levels arbitrary: frame) (auto simp: Let_def split: if_splits sum.splits frame_error.splits)

lemma page_at_weaken: "page_at p k a w \<Longrightarrow> page_at p k a False"
proof -
  have "flags_contain fl 5" if "flags_contain fl 7" for fl :: u64
  proof -
    have "fl AND 5 = (fl AND 7) AND 5" by (simp add: and.assoc)
    then show ?thesis using that by (simp add: flags_contain_def)
  qed
  then show "page_at p k a w \<Longrightarrow> page_at p k a False"
    using accessible_mono [of 7 5] by (cases w) (auto simp: page_at_def page_accessible_def Let_def simp del: accessible_levels.simps)
qed

lemma unat_not: "unat (NOT a) = 2 ^ 64 - 1 - unat (a :: u64)"
proof -
  have "NOT a = - 1 - a" by (simp add: not_eq_complement)
  moreover have "unat (- 1 - a) = unat (- 1 :: u64) - unat a" by (rule unat_sub) (simp add: word_order.extremum)
  moreover have "unat (- 1 :: u64) = 2 ^ 64 - 1" by (simp add: unsigned_minus_1_eq_mask mask_eq_exp_minus_1)
  ultimately show ?thesis by simp
qed

text \<open>The canonical addresses are those of the lower and the upper half.\<close>

lemma canonical_upper:
  fixes a :: u64
  assumes "2 ^ 64 - 2 ^ 47 \<le> unat a"
  shows "canonical a"
proof -
  have "unat (NOT a) < 2 ^ 47" using assms unat_u64_less [of a] by (simp add: unat_not)
  then have "\<not> bit (NOT a) k" if "47 \<le> k" for k using high_bits_zero [OF _ that] by blast
  then have b: "bit a k" if "47 \<le> k" "k < 64" for k using that by (simp add: bit_not_iff)
  have "bit a k = bit a (min 47 k)" if "k < 64" for k
    using b [of k] b [of 47] that by (cases "47 \<le> k") simp_all
  then show ?thesis unfolding canonical_iff by blast
qed

lemma canonical_high:
  fixes a :: u64
  assumes "canonical a" and "2 ^ 47 \<le> unat a"
  shows "2 ^ 64 - 2 ^ 47 \<le> unat a"
proof -
  have b: "bit a k = bit a 47" if "47 \<le> k" "k < 64" for k
    using assms(1) [unfolded canonical_iff, rule_format, OF that(2)] that(1) by simp
  have small: "unat c < 2 ^ 47" if "\<And>k. bit c k \<Longrightarrow> k < 47" for c :: u64
  proof -
    have "bit (take_bit 47 c) k = bit c k" for k using that [of k] by (auto simp: bit_take_bit_iff)
    then have "take_bit 47 c = c" by (intro bit_word_eqI)
    moreover have "unat (take_bit 47 c) = take_bit 47 (unat c)" by (rule unsigned_take_bit_eq)
    ultimately show ?thesis using take_bit_nat_less_exp [of 47 "unat c"] by simp
  qed
  have "bit a 47"
  proof (rule ccontr)
    assume "\<not> bit a 47"
    then have "bit a k \<Longrightarrow> k < 47" for k using b [of k] bit_imp_le_length [of a k] by (cases "47 \<le> k") simp_all
    then show False using small [of a] assms(2) by simp
  qed
  then have "bit (NOT a) k \<Longrightarrow> k < 47" for k
    using b [of k] bit_imp_le_length [of "NOT a" k] by (cases "47 \<le> k") (simp_all add: bit_not_iff)
  then have "unat (NOT a) < 2 ^ 47" by (rule small)
  then show ?thesis using unat_u64_less [of a] by (simp add: unat_not)
qed

lemma user_space_low:
  assumes "user_space p k" and "canonical a" and "page_at p k a w"
  shows "unat a < 2 ^ 47"
  using assms page_at_weaken unfolding user_space_def by blast

lemma range_bytes:
  fixes ptr :: u64
  assumes "0 < n" and "unat ptr + n \<le> 2 ^ 47"
  shows "(\<forall>c. ptr \<le> c \<and> c \<le> ptr + (of_nat n - 1) \<longrightarrow> P c) \<longleftrightarrow> (\<forall>i < n. P (ptr + of_nat i))"
proof -
  have u: "unat (of_nat i :: u64) = i" if "i \<le> n" for i using that assms by (intro unat_of_nat_u64) simp
  have a: "unat (ptr + of_nat i) = unat ptr + i" if "i \<le> n" for i
    using u [OF that] that assms(2) by (simp add: unat_word_ariths)
  have "(of_nat n :: u64) - 1 = of_nat (n - 1)" using assms(1) by (simp add: of_nat_diff)
  then have l: "unat (ptr + (of_nat n - 1)) = unat ptr + (n - 1)" using a [of "n - 1"] by simp
  show ?thesis
  proof (intro iffI allI impI)
    fix i assume "\<forall>c. ptr \<le> c \<and> c \<le> ptr + (of_nat n - 1) \<longrightarrow> P c" and "i < n"
    then show "P (ptr + of_nat i)" using a [of i] l by (auto simp: word_le_nat_alt)
  next
    fix c assume h: "\<forall>i < n. P (ptr + of_nat i)" and c: "ptr \<le> c \<and> c \<le> ptr + (of_nat n - 1)"
    then have i: "unat c - unat ptr < n" "unat ptr \<le> unat c" using l assms(1) by (auto simp: word_le_nat_alt)
    then have "ptr + of_nat (unat c - unat ptr) = c" using a [of "unat c - unat ptr"] by (simp add: word_unat_eq_iff)
    then show "P c" using h i(1) by metis
  qed
qed

lemma user_range_low:
  assumes x: "x86_laws x" and n: "0 < n" and low: "unat ptr + n \<le> 2 ^ 47"
  shows "user_range_mapped x pm l4 ptr (of_nat n) w
    = Some (Inr (\<forall>i < n. page_accessible x pm l4 (page_containing x (ptr + of_nat i)) w))"
proof -
  have n64: "n < 2 ^ 64" using low by simp
  then have un: "unat (of_nat n :: u64) = n" by (rule unat_of_nat_u64)
  let ?last = "ptr + (of_nat n - 1)"
  have l1: "unat (of_nat n - 1 :: u64) = n - 1"
    using n un n64 unat_of_nat_u64 [of "n - 1"] by (simp add: of_nat_diff)
  then have l: "unat ?last = unat ptr + (n - 1)" using low by (simp add: unat_word_ariths)
  have last: "unat ?last < 2 ^ 47" using l n low by simp
  have c: "canonical ptr \<and> page_number ptr = unat ptr div 4096" using n low by (intro lower_half) simp
  have cl: "canonical ?last \<and> page_number ?last = unat ?last div 4096" by (rule lower_half [OF last])
  have "(of_nat n :: u64) \<noteq> 0" using un n by (metis unat_0 less_irrefl)
  moreover have "checked_add ptr (of_nat n - 1) = Some ?last" unfolding checked_add_Some_iff using l l1 by simp
  moreover have le: "ptr \<le> ?last" using l by (simp add: word_le_nat_alt)
  ultimately have "user_range_mapped x pm l4 ptr (of_nat n) w
      = Some (Inr (\<forall>m \<in> {page_number ptr..page_number ?last}. page_accessible x pm l4 (page_numbered m) w))"
    using c cl virt_new_canonical [OF x]
    by (intro user_range_mapped_canonical [OF x]) (auto simp: word_le_nat_alt div_le_mono)
  then show ?thesis
    unfolding pages_of_range [OF x le last, where P = "\<lambda>q. page_accessible x pm l4 q w"] range_bytes [OF n low] .
qed

text \<open>A range that leaves the lower half is refused, since no page above it is accessible to users.\<close>

lemma user_range_crossing:
  assumes x: "x86_laws x" and n: "n \<le> 1024" and ptr: "unat ptr < 2 ^ 47" "2 ^ 47 < unat ptr + n"
    and high: "\<And>a. canonical a \<Longrightarrow> 2 ^ 47 \<le> unat a \<Longrightarrow> \<not> page_accessible x pm l4 (page_containing x a) w"
  shows "user_range_mapped x pm l4 ptr (of_nat n) w = Some (Inr False)"
proof -
  have pos: "0 < n" using ptr by (cases n) auto
  have un: "unat (of_nat n :: u64) = n" using n by (intro unat_of_nat_u64) simp
  define last_byte where "last_byte = ptr + (of_nat n - 1)"
  have l1: "unat (of_nat n - 1 :: u64) = n - 1"
    using pos n unat_of_nat_u64 [of "n - 1"] by (simp add: of_nat_diff)
  then have l: "unat last_byte = unat ptr + (n - 1)" unfolding last_byte_def using ptr(1) n by (simp add: unat_word_ariths)
  then have range: "2 ^ 47 \<le> unat last_byte" "unat last_byte < 2 ^ 47 + 1024" using ptr n by simp_all
  have nc: "\<not> canonical last_byte" using canonical_high [of last_byte] range by auto
  have "unat last_byte div 2 ^ 47 = 1" using range by (intro div_nat_eqI) simp_all
  moreover have "unat (drop_bit 47 last_byte) = unat last_byte div 2 ^ 47"
    using unat_drop_bit_eq [of 47 last_byte] by (simp only: drop_bit_eq_div)
  ultimately have "unat (drop_bit 47 last_byte) = 1" by simp
  then have "drop_bit 47 last_byte = 1" by (simp add: word_unat_eq_iff)
  then have vn: "virt_try_new x last_byte = Some (sign_extend48 last_byte)" using x nc by (simp add: x86_laws_def)
  have "unat last_byte div 2 ^ 12 = 2 ^ 35" using range by (intro div_nat_eqI) simp_all
  moreover have "unat (take_bit 36 (drop_bit 12 last_byte)) = take_bit 36 (unat (drop_bit 12 last_byte))"
    by (rule unsigned_take_bit_eq)
  moreover have "unat (drop_bit 12 last_byte) = unat last_byte div 2 ^ 12"
    using unat_drop_bit_eq [of 12 last_byte] by (simp only: drop_bit_eq_div)
  ultimately have pl: "page_number (sign_extend48 last_byte) = 2 ^ 35"
    unfolding page_number_sign_extend48 by (simp add: page_number_def take_bit_nat_eq_self)
  have c: "canonical ptr \<and> page_number ptr = unat ptr div 4096" using ptr(1) by (rule lower_half)
  have "(of_nat n :: u64) \<noteq> 0" using un pos by (metis unat_0 less_irrefl)
  moreover have "checked_add ptr (of_nat n - 1) = Some last_byte" unfolding checked_add_Some_iff using l l1 by simp
  ultimately have "user_range_mapped x pm l4 ptr (of_nat n) w = Some (Inr (\<forall>m \<in> {page_number ptr..2 ^ 35}.
      page_accessible x pm l4 (page_numbered m) w))"
    using user_range_mapped_canonical [OF x conjunct1 [OF c], of "of_nat n" last_byte "sign_extend48 last_byte"]
      vn canonical_sign_extend48 pl c ptr(1) by (simp add: virt_new_def)
  moreover have "2 ^ 47 \<le> unat (sign_extend48 last_byte)" using try_new_high [OF x vn range(1)] by simp
  then have "\<not> page_accessible x pm l4 (page_numbered (2 ^ 35)) w"
    using high [OF canonical_sign_extend48, of last_byte]
    unfolding page_containing_numbered [OF x canonical_sign_extend48] pl by blast
  moreover have "page_number ptr \<le> 2 ^ 35" using c ptr(1) by simp
  ultimately show ?thesis by auto
qed

lemma user_range_high:
  assumes x: "x86_laws x" and addr: "canonical addr" "2 ^ 47 \<le> unat addr" and len: "len \<noteq> 0"
    and high: "\<not> page_accessible x pm l4 (page_containing x addr) w"
  shows "user_range_mapped x pm l4 addr len w = Some (Inr False)"
proof (cases "checked_add addr (len - 1)")
  case (Some last_byte)
  then have "unat addr + unat (len - 1) = unat last_byte" by (simp add: checked_add_Some_iff)
  then have "canonical last_byte" using canonical_high [OF addr] by (intro canonical_upper) simp
  then show ?thesis
    using Some len high virt_new_canonical [OF x] user_range_loop.simps [of x pm l4 w _ "page_containing x addr"]
    by (simp add: user_range_mapped_def)
qed (use len in \<open>simp add: user_range_mapped_def\<close>)

lemma user_range_ok_eq:
  assumes x: "x86_laws (x86 p)" and us: "user_space p k" and off: "physical_memory_offset k = Some off" and n: "n \<le> 1024"
  shows "user_range_ok p ptr n w k = give (user_range p k ptr n w) k"
proof (cases "virt_try_new (x86 p) ptr")
  case None
  then show ?thesis by (simp add: user_range_ok_def user_range_def)
next
  case (Some addr)
  have ok: "user_range_ok p ptr n w k = (if ptr = 0 then give False k
      else map_option (\<lambda>r. bind_result r (\<lambda>ok. Inr (Back ok, k)))
        (user_range_mapped (x86 p) (memory k) (cr3 (cpu_regs k)) addr (of_nat n) w))"
    using Some off by (simp add: user_range_ok_def)
  have high: "\<not> page_accessible (x86 p) (memory k) (cr3 (cpu_regs k)) (page_containing (x86 p) a) w"
    if "canonical a" "2 ^ 47 \<le> unat a" for a
    using user_space_low [OF us that(1)] that(2) unfolding page_at_def by (metis not_le)
  have un: "unat (of_nat n :: u64) = n" using n by (intro unat_of_nat_u64) simp
  consider "n = 0" | "0 < n" "unat ptr + n \<le> 2 ^ 47" | "0 < n" "unat ptr < 2 ^ 47" "2 ^ 47 < unat ptr + n"
    | "0 < n" "2 ^ 47 \<le> unat ptr" by linarith
  then show ?thesis
  proof cases
    case 1
    then show ?thesis using ok Some by (simp add: user_range_mapped_def user_range_def give_def)
  next
    case 2
    have "canonical ptr" using lower_half [of ptr] 2 by simp
    then have "addr = ptr" using Some x by (simp add: x86_laws_def)
    then show ?thesis
      using ok user_range_low [OF x 2] Some 2 by (auto simp: user_range_def give_def page_at_def)
  next
    case 3
    have "canonical ptr" using lower_half [OF 3(2)] by simp
    then have "addr = ptr" using Some x by (simp add: x86_laws_def)
    moreover have "n - 1 < n" "\<not> unat ptr + (n - 1) < 2 ^ 47" using 3 by simp_all
    then have "\<not> user_range p k ptr n w" unfolding user_range_def by blast
    ultimately show ?thesis
      using ok user_range_crossing [OF x n 3(2,3) high] by (simp add: give_def)
  next
    case 4
    have "canonical addr" using Some x canonical_sign_extend48 by (auto simp: x86_laws_def split: if_splits)
    moreover have "2 ^ 47 \<le> unat addr" using try_new_high [OF x Some 4(2)] by simp
    moreover have "(of_nat n :: u64) \<noteq> 0" using un 4 by (metis unat_0 less_irrefl)
    ultimately have "user_range_mapped (x86 p) (memory k) (cr3 (cpu_regs k)) addr (of_nat n) w = Some (Inr False)"
      by (intro user_range_high [OF x _ _ _ high])
    moreover have "\<not> user_range p k ptr n w" using 4 by (auto simp: user_range_def)
    ultimately show ?thesis using ok by (simp add: give_def)
  qed
qed

section \<open>Copies\<close>

lemma page_walk:
  assumes x: "x86_laws x"
  shows "translate_levels x pm (page_containing x a) [4, 3, 2, 1] l4 = translate_levels x pm a [4, 3, 2, 1] l4"
    and "accessible_levels x pm (page_containing x a) r [4, 3, 2, 1] l4 = accessible_levels x pm a r [4, 3, 2, 1] l4"
proof -
  have "p_index x l (page_containing x a) = p_index x l a" if "l \<in> set [4, 3, 2, 1]" for l
    using that p_index_page [OF x, of l a] by auto
  from walk_same_page [OF this, where pm = pm and frame = l4 and required = r]
  show "translate_levels x pm (page_containing x a) [4, 3, 2, 1] l4 = translate_levels x pm a [4, 3, 2, 1] l4"
    and "accessible_levels x pm (page_containing x a) r [4, 3, 2, 1] l4 = accessible_levels x pm a r [4, 3, 2, 1] l4" by blast+
qed

lemma page_at_frame:
  assumes x: "x86_laws (x86 p)" and a: "page_at p k a w"
  obtains f where "frame_of p k a = Some f" "virt_frame p k a = Inr f"
proof -
  obtain f where "translate_levels (x86 p) (memory k) (page_containing (x86 p) a) [4, 3, 2, 1] (cr3 (cpu_regs k)) = Inr (Some f)"
    using a accessible_translates unfolding page_at_def page_accessible_def Let_def by blast
  then have "translate_levels (x86 p) (memory k) a [4, 3, 2, 1] (cr3 (cpu_regs k)) = Inr (Some f)"
    unfolding page_walk(1) [OF x] .
  then show ?thesis using that unfolding frame_of_def virt_frame_def by simp
qed

lemma load_bytes_at:
  assumes x: "x86_laws (x86 p)" and r: "user_range p k ptr n w"
  shows "load_bytes p k ptr n = Inr (bytes_at p k ptr n)"
proof -
  have "\<exists>bs. for_each [0..<n] (\<lambda>i bs. bind_result (load_byte p k (ptr + of_nat i)) (\<lambda>b. Inr (bs @ [b]))) [] = Inr bs
      \<and> bs = bytes_at p k ptr n"
  proof (rule for_each_upt)
    fix i :: nat and bs assume i: "i < n" and bs: "bs = bytes_at p k ptr i"
    have "page_at p k (ptr + of_nat i) w" using r i by (simp add: user_range_def)
    then obtain f where "frame_of p k (ptr + of_nat i) = Some f" "virt_frame p k (ptr + of_nat i) = Inr f"
      by (rule page_at_frame [OF x])
    then show "\<exists>bs'. bind_result (load_byte p k (ptr + of_nat i)) (\<lambda>b. Inr (bs @ [b])) = Inr bs' \<and> bs' = bytes_at p k ptr (Suc i)"
      using bs by (simp add: load_byte_def bytes_at_def byte_at_def)
  qed (simp_all add: bytes_at_def)
  then show ?thesis by (simp add: load_bytes_def)
qed

text \<open>Two states with the same address space: the same tables for every address.\<close>

definition same_space :: "('h, 'd) platform \<Rightarrow> ('h, 'd) kernel \<Rightarrow> ('h, 'd) kernel \<Rightarrow> bool" where
  "same_space p k k' \<longleftrightarrow> (\<forall>a. frame_of p k' a = frame_of p k a \<and> (\<forall>w. page_at p k' a w = page_at p k a w)
     \<and> walked (x86 p) (memory k') a [4, 3, 2, 1] (cr3 (cpu_regs k'))
       = walked (x86 p) (memory k) a [4, 3, 2, 1] (cr3 (cpu_regs k)))"

lemma same_space_refl: "same_space p k k"
  by (simp add: same_space_def)

lemma same_space_trans: "same_space p k k' \<Longrightarrow> same_space p k' k'' \<Longrightarrow> same_space p k k''"
  by (simp add: same_space_def del: walked.simps)

lemma user_space_same: "same_space p k k' \<Longrightarrow> user_space p k \<Longrightarrow> user_space p k'"
  by (simp add: same_space_def user_space_def del: walked.simps)

lemma user_range_same: "same_space p k k' \<Longrightarrow> user_range p k' ptr n w = user_range p k ptr n w"
  by (simp add: same_space_def user_range_def del: walked.simps)

lemma byte_address:
  assumes x: "x86_laws x" and "page_containing x a = page_containing x b" and "unat (take_bit 12 a) = unat (take_bit 12 b)"
  shows "a = b"
proof -
  have "push_bit 12 (drop_bit 12 a) = push_bit 12 (drop_bit 12 b)" using assms(1,2) by (simp add: x86_laws_def)
  moreover have "take_bit 12 a = take_bit 12 b" using assms(3) by (simp add: word_unat_eq_iff)
  ultimately show ?thesis by (metis bits_ident)
qed

lemma store_byte_at:
  assumes x: "x86_laws (x86 p)" and us: "user_space p k" and a: "unat a < 2 ^ 47" "page_at p k a True"
  obtains pm where "store_byte p a b k = Inr (k\<lparr>memory := pm\<rparr>)" "same_space p k (k\<lparr>memory := pm\<rparr>)"
    "byte_at p (k\<lparr>memory := pm\<rparr>) a = b"
    "\<And>c. unat c < 2 ^ 47 \<Longrightarrow> page_at p k c False \<Longrightarrow> c \<noteq> a \<Longrightarrow> byte_at p (k\<lparr>memory := pm\<rparr>) c = byte_at p k c"
proof -
  obtain f where f: "frame_of p k a = Some f" "virt_frame p k a = Inr f" by (rule page_at_frame [OF x a(2)])
  define pm where "pm = (memory k)(f := (memory k f)(unat (take_bit 12 a) := b))"
  let ?k = "k\<lparr>memory := pm\<rparr>"
  have priv: "f \<notin> walked (x86 p) (memory k) c [4, 3, 2, 1] (cr3 (cpu_regs k))" for c
    using us a(2) f(1) unfolding user_space_def by blast
  have w: "walked (x86 p) pm c [4, 3, 2, 1] (cr3 (cpu_regs k)) = walked (x86 p) (memory k) c [4, 3, 2, 1] (cr3 (cpu_regs k))
      \<and> translate_levels (x86 p) pm c [4, 3, 2, 1] (cr3 (cpu_regs k)) = translate_levels (x86 p) (memory k) c [4, 3, 2, 1] (cr3 (cpu_regs k))
      \<and> accessible_levels (x86 p) pm c r [4, 3, 2, 1] (cr3 (cpu_regs k)) = accessible_levels (x86 p) (memory k) c r [4, 3, 2, 1] (cr3 (cpu_regs k))" for c r
    by (rule walk_cong) (use priv [of c] in \<open>auto simp: pm_def simp del: walked.simps\<close>)
  have same: "same_space p k ?k"
    unfolding same_space_def frame_of_def page_at_def page_accessible_def Let_def by (simp add: w del: One_nat_def walked.simps translate_levels.simps accessible_levels.simps)
  have fo: "frame_of p ?k c = frame_of p k c" for c using same by (simp add: same_space_def)
  have "byte_at p ?k a = b" using f(1) unfolding byte_at_def fo by (simp add: pm_def)
  moreover have "byte_at p ?k c = byte_at p k c" if c: "unat c < 2 ^ 47" "page_at p k c False" "c \<noteq> a" for c
  proof -
    obtain g where g: "frame_of p k c = Some g" by (rule page_at_frame [OF x c(2)])
    have "page_containing (x86 p) a = page_containing (x86 p) c" if "g = f"
      using us a c f(1) g that unfolding user_space_def by metis
    then have "g \<noteq> f \<or> unat (take_bit 12 c) \<noteq> unat (take_bit 12 a)" using byte_address [OF x, of a c] c(3) by auto
    then show ?thesis using g unfolding byte_at_def fo by (auto simp: pm_def)
  qed
  moreover have "store_byte p a b k = Inr ?k" using f(2) by (simp add: store_byte_def pm_def)
  ultimately show ?thesis using that same by blast
qed

lemma store_bytes_at:
  assumes x: "x86_laws (x86 p)" and us: "user_space p k" and r: "user_range p k ptr (length bs) True"
  obtains pm where "store_bytes p ptr bs k = Inr (k\<lparr>memory := pm\<rparr>)" "same_space p k (k\<lparr>memory := pm\<rparr>)"
    "bytes_at p (k\<lparr>memory := pm\<rparr>) ptr (length bs) = bs"
    "\<And>c. unat c < 2 ^ 47 \<Longrightarrow> page_at p k c False \<Longrightarrow> (\<forall>i < length bs. c \<noteq> ptr + of_nat i)
       \<Longrightarrow> byte_at p (k\<lparr>memory := pm\<rparr>) c = byte_at p k c"
proof -
  define inv where "inv i k' \<longleftrightarrow> (\<exists>pm. k' = k\<lparr>memory := pm\<rparr>) \<and> same_space p k k'
      \<and> (\<forall>j < i. byte_at p k' (ptr + of_nat j) = bs ! j)
      \<and> (\<forall>c. unat c < 2 ^ 47 \<and> page_at p k c False \<and> (\<forall>j < i. c \<noteq> ptr + of_nat j) \<longrightarrow> byte_at p k' c = byte_at p k c)" for i k'
  have addr: "unat (ptr + of_nat j) = unat ptr + j" if "j < length bs" for j
  proof -
    have "unat ptr + j < 2 ^ 47" using r that by (simp add: user_range_def)
    moreover from this have "unat (of_nat j :: u64) = j" by (intro unat_of_nat_u64) simp
    ultimately show ?thesis by (simp add: unat_word_ariths)
  qed
  have "\<exists>k'. for_each [0..<length bs] (\<lambda>i. store_byte p (ptr + of_nat i) (bs ! i)) k = Inr k' \<and> inv (length bs) k'"
  proof (rule for_each_upt)
    show "inv 0 k" unfolding inv_def using same_space_refl by (auto intro: exI [of _ "memory k"])
  next
    fix i k' assume i: "i < length bs" and k': "inv i k'"
    then obtain pm where pm: "k' = k\<lparr>memory := pm\<rparr>" and same: "same_space p k k'" by (auto simp: inv_def)
    let ?a = "ptr + of_nat i"
    have a: "unat ?a < 2 ^ 47" "page_at p k ?a True" using r i addr [OF i] by (simp_all add: user_range_def)
    have same_at: "page_at p k' c w = page_at p k c w" for c w using same by (simp add: same_space_def)
    have at: "page_at p k' ?a True" using a(2) same_at by simp
    obtain pm' where pm': "store_byte p ?a (bs ! i) k' = Inr (k'\<lparr>memory := pm'\<rparr>)" "same_space p k' (k'\<lparr>memory := pm'\<rparr>)"
        "byte_at p (k'\<lparr>memory := pm'\<rparr>) ?a = bs ! i"
        "\<And>c. unat c < 2 ^ 47 \<Longrightarrow> page_at p k' c False \<Longrightarrow> c \<noteq> ?a \<Longrightarrow> byte_at p (k'\<lparr>memory := pm'\<rparr>) c = byte_at p k' c"
      by (rule store_byte_at [OF x user_space_same [OF same us] a(1) at, where b = "bs ! i"]) blast
    have "byte_at p (k'\<lparr>memory := pm'\<rparr>) (ptr + of_nat j) = bs ! j" if j: "j < Suc i" for j
    proof (cases "j = i")
      case False
      then have j': "j < i" "j < length bs" using j i by simp_all
      have "ptr + of_nat j \<noteq> ?a" using addr [OF j'(2)] addr [OF i] j'(1) by (metis add_left_cancel nat_neq_iff)
      moreover have "unat (ptr + of_nat j) < 2 ^ 47" "page_at p k' (ptr + of_nat j) False"
        using r j'(2) addr page_at_weaken [of p k "ptr + of_nat j" True] same_at by (simp_all add: user_range_def)
      ultimately have "byte_at p (k'\<lparr>memory := pm'\<rparr>) (ptr + of_nat j) = byte_at p k' (ptr + of_nat j)" by (intro pm'(4))
      then show ?thesis using k' j' by (simp add: inv_def)
    qed (use pm'(3) in simp)
    moreover have "byte_at p (k'\<lparr>memory := pm'\<rparr>) c = byte_at p k c"
      if c: "unat c < 2 ^ 47" "page_at p k c False" "\<forall>j < Suc i. c \<noteq> ptr + of_nat j" for c
    proof -
      have "byte_at p (k'\<lparr>memory := pm'\<rparr>) c = byte_at p k' c" using c same_at by (intro pm'(4)) auto
      then show ?thesis using k' c by (auto simp: inv_def)
    qed
    moreover have "k'\<lparr>memory := pm'\<rparr> = k\<lparr>memory := pm'\<rparr>" using pm by simp
    ultimately have "inv (Suc i) (k'\<lparr>memory := pm'\<rparr>)"
      unfolding inv_def using same_space_trans [OF same pm'(2)] by blast
    then show "\<exists>k''. store_byte p ?a (bs ! i) k' = Inr k'' \<and> inv (Suc i) k''" using pm'(1) by blast
  qed simp
  then obtain pm where pm: "store_bytes p ptr bs k = Inr (k\<lparr>memory := pm\<rparr>)" and inv: "inv (length bs) (k\<lparr>memory := pm\<rparr>)"
    unfolding store_bytes_def inv_def by blast
  have "bytes_at p (k\<lparr>memory := pm\<rparr>) ptr (length bs) = bs"
    by (rule nth_equalityI) (use inv in \<open>simp_all add: bytes_at_def inv_def\<close>)
  then show ?thesis using that [OF pm] inv unfolding inv_def by blast
qed

end
