(* ===== verification/Syscall_Props.thy ===== *)
theory Syscall_Props
  imports User_Memory
begin

text \<open>
  The outcome of the system calls, for every argument a program can pass: the value given back and
  the change of the kernel's state, or the end of the calling thread.
\<close>

section \<open>The kernel at a system call\<close>

text \<open>
  What holds when a program traps into the kernel: the scheduler's invariant, a caller that is not
  the boot thread, the address space of a program, a pending zombie that can be freed, and the
  well-formed screen and input queue.
\<close>

definition syscall_ready :: "('h, 'd) platform \<Rightarrow> ('h, 'd) kernel \<Rightarrow> bool" where
  "syscall_ready p k \<longleftrightarrow> x86_laws (x86 p) \<and> kernel_ok (x86 p) k \<and> user_space p k \<and> reapable p k
     \<and> physical_memory_offset k \<noteq> None \<and> writer_ok (screen k) \<and> input_queue_ok (input k)
     \<and> (case scheduler k of None \<Rightarrow> False | Some st \<Rightarrow> current st \<noteq> 0)"

text \<open>The calling thread has ended: it left the rotation and is the pending zombie.\<close>

definition caller_gone :: "('h, 'd) platform \<Rightarrow> ('h, 'd) kernel \<Rightarrow> ('h, 'd) kernel \<Rightarrow> bool" where
  "caller_gone p k k' \<longleftrightarrow> kernel_ok (x86 p) k' \<and> memory k' = memory k \<and> input k' = input k
     \<and> (\<exists>st st'. scheduler k = Some st \<and> scheduler k' = Some st' \<and> rotation st' = tl (rotation st)
          \<and> zombie st' = Some (current st))"

lemma reap_io:
  assumes "reap_zombie p k = Inr k'"
  shows "input k' = input k \<and> screen k' = screen k"
proof -
  have f: "input k2 = input k1 \<and> screen k2 = screen k1" if "free_thread p t k1 = Inr k2" for t k1 k2
    using that by (auto simp: free_thread_def bind_result_Inr_iff Let_def split: option.splits)
  show ?thesis
    using assms by (auto simp: reap_zombie_def reap_take_def bind_result_Inr_iff sched_simps split: option.splits if_splits dest!: f)
qed

lemma switch_io:
  "switch_threads p ret were i j st k = Inr k' \<Longrightarrow> input k' = input k \<and> screen k' = screen k"
  by (auto simp: switch_threads_def bind_result_Inr_iff Let_def restore_interrupts_def case_prod_beta split: if_splits)

lemma exit_io:
  assumes "exit_current_thread p k = Inr k'"
  shows "input k' = input k \<and> screen k' = screen k"
proof -
  obtain k1 where "reap_zombie p k = Inr k1" "exit_switch p k1 = Inr k'"
    using assms by (auto simp: exit_current_thread_def bind_result_Inr_iff)
  then show ?thesis using reap_io [of p k k1] 
    by (auto simp: exit_switch_def bind_result_Inr_iff Let_def disable_def split: if_splits dest!: switch_io)
qed

lemma schedule_io:
  assumes "schedule p k = Inr k'"
  shows "input k' = input k \<and> screen k' = screen k"
proof -
  obtain k1 where "reap_zombie p k = Inr k1" "schedule_switch p k1 = Inr k'"
    using assms by (auto simp: schedule_def bind_result_Inr_iff)
  then show ?thesis using reap_io [of p k k1]
    by (auto simp: schedule_switch_def bind_result_Inr_iff Let_def restore_interrupts_def disable_def
      split: if_splits option.splits dest!: switch_io)
qed

lemma syscall_readyD:
  assumes "syscall_ready p k"
  shows "x86_laws (x86 p)" "kernel_ok (x86 p) k" "user_space p k" "reapable p k" "writer_ok (screen k)" "input_queue_ok (input k)"
    and "\<exists>off. physical_memory_offset k = Some off" "\<exists>st. scheduler k = Some st \<and> sched_ok (x86 p) st \<and> current st \<noteq> 0"
  using assms by (auto simp: syscall_ready_def kernel_ok_def split: option.splits)

lemma exit_gone:
  assumes "syscall_ready p k"
  shows "\<exists>k'. exit_current_thread p k = Inr k' \<and> caller_gone p k k'"
proof -
  obtain st where st: "scheduler k = Some st" "sched_ok (x86 p) st" "current st \<noteq> 0" using syscall_readyD(8) [OF assms] by blast
  obtain k1 k' st' where k': "reap_zombie p k = Inr k1" "exit_current_thread p k = Inr k'" "scheduler k' = Some st'"
      "sched_ok (x86 p) st'" "rotation st' = tl (rotation st)" "zombie st' = Some (current st)" "memory k' = memory k1"
    using exit_leaves [OF st(1,2) syscall_readyD(4) [OF assms] st(3)] by blast
  moreover have "memory k1 = memory k" using reap_returns [OF st(1,2) syscall_readyD(4) [OF assms]] k'(1) by auto
  ultimately show ?thesis using st(1) exit_io [of p k k'] by (auto simp: caller_gone_def kernel_ok_def)
qed

lemma syscall_ready_update:
  assumes "syscall_ready p k" and "writer_ok w" and "input_queue_ok q"
  shows "syscall_ready p (k\<lparr>screen := w, input := q\<rparr>)"
proof -
  have "same_space p k (k\<lparr>screen := w, input := q\<rparr>)"
    unfolding same_space_def frame_of_def page_at_def by (simp del: walked.simps translate_levels.simps)
  then have "user_space p (k\<lparr>screen := w, input := q\<rparr>)" using user_space_same syscall_readyD(3) [OF assms(1)] by blast
  then show ?thesis
    using assms by (auto simp: syscall_ready_def kernel_ok_def reapable_def space_freeable_def split: option.splits)
qed

lemma kill_gone:
  assumes "syscall_ready p k"
  shows "\<exists>k'. kill_current_thread p msg k = Inr k' \<and> caller_gone p k k'"
proof -
  obtain w where w: "println (''[proc]  thread killed: '' @ msg) (screen k) = Inr w" "writer_ok w"
    using write_string_returns [OF syscall_readyD(5) [OF assms]] unfolding println_def by blast
  let ?k = "k\<lparr>screen := w\<rparr>"
  have "syscall_ready p ?k"
    using syscall_ready_update [OF assms w(2) syscall_readyD(6) [OF assms]] by simp
  then obtain k' where "exit_current_thread p ?k = Inr k'" "caller_gone p ?k k'" using exit_gone by blast
  then show ?thesis using w(1) by (auto simp: kill_current_thread_def caller_gone_def)
qed

section \<open>Copies and the kernel's address space\<close>

lemma range_ok_eq:
  "syscall_ready p k \<Longrightarrow> n \<le> 1024 \<Longrightarrow> user_range_ok p ptr n w k = give (user_range p k ptr n w) k"
  using user_range_ok_eq syscall_readyD(1,3,7) by blast

lemma copy_from_user_eq:
  assumes "syscall_ready p k" and "n \<le> 1024"
  shows "copy_from_user p ptr n k = (if user_range p k ptr n False then give (bytes_at p k ptr n) k
    else leave (kill_current_thread p ''syscall argument pointer not mapped for read'' k))"
  using range_ok_eq [OF assms] load_bytes_at [OF syscall_readyD(1) [OF assms(1)]]
  by (auto simp: copy_from_user_def)

lemma copy_to_user_stores:
  assumes "syscall_ready p k" and "length bs \<le> 1024" and r: "user_range p k ptr (length bs) True"
  obtains pm where "copy_to_user p ptr bs k = give () (k\<lparr>memory := pm\<rparr>)" "same_space p k (k\<lparr>memory := pm\<rparr>)"
    "bytes_at p (k\<lparr>memory := pm\<rparr>) ptr (length bs) = bs"
    "\<And>c. unat c < 2 ^ 47 \<Longrightarrow> page_at p k c False \<Longrightarrow> (\<forall>i < length bs. c \<noteq> ptr + of_nat i)
       \<Longrightarrow> byte_at p (k\<lparr>memory := pm\<rparr>) c = byte_at p k c"
proof -
  obtain pm where pm: "store_bytes p ptr bs k = Inr (k\<lparr>memory := pm\<rparr>)" "same_space p k (k\<lparr>memory := pm\<rparr>)"
    "bytes_at p (k\<lparr>memory := pm\<rparr>) ptr (length bs) = bs"
    "\<And>c. unat c < 2 ^ 47 \<Longrightarrow> page_at p k c False \<Longrightarrow> (\<forall>i < length bs. c \<noteq> ptr + of_nat i)
       \<Longrightarrow> byte_at p (k\<lparr>memory := pm\<rparr>) c = byte_at p k c"
    using store_bytes_at [OF syscall_readyD(1,3) [OF assms(1)] r] by blast
  then have "copy_to_user p ptr bs k = give () (k\<lparr>memory := pm\<rparr>)"
    using range_ok_eq [OF assms(1,2)] r by (simp add: copy_to_user_def)
  then show ?thesis using that pm by blast
qed

lemma kernel_page_table_of_eq:
  "scheduler k = Some st \<Longrightarrow> kernel_page_table_of k = Inr (kernel_page_table st, k)"
  by (simp add: kernel_page_table_of_def without_interrupts_def)

lemma in_kernel_space_keeps:
  assumes st: "scheduler k = Some st" and body: "\<And>l4. body (cr3_write l4 k) = give v (upd (cr3_write l4 k))"
    and upd: "\<And>l4. cr3_write (cr3 (cpu_regs k)) (upd (cr3_write l4 k)) = upd k"
  shows "in_kernel_space body k = give v (upd k)"
proof -
  have same: "cr3_write (cr3 (cpu_regs k)) k = k" by (simp add: cr3_write_def)
  show ?thesis
    using kernel_page_table_of_eq [OF st] body [of "kernel_page_table st"] body [of "cr3 (cpu_regs k)"] upd same
    by (simp add: in_kernel_space_def Let_def)
qed

section \<open>Writing\<close>

lemma cap_bound: "unat (min (len :: u64) 1024) \<le> 1024" "unat (min len 256) \<le> 256" "0 < len \<Longrightarrow> 0 < unat (min len 256)"
  by (auto simp: min_def word_le_nat_alt word_less_nat_alt)

lemma sys_write_prints:
  assumes ready: "syscall_ready p k" and r: "user_range p k ptr (unat (min len 1024)) False"
  shows "\<exists>w. write_string (case from_utf8 (bytes_at p k ptr (unat (min len 1024))) of
             Some s \<Rightarrow> s | None \<Rightarrow> map of_char ''<sys_write: invalid utf-8>'') (screen k) = Inr w \<and> writer_ok w
           \<and> sys_write p 1 ptr len k = give (min len 1024) (k\<lparr>screen := w\<rparr>)"
proof -
  define n where "n = min len 1024"
  obtain w where w: "write_string (case from_utf8 (bytes_at p k ptr (unat n)) of
      Some s \<Rightarrow> s | None \<Rightarrow> map of_char ''<sys_write: invalid utf-8>'') (screen k) = Inr w" "writer_ok w"
    using write_string_returns [OF syscall_readyD(5) [OF ready]] by blast
  moreover have "sys_write p 1 ptr len k = give n (k\<lparr>screen := w\<rparr>)"
    using w(1) r copy_from_user_eq [OF ready cap_bound(1), of ptr len]
    by (simp add: sys_write_def n_def [symmetric] Let_def print_chars_def)
  ultimately show ?thesis unfolding n_def by blast
qed

text \<open>
  C23. \<open>sys_write\<close>, for every descriptor, pointer and length. Any descriptor but 1 gives the error
  value and changes nothing. When the first \<open>min(len, 1024)\<close> bytes at the pointer are all readable
  by the program, they are printed, as text when they are UTF-8 and as an error message when not,
  and their number is returned; nothing but the screen changes. When one byte is not readable, the
  kernel does not panic: the calling thread ends, and memory and pending input stay as they are.
\<close>

theorem sys_write_outcome:
  assumes ready: "syscall_ready p k"
  shows "if fd \<noteq> 1 then sys_write p fd ptr len k = give u64_MAX k
    else if user_range p k ptr (unat (min len 1024)) False
    then \<exists>w. write_string (case from_utf8 (bytes_at p k ptr (unat (min len 1024))) of
             Some s \<Rightarrow> s | None \<Rightarrow> map of_char ''<sys_write: invalid utf-8>'') (screen k) = Inr w
           \<and> sys_write p fd ptr len k = give (min len 1024) (k\<lparr>screen := w\<rparr>)
    else \<exists>k'. sys_write p fd ptr len k = Some (Inr (Gone, k')) \<and> caller_gone p k k'"
proof (cases "user_range p k ptr (unat (min len 1024)) False")
  case True
  then show ?thesis using sys_write_prints [OF ready] by (auto simp: sys_write_def)
next
  case False
  obtain k' where "kill_current_thread p ''syscall argument pointer not mapped for read'' k = Inr k'" "caller_gone p k k'"
    using kill_gone [OF ready] by blast
  then show ?thesis using False copy_from_user_eq [OF ready cap_bound(1), of ptr len] by (simp add: sys_write_def Let_def)
qed

section \<open>Reading\<close>

lemma pop_input_upto: "pop_input n q = pop_upto InputQueue_pop n q"
  by (induction n arbitrary: q) (auto simp: try_pop_input_byte_def split: prod.splits option.splits)

lemma pop_input_contents:
  assumes "input_queue_ok q"
  obtains q' where "pop_input n q = (take n (input_list q), q')" "input_queue_ok q'" "input_list q' = drop n (input_list q)"
  using input_fifo.pop_upto_contents [OF assms, of n] by (cases "pop_input n q") (simp add: pop_input_upto)

lemma pop_in_kernel_space:
  assumes "scheduler k = Some st" and "pop_input n (input k) = (bs, q)"
  shows "in_kernel_space (\<lambda>k. let (staged, q) = pop_input n (input k) in give staged (k\<lparr>input := q\<rparr>)) k = give bs (k\<lparr>input := q\<rparr>)"
  by (rule in_kernel_space_keeps [OF assms(1)]) (use assms(2) in \<open>simp_all add: cr3_write_def\<close>)

text \<open>What a completed read of \<open>bs\<close> has done: the bytes are at the pointer and no other user byte changed.\<close>

definition delivered :: "('h, 'd) platform \<Rightarrow> u64 \<Rightarrow> u8 list \<Rightarrow> ('h, 'd) kernel \<Rightarrow> ('h, 'd) kernel \<Rightarrow> bool" where
  "delivered p ptr bs k k' \<longleftrightarrow> k' = k\<lparr>memory := memory k'\<rparr> \<and> same_space p k k' \<and> bytes_at p k' ptr (length bs) = bs
     \<and> (\<forall>a. unat a < 2 ^ 47 \<and> page_at p k a False \<and> (\<forall>i < length bs. a \<noteq> ptr + of_nat i) \<longrightarrow> byte_at p k' a = byte_at p k a)"

lemma user_range_prefix: "user_range p k ptr n w \<Longrightarrow> m \<le> n \<Longrightarrow> user_range p k ptr m w"
  by (auto simp: user_range_def)

lemma copy_delivers:
  assumes ready: "syscall_ready p k" and bs: "length bs \<le> 1024" and r: "user_range p k ptr (length bs) True"
  shows "\<exists>k'. (if 0 < length bs then bind_call (copy_to_user p ptr bs k) (\<lambda>_ k. give (v :: u64) k) else give v k) = give v k'
    \<and> delivered p ptr bs k k'"
proof (cases "bs = []")
  case True
  then show ?thesis by (auto simp: delivered_def same_space_refl bytes_at_def)
next
  case False
  obtain pm where "copy_to_user p ptr bs k = give () (k\<lparr>memory := pm\<rparr>)" "same_space p k (k\<lparr>memory := pm\<rparr>)"
    "bytes_at p (k\<lparr>memory := pm\<rparr>) ptr (length bs) = bs"
    "\<And>c. unat c < 2 ^ 47 \<Longrightarrow> page_at p k c False \<Longrightarrow> (\<forall>i < length bs. c \<noteq> ptr + of_nat i)
       \<Longrightarrow> byte_at p (k\<lparr>memory := pm\<rparr>) c = byte_at p k c"
    using copy_to_user_stores [OF ready bs r] by blast
  then show ?thesis using False by (intro exI [of _ "k\<lparr>memory := pm\<rparr>"]) (auto simp: delivered_def)
qed

text \<open>
  C21. Reading the keyboard. With descriptor 0 and a length that is not 0, \<open>sys_read\<close> first checks
  the whole range of at most 256 bytes. If the program can write all of it, the oldest bytes that
  were typed arrive at the pointer in order, as many as are there and fit; exactly these leave the
  input queue, every other byte of user memory stays, and the caller's address space is active
  again. If it cannot, the calling thread ends and no byte of input is lost.
\<close>

theorem sys_read_keyboard:
  assumes ready: "syscall_ready p k" and len: "0 < len"
  shows "let n = unat (min len 256); bs = take n (input_list (input k)) in
    if user_range p k ptr n True
    then \<exists>q k'. sys_read p 0 ptr len k = give (of_nat (length bs)) k' \<and> delivered p ptr bs (k\<lparr>input := q\<rparr>) k'
           \<and> input_queue_ok q \<and> input_list q = drop n (input_list (input k))
    else \<exists>k'. sys_read p 0 ptr len k = Some (Inr (Gone, k')) \<and> caller_gone p k k'"
proof -
  define n where "n = unat (min len 256)"
  have n: "n \<le> 256" "0 < n" using len by (auto simp: n_def min_def word_le_nat_alt word_less_nat_alt)
  obtain q where q: "pop_input n (input k) = (take n (input_list (input k)), q)" "input_queue_ok q"
      "input_list q = drop n (input_list (input k))"
    using pop_input_contents [OF syscall_readyD(6) [OF ready]] by blast
  define bs where "bs = take n (input_list (input k))"
  obtain st where st: "scheduler k = Some st" using syscall_readyD(8) [OF ready] by blast
  have range: "user_range_ok p ptr n True k = give (user_range p k ptr n True) k" using range_ok_eq [OF ready] n(1) by simp
  have call: "sys_read p 0 ptr len k = sys_read_stdin p ptr n k" using n(2) by (simp add: sys_read_def n_def [symmetric] Let_def)
  show ?thesis
  proof (cases "user_range p k ptr n True")
    case True
    let ?k = "k\<lparr>input := q\<rparr>"
    have ready': "syscall_ready p ?k" using syscall_ready_update [OF ready syscall_readyD(5) [OF ready] q(2)] by simp
    have "same_space p k ?k" unfolding same_space_def frame_of_def page_at_def by (simp del: walked.simps translate_levels.simps)
    then have r: "user_range p ?k ptr (length bs) True"
      using user_range_prefix [OF True] by (simp add: user_range_same bs_def)
    obtain k' where k': "(if 0 < length bs then bind_call (copy_to_user p ptr bs ?k) (\<lambda>_ k. give (of_nat (length bs)) k)
        else give (of_nat (length bs)) ?k) = give (of_nat (length bs) :: u64) k'" "delivered p ptr bs ?k k'"
      using copy_delivers [OF ready' _ r] n(1) by (fastforce simp: bs_def)
    have "sys_read p 0 ptr len k = give (of_nat (length bs)) k'"
      unfolding call sys_read_stdin_def range k'(1) [symmetric]
      using True pop_in_kernel_space [OF st, of n bs q] q(1) by (simp add: bs_def)
    then show ?thesis using True k'(2) q(2,3) by (auto simp: n_def [symmetric] bs_def Let_def)
  next
    case False
    obtain k' where "kill_current_thread p ''sys_read: destination pointer not mapped for write'' k = Inr k'" "caller_gone p k k'"
      using kill_gone [OF ready] by blast
    then show ?thesis using False call range by (simp add: sys_read_stdin_def n_def [symmetric] Let_def)
  qed
qed

lemma syscall_ready_with_files:
  assumes ready: "syscall_ready p k" and t: "current_thread k = Some t" and ok: "kernel_ok (x86 p) (with_files k fs)"
  shows "syscall_ready p (with_files k fs)" and "same_space p k (with_files k fs)" and "scheduler (with_files k fs) \<noteq> None"
proof -
  obtain st where st: "scheduler k = Some st" "sched_ok (x86 p) st" "current st \<noteq> 0" using syscall_readyD(8) [OF ready] by blast
  have w: "with_files k fs = k\<lparr>scheduler := Some (set_thread (current st) (Some (t\<lparr>open_files := fs\<rparr>)) st)\<rparr>"
    using t st(1) by (simp add: with_files_def current_thread_def)
  show same: "same_space p k (with_files k fs)"
    unfolding w same_space_def frame_of_def page_at_def by (simp del: walked.simps translate_levels.simps)
  have "current st \<notin> set (zombies st)" using sched_okD(4) [OF st(2)] by (auto simp: rotation_def)
  then have "reapable p (with_files k fs)"
    using syscall_readyD(4) [OF ready] st(1) unfolding w
    by (auto simp: reapable_def space_freeable_def zombies_def set_thread_def split: option.splits)
  then show "syscall_ready p (with_files k fs)"
    using ready user_space_same [OF same] ok st unfolding syscall_ready_def w by simp
  show "scheduler (with_files k fs) \<noteq> None" unfolding w by simp
qed

lemma current_files_ok:
  assumes "syscall_ready p k" and "current_thread k = Some t"
  shows "files_ok t"
proof -
  obtain st where st: "scheduler k = Some st" "sched_ok (x86 p) st" using syscall_readyD(8) [OF assms(1)] by blast
  show ?thesis by (rule sched_ok_current [OF st(2)]) (use assms(2) st(1) in \<open>simp add: thread_ok_def current_thread_def\<close>)
qed

lemma sys_read_delivers:
  assumes ready: "syscall_ready p k" and len: "0 < len" and t: "current_thread k = Some t" and fd: "2 \<le> fd" "fd_file t fd = Some f"
    and range: "user_range p k ptr (unat (min len 256)) True"
  defines "bs \<equiv> take (unat (min len 256)) (unread f)"
  shows "\<exists>fs k'. sys_read p fd ptr len k = give (of_nat (length bs)) k' \<and> delivered p ptr bs (with_files k fs) k'
    \<and> fd_file (t\<lparr>open_files := fs\<rparr>) = (fd_file t)(fd := Some (f\<lparr>file_offset := file_offset f + length bs\<rparr>))
    \<and> syscall_ready p (with_files k fs) \<and> same_space p k (with_files k fs)"
proof -
  define n where "n = unat (min len 256)"
  have n: "n \<le> 256" "0 < n" using cap_bound(2,3) len by (auto simp: n_def)
  have "fd \<noteq> 0" using fd(1) by auto
  then have call: "sys_read p fd ptr len k = sys_read_file p fd ptr n k"
    using n(2) fd(1) by (simp add: sys_read_def n_def [symmetric] Let_def FIRST_FILE_FD_def)
  have ok_range: "user_range_ok p ptr n True k = give True k" using range_ok_eq [OF ready] n(1) range by (simp add: n_def)
  note files = current_files_ok [OF ready t]
  let ?n = "min (length (unread f)) n"
  obtain fs where fs: "read_open_file_in fd (replicate n 0) t = Inr ((Some ?n, take ?n (unread f) @ drop ?n (replicate n 0)), t\<lparr>open_files := fs\<rparr>)"
      "files_ok (t\<lparr>open_files := fs\<rparr>)"
      "fd_file (t\<lparr>open_files := fs\<rparr>) = (fd_file t)(fd := Some (f\<lparr>file_offset := file_offset f + ?n\<rparr>))"
    using read_open_file_in_spec(2) [OF files fd(2), of ?n "replicate n 0"] by auto
  have r: "read_open_file fd (replicate n 0) k = Inr ((Some ?n, take ?n (unread f) @ drop ?n (replicate n 0)), with_files k fs)"
      and ok: "kernel_ok (x86 p) (with_files k fs)"
    using file_call [OF syscall_readyD(2) [OF ready] t, of "read_open_file_in fd (replicate n 0)"] fs(1,2)
    by (simp_all add: read_open_file_def)
  note after = syscall_ready_with_files [OF ready t ok]
  have bs: "take ?n (take ?n (unread f) @ drop ?n (replicate n 0)) = bs" "length bs = ?n" by (simp_all add: bs_def n_def min_def)
  have "user_range p (with_files k fs) ptr (length bs) True"
    using user_range_prefix [OF range] bs(2) by (simp add: user_range_same [OF after(2)] n_def)
  moreover have "length bs \<le> 1024" using n(1) bs(2) by simp
  ultimately obtain k' where k': "(if 0 < length bs then bind_call (copy_to_user p ptr bs (with_files k fs)) (\<lambda>_ k. give (of_nat (length bs)) k)
      else give (of_nat (length bs)) (with_files k fs)) = give (of_nat (length bs) :: u64) k'" "delivered p ptr bs (with_files k fs) k'"
    using copy_delivers [OF after(1)] by blast
  have "sys_read p fd ptr len k = give (of_nat (length bs)) k'"
    unfolding call sys_read_file_def ok_range k'(1) [symmetric] using r bs by simp
  then show ?thesis using k'(2) fs(3) bs(2) after by (intro exI [of _ fs] exI [of _ k']) simp
qed

text \<open>
  C22. Reading a file. With a descriptor from 2 on and a length that is not 0, \<open>sys_read\<close> delivers
  the next bytes of the file, at most 256 and at most as many as asked for, to the pointer and
  moves the offset of that descriptor past exactly these; no other descriptor and no other byte of
  user memory changes. A descriptor that is not open gives the error value. A range that the
  program cannot write ends the calling thread, before any offset moves.
\<close>

theorem sys_read_open_file:
  assumes ready: "syscall_ready p k" and len: "0 < len" and t: "current_thread k = Some t" and fd: "2 \<le> fd"
  shows "let n = unat (min len 256) in
    if user_range p k ptr n True
    then (case fd_file t fd of
        None \<Rightarrow> sys_read p fd ptr len k = give u64_MAX k
      | Some f \<Rightarrow> \<exists>fs k'. sys_read p fd ptr len k = give (of_nat (length (take n (unread f)))) k'
          \<and> delivered p ptr (take n (unread f)) (with_files k fs) k'
          \<and> fd_file (t\<lparr>open_files := fs\<rparr>) = (fd_file t)(fd := Some (f\<lparr>file_offset := file_offset f + length (take n (unread f))\<rparr>)))
    else \<exists>k'. sys_read p fd ptr len k = Some (Inr (Gone, k')) \<and> caller_gone p k k'"
proof -
  define n where "n = unat (min len 256)"
  have n: "n \<le> 256" "0 < n" using cap_bound(2,3) len by (auto simp: n_def)
  have "fd \<noteq> 0" using fd by auto
  then have call: "sys_read p fd ptr len k = sys_read_file p fd ptr n k"
    using n(2) fd by (simp add: sys_read_def n_def [symmetric] Let_def FIRST_FILE_FD_def)
  have range: "user_range_ok p ptr n True k = give (user_range p k ptr n True) k" using range_ok_eq [OF ready] n(1) by simp
  note files = current_files_ok [OF ready t]
  consider (bad) "\<not> user_range p k ptr n True" | (closed) "user_range p k ptr n True" "fd_file t fd = None"
    | (found) f where "user_range p k ptr n True" "fd_file t fd = Some f" by blast
  then show ?thesis
  proof cases
    case bad
    obtain k' where "kill_current_thread p ''sys_read: destination pointer not mapped for write'' k = Inr k'" "caller_gone p k k'"
      using kill_gone [OF ready] by blast
    then show ?thesis using bad call range by (simp add: sys_read_file_def n_def [symmetric] Let_def)
  next
    case closed
    have "read_open_file fd (replicate n 0) k = Inr ((None, replicate n 0), k)"
      using file_call [OF syscall_readyD(2) [OF ready] t, of "read_open_file_in fd (replicate n 0)" _ "open_files t"]
        read_open_file_in_spec(1) [OF files closed(2)] files with_files_same [OF t] by (simp add: read_open_file_def)
    then show ?thesis using closed call range by (simp add: sys_read_file_def n_def [symmetric] Let_def)
  next
    case found
    then show ?thesis using sys_read_delivers [OF ready len t fd found(2), of ptr] by (auto simp: n_def Let_def)
  qed
qed

section \<open>Waiting\<close>

definition alive :: "u64 \<Rightarrow> ('h, 'd) kernel \<Rightarrow> bool" where
  "alive pid k \<longleftrightarrow> thread_alive pid k = Inr (True, k)"

text \<open>One round of the waiting thread: it yields, and the others run until it is its turn again.\<close>

definition wait_round :: "('h, 'd) platform \<Rightarrow> (('h, 'd) kernel \<Rightarrow> ('h, 'd) kernel) \<Rightarrow> ('h, 'd) kernel \<Rightarrow> ('h, 'd) kernel" where
  "wait_round p others k = (case yield_now p k of Inl _ \<Rightarrow> k | Inr k' \<Rightarrow> others k')"

definition sane :: "('h, 'd) platform \<Rightarrow> ('h, 'd) kernel \<Rightarrow> bool" where
  "sane p k \<longleftrightarrow> kernel_ok (x86 p) k \<and> reapable p k"

lemma thread_alive_total:
  assumes "kernel_ok x k"
  shows "thread_alive pid k = Inr (alive pid k, k)"
proof -
  obtain st where "scheduler k = Some st" "sched_ok x st" using assms by (rule kernel_okE)
  moreover obtain s g where "unpack_pid pid = (s, g)" by (cases "unpack_pid pid")
  ultimately obtain b where "thread_alive pid k = Inr (b, k)" using thread_alive_eq by blast
  then show ?thesis by (simp add: alive_def)
qed

lemma yield_total:
  assumes "sane p k"
  shows "\<exists>k'. yield_now p k = Inr k'"
proof -
  obtain st where "scheduler k = Some st" "sched_ok (x86 p) st" using assms unfolding sane_def by (metis kernel_okE)
  then show ?thesis using schedule_rotates [of k st p] assms by (auto simp: sane_def yield_now_def)
qed

lemma wait_loop_step:
  assumes "sane p k"
  shows "wait_loop p others pid k = (if alive pid k then wait_loop p others pid (wait_round p others k) else give 0 k)"
proof -
  obtain k' where "yield_now p k = Inr k'" using yield_total [OF assms] by blast
  then show ?thesis
    using thread_alive_total [of "x86 p" k pid] assms by (subst wait_loop.simps) (simp add: sane_def wait_round_def)
qed

lemma wait_loop_returns:
  assumes "\<And>i. sane p ((wait_round p others ^^ i) k)" and "\<And>i. i < n \<Longrightarrow> alive pid ((wait_round p others ^^ i) k)"
    and "\<not> alive pid ((wait_round p others ^^ n) k)"
  shows "wait_loop p others pid k = give 0 ((wait_round p others ^^ n) k)"
  using assms
proof (induction n arbitrary: k)
  case 0
  then show ?case using wait_loop_step [of p k others pid] "0.prems"(1) [of 0] by simp
next
  case (Suc n)
  have f: "(wait_round p others ^^ i) (wait_round p others k) = (wait_round p others ^^ Suc i) k" for i
    by (simp add: funpow_swap1)
  have "wait_loop p others pid (wait_round p others k) = give 0 ((wait_round p others ^^ n) (wait_round p others k))"
    by (rule Suc.IH; unfold f; rule Suc.prems) simp
  then show ?case using wait_loop_step [of p k others pid] Suc.prems(1) [of 0] Suc.prems(2) [of 0] f by simp
qed

lemma wait_loop_Some:
  assumes "wait_loop p others pid k = Some r" and "\<And>i. sane p ((wait_round p others ^^ i) k)"
  shows "\<exists>n. \<not> alive pid ((wait_round p others ^^ n) k)"
proof -
  have "(\<forall>i. sane p ((wait_round p others ^^ i) k)) \<longrightarrow> (\<exists>n. \<not> alive pid ((wait_round p others ^^ n) k))"
  proof (rule wait_loop.raw_induct [where P = "\<lambda>p others pid k r. (\<forall>i. sane p ((wait_round p others ^^ i) k)) \<longrightarrow>
      (\<exists>n. \<not> alive pid ((wait_round p others ^^ n) k))", OF _ assms(1)])
    fix wl :: "('a, 'b) platform \<Rightarrow> (('a, 'b) kernel \<Rightarrow> ('a, 'b) kernel) \<Rightarrow> u64 \<Rightarrow> ('a, 'b) kernel \<Rightarrow> (u64, 'a, 'b) call"
      and p others pid k r
    assume IH: "\<And>p others pid k r. wl p others pid k = Some r \<Longrightarrow> (\<forall>i. sane p ((wait_round p others ^^ i) k)) \<longrightarrow>
        (\<exists>n. \<not> alive pid ((wait_round p others ^^ n) k))"
      and body: "(case thread_alive pid k of Inl e \<Rightarrow> Some (Inl e) | Inr (al, k) \<Rightarrow>
          if \<not> al then give 0 k
          else (case yield_now p k of Inl e \<Rightarrow> Some (Inl e) | Inr k \<Rightarrow> wl p others pid (others k))) = Some r"
    show "(\<forall>i. sane p ((wait_round p others ^^ i) k)) \<longrightarrow> (\<exists>n. \<not> alive pid ((wait_round p others ^^ n) k))"
    proof (intro impI, rule ccontr)
      assume s: "\<forall>i. sane p ((wait_round p others ^^ i) k)" and "\<nexists>n. \<not> alive pid ((wait_round p others ^^ n) k)"
      then have al: "alive pid ((wait_round p others ^^ n) k)" for n by blast
      have s0: "sane p k" using s [rule_format, of 0] by simp
      obtain k' where y: "yield_now p k = Inr k'" using yield_total [OF s0] by blast
      have wr: "wait_round p others k = others k'" using y by (simp add: wait_round_def)
      have "wl p others pid (others k') = Some r"
        using body thread_alive_total [of "x86 p" k pid] s0 al [of 0] y by (simp add: sane_def)
      moreover have "(wait_round p others ^^ i) (others k') = (wait_round p others ^^ Suc i) k" for i
        by (simp add: funpow_swap1 wr [symmetric])
      ultimately have "\<exists>n. \<not> alive pid ((wait_round p others ^^ Suc n) k)" using IH s by metis
      then show False using al by blast
    qed
  qed
  then show ?thesis using assms(2) by blast
qed

text \<open>
  C24. \<open>sys_wait\<close>. When the process id names no live thread at the time of the call, it gives the
  error value at once. Otherwise it returns 0, in the state of the first round at which the thread
  is not alive any more, and it never returns before that. It hangs exactly when the thread never
  ends.
\<close>

theorem sys_wait_outcome:
  assumes ok: "\<forall>i. sane p ((wait_round p others ^^ i) k)"
  shows "sys_wait p others pid k =
    (if \<not> alive pid k then give u64_MAX k
     else if \<exists>n. \<not> alive pid ((wait_round p others ^^ n) k)
     then give 0 ((wait_round p others ^^ (LEAST n. \<not> alive pid ((wait_round p others ^^ n) k))) k)
     else None)"
proof -
  have "kernel_ok (x86 p) k" using ok [rule_format, of 0] by (simp add: sane_def)
  from thread_alive_total [OF this, of pid]
  have call: "sys_wait p others pid k = (if \<not> alive pid k then give u64_MAX k else wait_loop p others pid k)"
    by (simp add: sys_wait_def)
  show ?thesis
  proof (cases "\<exists>n. \<not> alive pid ((wait_round p others ^^ n) k)")
    case True
    let ?n = "LEAST n. \<not> alive pid ((wait_round p others ^^ n) k)"
    have "\<not> alive pid ((wait_round p others ^^ ?n) k)" using True by (rule LeastI_ex)
    moreover have "alive pid ((wait_round p others ^^ i) k)" if "i < ?n" for i using not_less_Least [OF that] by blast
    ultimately have "wait_loop p others pid k = give 0 ((wait_round p others ^^ ?n) k)"
      using ok by (intro wait_loop_returns) auto
    then show ?thesis using call True by simp
  next
    case False
    then have "wait_loop p others pid k = None" using wait_loop_Some ok by (metis option.exhaust)
    then show ?thesis using call False by simp
  qed
qed

end
