(* ===== verification/Syscall_Types.thy ===== *)
theory Syscall_Types
  imports Syscall_Props
begin

text \<open>
  The types of the kernel's state: the invariant of the scheduler's tables, the shape of the screen
  and of the input queue, and that every system call keeps them, whatever its arguments are and
  whether it returns or ends the calling thread.
\<close>

definition well_typed :: "('h, 'd) platform \<Rightarrow> ('h, 'd) kernel \<Rightarrow> bool" where
  "well_typed p k \<longleftrightarrow> kernel_ok (x86 p) k \<and> writer_ok (screen k) \<and> input_queue_ok (input k)"

definition keeps :: "('h, 'd) platform \<Rightarrow> ('a, 'h, 'd) call \<Rightarrow> bool" where
  "keeps p c \<longleftrightarrow> (\<forall>r k. c = Some (Inr (r, k)) \<longrightarrow> well_typed p k)"

named_theorems keeps_intros \<open>calls that keep the types\<close>

lemma keeps_bind [keeps_intros]:
  assumes "keeps p m" and "\<And>v k. well_typed p k \<Longrightarrow> keeps p (f v k)"
  shows "keeps p (bind_call m f)"
  using assms unfolding keeps_def bind_call_def by (auto split: option.splits sum.splits prod.splits control.splits)

lemma keeps_basic [keeps_intros]:
  "well_typed p k \<Longrightarrow> keeps p (give v k)" "keeps p None" "keeps p (Some (Inl e))"
  by (auto simp: keeps_def give_def)

lemma keeps_run: "(\<And>v k. m = Inr (v, k) \<Longrightarrow> well_typed p k) \<Longrightarrow> keeps p (run m)"
  by (auto simp: keeps_def run_def bind_result_Inr_iff)

lemma keeps_leave: "(\<And>k. m = Inr k \<Longrightarrow> well_typed p k) \<Longrightarrow> keeps p (leave m)"
  by (auto simp: keeps_def leave_def bind_result_Inr_iff)

lemma keeps_case [keeps_intros]:
  "(x = None \<Longrightarrow> keeps p a) \<Longrightarrow> (\<And>v. x = Some v \<Longrightarrow> keeps p (b v)) \<Longrightarrow> keeps p (case x of None \<Rightarrow> a | Some v \<Rightarrow> b v)"
  "(\<And>u v. y = (u, v) \<Longrightarrow> keeps p (c u v)) \<Longrightarrow> keeps p (case y of (u, v) \<Rightarrow> c u v)"
  "(\<And>u v. y = (u, v) \<Longrightarrow> keeps p (e u v k)) \<Longrightarrow> keeps p ((case y of (u, v) \<Rightarrow> e u v) k)"
  "(P \<Longrightarrow> keeps p a) \<Longrightarrow> (\<not> P \<Longrightarrow> keeps p d) \<Longrightarrow> keeps p (if P then a else d)"
  by (auto split: option.splits prod.splits)

lemma well_typed_update [simp]:
  "well_typed p (k\<lparr>memory := pm\<rparr>) = well_typed p k" "well_typed p (k\<lparr>frames := fs\<rparr>) = well_typed p k"
  "well_typed p (k\<lparr>disk := d\<rparr>) = well_typed p k" "well_typed p (cr3_write l4 k) = well_typed p k"
  by (simp_all add: well_typed_def kernel_ok_def cr3_write_def)

section \<open>The pieces\<close>

lemma exit_keeps [keeps_intros]:
  assumes "well_typed p k"
  shows "keeps p (leave (exit_current_thread p k))"
proof (rule keeps_leave)
  fix k' assume e: "exit_current_thread p k = Inr k'"
  then obtain k1 where "reap_zombie p k = Inr k1" "exit_switch p k1 = Inr k'"
    by (auto simp: exit_current_thread_def bind_result_Inr_iff)
  then have "kernel_ok (x86 p) k'" using assms reap_ok exit_ok by (metis well_typed_def)
  then show "well_typed p k'" using assms exit_io [OF e] by (simp add: well_typed_def)
qed

lemma kill_keeps [keeps_intros]:
  assumes "well_typed p k"
  shows "keeps p (leave (kill_current_thread p msg k))"
proof -
  obtain w where w: "println (''[proc]  thread killed: '' @ msg) (screen k) = Inr w" "writer_ok w"
    using assms write_string_returns unfolding println_def well_typed_def by blast
  then have "well_typed p (k\<lparr>screen := w\<rparr>)" using assms by (simp add: well_typed_def kernel_ok_def)
  then show ?thesis using exit_keeps w(1) by (simp add: kill_current_thread_def)
qed

lemma range_keeps [keeps_intros]: "well_typed p k \<Longrightarrow> keeps p (user_range_ok p ptr n w k)"
  by (auto simp: user_range_ok_def keeps_def give_def bind_result_Inr_iff split: option.splits if_splits)

lemma copy_from_keeps [keeps_intros]: "well_typed p k \<Longrightarrow> keeps p (copy_from_user p ptr n k)"
  unfolding copy_from_user_def by (auto intro!: keeps_intros keeps_run simp: bind_result_Inr_iff)

lemma store_bytes_memory:
  assumes "store_bytes p ptr bs k = Inr k'"
  shows "k' = k\<lparr>memory := memory k'\<rparr>"
  using assms unfolding store_bytes_def
proof (rule for_each_upt_Inr)
  fix i k1 k2
  assume "k1 = k\<lparr>memory := memory k1\<rparr>" and "store_byte p (ptr + of_nat i) (bs ! i) k1 = Inr k2"
  then show "k2 = k\<lparr>memory := memory k2\<rparr>"
    by (cases k; cases k1) (auto simp: store_byte_def bind_result_Inr_iff)
qed simp_all

lemma copy_to_keeps [keeps_intros]:
  assumes "well_typed p k"
  shows "keeps p (copy_to_user p ptr bs k)"
proof -
  have "well_typed p k'" if "store_bytes p ptr bs k1 = Inr k'" "well_typed p k1" for k' k1
    using store_bytes_memory [OF that(1)] that(2) well_typed_update(1) by metis
  then show ?thesis
    unfolding copy_to_user_def using assms by (auto intro!: keeps_intros keeps_run simp: bind_result_Inr_iff)
qed

lemma touches_keeps:
  assumes "touches k k'" and "well_typed p k"
  shows "well_typed p k'"
proof -
  have "screen k' = screen k" "input k' = input k" using assms(1) by (auto simp: touches_def)
  then show ?thesis using touches_ok [OF assms(1)] assms(2) by (simp add: well_typed_def)
qed

lemma file_keeps [keeps_intros]:
  assumes "well_typed p k"
  shows "keeps p (run (open_file bytes k))" "keeps p (run (read_open_file fd buf k))" "keeps p (run (close_file fd k))"
proof -
  have "kernel_ok (x86 p) k" using assms by (simp add: well_typed_def)
  note touch = fd_step_touches [OF this]
  show "keeps p (run (open_file bytes k))" by (rule keeps_run) (rule touches_keeps [OF touch(1) assms])
  show "keeps p (run (read_open_file fd buf k))" by (rule keeps_run) (rule touches_keeps [OF touch(2) assms])
  show "keeps p (run (close_file fd k))" by (rule keeps_run) (rule touches_keeps [OF touch(3) assms])
qed

lemma kernel_space_keeps [keeps_intros]:
  assumes "well_typed p k" and body: "\<And>k. well_typed p k \<Longrightarrow> keeps p (body k)"
  shows "keeps p (in_kernel_space body k)"
proof -
  obtain st where "scheduler k = Some st" using assms(1) by (auto simp: well_typed_def elim: kernel_okE)
  then show ?thesis
    unfolding in_kernel_space_def using assms by (auto simp: kernel_page_table_of_eq Let_def intro!: keeps_intros body)
qed

lemma pop_keeps [keeps_intros]:
  assumes "well_typed p k"
  shows "keeps p (let (staged, q) = pop_input n (input k) in give staged (k\<lparr>input := q\<rparr>))"
proof -
  obtain q where "pop_input n (input k) = (take n (input_list (input k)), q)" "input_queue_ok q"
    using assms pop_input_contents unfolding well_typed_def by blast
  then show ?thesis using assms by (auto intro!: keeps_intros simp: well_typed_def kernel_ok_def)
qed

lemma print_keeps [keeps_intros]:
  assumes "well_typed p k"
  shows "keeps p (run (bind_result (print_chars s k) (\<lambda>k. Inr (n, k))))"
proof -
  obtain w where "write_string s (screen k) = Inr w" "writer_ok w"
    using assms write_string_returns unfolding well_typed_def by blast
  then show ?thesis
    using assms by (simp add: print_chars_def keeps_def give_def well_typed_def kernel_ok_def)
qed

lemma disk_keeps [keeps_intros]: "well_typed p k \<Longrightarrow> keeps p (kernel_read_file p path k)"
  by (auto simp: kernel_read_file_def keeps_def bind_result_Inr_iff)

section \<open>The calls\<close>

lemma write_keeps: "well_typed p k \<Longrightarrow> keeps p (sys_write p fd ptr len k)"
  unfolding sys_write_def Let_def by (intro keeps_intros)

lemma stdin_keeps: "well_typed p k \<Longrightarrow> keeps p (sys_read_stdin p ptr n k)"
  unfolding sys_read_stdin_def by (intro keeps_intros)

lemma read_file_keeps: "well_typed p k \<Longrightarrow> keeps p (sys_read_file p fd ptr n k)"
  unfolding sys_read_file_def by (intro keeps_intros)

lemma read_keeps: "well_typed p k \<Longrightarrow> keeps p (sys_read p fd ptr len k)"
  unfolding sys_read_def Let_def by (intro keeps_intros stdin_keeps read_file_keeps)

lemma open_keeps: "well_typed p k \<Longrightarrow> keeps p (sys_open p ptr len k)"
  unfolding sys_open_def by (intro keeps_intros)

lemma close_keeps: "well_typed p k \<Longrightarrow> keeps p (sys_close fd k)"
  unfolding sys_close_def by (intro keeps_intros)

lemma spawned_io: "spawned p start l4 user i k k' \<Longrightarrow> screen k' = screen k \<and> input k' = input k"
  unfolding spawned_def by (auto dest: arg_cong [where f = screen] arg_cong [where f = input])

lemma spawn_user_keeps:
  assumes "heap_laws p blocks" and "x86_laws (x86 p)" and k: "well_typed p k"
  shows "keeps p (run (spawn_user p e sp a n l4 km im k))"
proof (rule keeps_run)
  fix pid k' assume "spawn_user p e sp a n l4 km im k = Inr (pid, k')"
  then obtain i st where i: "spawned p (ring3_trampoline_addr p) (Some l4) (Some (e, sp, a, n)) i k k'"
    using spawn_isolated_spawned [OF assms(1)] unfolding spawn_user_def by blast
  have "kernel_ok (x86 p) k'" by (rule spawned_ok [OF assms(1,2) _ i]) (use k in \<open>simp add: well_typed_def\<close>)
  then show "well_typed p k'" using spawned_io [OF i] k by (simp add: well_typed_def)
qed

lemma load_keeps [keeps_intros]:
  assumes "well_typed p k"
  shows "keeps p (run (bind_result m (\<lambda>(loaded, pm, fs). Inr (loaded, k\<lparr>memory := pm, frames := fs\<rparr>))))"
  using assms by (auto intro!: keeps_run simp: bind_result_Inr_iff)

lemma spawn_keeps:
  assumes "heap_laws p blocks" and "x86_laws (x86 p)" and "well_typed p k"
  shows "keeps p (sys_spawn p ptr len aptr alen k)"
proof -
  have "keeps p (spawn_from_path p path args k)" if "well_typed p k" for path args k
    unfolding spawn_from_path_def Let_def using that by (intro keeps_intros spawn_user_keeps [OF assms(1,2)])
  then show ?thesis unfolding sys_spawn_def using assms(3) by (intro keeps_intros)
qed

lemma wait_keeps:
  assumes "\<And>k. well_typed p k \<Longrightarrow> well_typed p (others k)" and "well_typed p k"
  shows "keeps p (sys_wait p others pid k)"
proof -
  have y: "well_typed p k'" if y: "yield_now p k = Inr k'" and k: "well_typed p k" for k k'
  proof -
    obtain k1 where "reap_zombie p k = Inr k1" "schedule_switch p k1 = Inr k'"
      using y by (auto simp: yield_now_def schedule_def bind_result_Inr_iff)
    then have "kernel_ok (x86 p) k'" using k reap_ok schedule_ok by (metis well_typed_def)
    then show ?thesis using schedule_io [of p k k'] y k by (simp add: well_typed_def yield_now_def)
  qed
  have alive: "thread_alive pid k = Inr (alive pid k, k)" if "well_typed p k" for k pid
    using thread_alive_total [of "x86 p" k pid] that by (simp add: well_typed_def)
  define Q where "Q q oth (pid :: u64) k r \<longleftrightarrow> (q = p \<and> oth = others \<and> well_typed p k \<longrightarrow> (\<forall>v k'. r = Inr (v :: u64 control, k') \<longrightarrow> well_typed p k'))"
    for q oth pid k and r :: "(u64 control \<times> ('a, 'b) kernel) result"
  have "Q p others pid k r" if "wait_loop p others pid k = Some r" for k r
  proof (rule wait_loop.raw_induct [where P = Q, OF _ that])
    fix wl q oth pid k r
    assume IH: "\<And>q oth pid k r. wl q oth pid k = Some r \<Longrightarrow> Q q oth pid k r"
      and body: "(case thread_alive pid k of Inl e \<Rightarrow> Some (Inl e) | Inr (al, k) \<Rightarrow>
          if \<not> al then give 0 k
          else (case yield_now q k of Inl e \<Rightarrow> Some (Inl e) | Inr k \<Rightarrow> wl q oth pid (oth k))) = Some r"
    show "Q q oth pid k r"
      unfolding Q_def
    proof (intro impI allI)
      fix v k' assume h: "q = p \<and> oth = others \<and> well_typed p k" and r: "r = Inr (v, k')"
      show "well_typed p k'"
      proof (cases "alive pid k")
        case False
        then show ?thesis using body alive h r by (auto simp: give_def)
      next
        case True
        then obtain k1 where k1: "yield_now p k = Inr k1" "wl p others pid (others k1) = Some r"
          using body alive h r by (auto split: sum.splits)
        then have "well_typed p (others k1)" using y h assms(1) by blast
        then show ?thesis using IH [OF k1(2)] r by (simp add: Q_def)
      qed
    qed
  qed
  then have "keeps p (wait_loop p others pid k)" if "well_typed p k" for k
    using that by (auto simp: keeps_def Q_def)
  then show ?thesis
    unfolding sys_wait_def alive [OF assms(2)] using assms(2) by (auto intro!: keeps_intros)
qed

text \<open>
  C25. Every system call keeps the types of the kernel's state. Whatever number and arguments a
  program passes, when the call returns or ends its thread, the thread table, the ready queue and the
  descriptor tables of all threads are well formed, every cell of the screen is in its 25 by 80
  array, and the input queue's indices are inside its buffer. What other threads do while a call
  waits has to keep the types too.
\<close>

theorem dispatch_keeps_types:
  assumes laws: "heap_laws p blocks" "x86_laws (x86 p)"
    and others: "\<forall>k. well_typed p k \<longrightarrow> well_typed p (others k)" and k: "well_typed p k"
    and call: "dispatch p others number arg1 arg2 arg3 arg4 k = Some (Inr (c, k'))"
  shows "well_typed p k'"
proof -
  have "keeps p (dispatch p others number arg1 arg2 arg3 arg4 k)"
    unfolding dispatch_def using others k
    by (intro keeps_intros write_keeps read_keeps open_keeps close_keeps spawn_keeps [OF laws] wait_keeps) auto
  then show ?thesis using call by (auto simp: keeps_def)
qed

end
