(* ===== verification/Elf_Sample.thy ===== *)
theory Elf_Sample
  imports Elf_Props Sched_Sample
begin

text \<open>
  A concrete mapper and a concrete executable, on which the properties of the ELF loader are
  applied. The mapper knows one table of the lowest level, 0x4000, below entry 1 of the top-level
  table, and never needs a new table; it refuses every other page.
\<close>

section \<open>The mapper\<close>

definition ref_table :: "pmem \<Rightarrow> phys_frame \<Rightarrow> virt_addr \<Rightarrow> bool" where
  "ref_table pm l4 page \<longleftrightarrow> read_entry pm l4 1 = 0x2007
     \<and> p_index x86_ref 4 page = 1 \<and> p_index x86_ref 3 page = 0 \<and> p_index x86_ref 2 page = 0"

definition ref_translate :: "pmem \<Rightarrow> phys_frame \<Rightarrow> virt_addr \<Rightarrow> phys_frame option" where
  "ref_translate pm l4 page =
     (let e = read_entry pm 0x4000 (p_index x86_ref 1 page) in
      if ref_table pm l4 page \<and> e \<noteq> 0 then Some (e AND 0x000FFFFFFFFFF000) else None)"

definition ref_map_to :: "phys_frame \<Rightarrow> virt_addr \<Rightarrow> phys_frame \<Rightarrow> u64 \<Rightarrow> mem_state \<Rightarrow> (map_error option \<times> mem_state) result" where
  "ref_map_to l4 page frame flags = (\<lambda>(pm, fs).
     if ref_table pm l4 page \<and> read_entry pm 0x4000 (p_index x86_ref 1 page) = 0
        \<and> frame AND 0x000FFFFFFFFFF000 = frame \<and> flags \<in> {5, 7}
     then Inr (None, write_entry pm 0x4000 (p_index x86_ref 1 page) (frame OR flags), fs)
     else Inr (Some PageAlreadyMapped, pm, fs))"

definition elf_platform :: "((u64 \<times> u64) list, ata_view) platform" where
  "elf_platform = sample_platform\<lparr>translate_page := ref_translate, map_to := ref_map_to\<rparr>"

text \<open>Well-formed spaces of this mapper, and their tables.\<close>

definition ref_good :: "pmem \<Rightarrow> phys_frame \<Rightarrow> bool" where
  "ref_good pm l4 \<longleftrightarrow> l4 \<notin> {0x2000, 0x3000, 0x4000}
     \<and> (\<forall>i<512. read_entry pm l4 i = 0 \<or> i = 1 \<and> read_entry pm l4 i = 0x2007)
     \<and> (\<forall>i<512. read_entry pm 0x2000 i = (if i = 0 then 0x3007 else 0))
     \<and> (\<forall>i<512. read_entry pm 0x3000 i = (if i = 0 then 0x4007 else 0))"

definition ref_tables :: "pmem \<Rightarrow> phys_frame \<Rightarrow> phys_frame set" where
  "ref_tables pm l4 = {l4, 0x2000, 0x3000, 0x4000}"

definition leaf_accessible :: "u64 \<Rightarrow> bool \<Rightarrow> bool" where
  "leaf_accessible e w \<longleftrightarrow> flags_contain (e AND 0x8000000000000FFF) (if w then 7 else 5) \<and> bit e 0 \<and> \<not> bit e 7"

lemma ref_index_bound: "p_index x86_ref l a < 512"
proof -
  have "unat (take_bit 9 w) < 512" for w :: u64
    using take_bit_nat_less_exp [of 9 "unat w"] by (simp add: unsigned_take_bit_eq del: take_bit_nat_less_exp)
  then show ?thesis by (simp add: x86_ref_def)
qed

lemma ref_entries [simp]:
  "entry_flags x86_ref 0 = 0" "entry_flags x86_ref 0x2007 = 7" "entry_flags x86_ref 0x3007 = 7" "entry_flags x86_ref 0x4007 = 7"
  "entry_frame x86_ref 0x2007 = Inr 0x2000" "entry_frame x86_ref 0x3007 = Inr 0x3000" "entry_frame x86_ref 0x4007 = Inr 0x4000"
  by (simp_all add: x86_ref_def)

lemma ref_leaf:
  "accessible_levels x86_ref pm q (if w then 7 else 5) [1] 0x4000 = leaf_accessible (read_entry pm 0x4000 (p_index x86_ref 1 q)) w"
proof -
  have f: "entry_flags x86_ref e = e AND 0x8000000000000FFF" "entry_frame x86_ref e = (if \<not> bit e 0 then Inl FrameNotPresent
      else if bit e 7 then Inl HugeFrame else Inr (e AND 0x000FFFFFFFFFF000))" for e
    by (simp_all add: x86_ref_def)
  show ?thesis by (simp add: f Let_def leaf_accessible_def)
qed

lemma ref_accessible:
  assumes g: "ref_good pm l4"
  shows "page_accessible x86_ref pm l4 q w \<longleftrightarrow> ref_table pm l4 q \<and> leaf_accessible (read_entry pm 0x4000 (p_index x86_ref 1 q)) w"
proof -
  define r :: u64 where "r = (if w then 7 else 5)"
  have req: "page_accessible x86_ref pm l4 q w = accessible_levels x86_ref pm q r [4, 3, 2, 1] l4"
  proof -
    have "(if w then (PRESENT OR USER_ACCESSIBLE) OR WRITABLE else PRESENT OR USER_ACCESSIBLE) = r" by (simp add: r_def)
    then show ?thesis unfolding page_accessible_def Let_def by (simp only:)
  qed
  have e4: "read_entry pm l4 (p_index x86_ref 4 q) = 0 \<or> p_index x86_ref 4 q = 1 \<and> read_entry pm l4 (p_index x86_ref 4 q) = 0x2007"
    and e3: "read_entry pm 0x2000 (p_index x86_ref 3 q) = (if p_index x86_ref 3 q = 0 then 0x3007 else 0)"
    and e2: "read_entry pm 0x3000 (p_index x86_ref 2 q) = (if p_index x86_ref 2 q = 0 then 0x4007 else 0)"
    using g ref_index_bound unfolding ref_good_def by blast+
  have ne: "\<not> flags_contain 0 r" "flags_contain 7 r" by (simp_all add: flags_contain_def r_def)
  have l2: "accessible_levels x86_ref pm q r [2, 1] 0x3000
      = (p_index x86_ref 2 q = 0 \<and> accessible_levels x86_ref pm q r [1] 0x4000)"
    unfolding accessible_levels.simps(2) [where level = 2] e2 using ne by (simp add: Let_def del: accessible_levels.simps)
  have l3: "accessible_levels x86_ref pm q r [3, 2, 1] 0x2000
      = (p_index x86_ref 3 q = 0 \<and> accessible_levels x86_ref pm q r [2, 1] 0x3000)"
    unfolding accessible_levels.simps(2) [where level = 3] e3 using ne by (simp add: Let_def del: accessible_levels.simps)
  have l4: "accessible_levels x86_ref pm q r [4, 3, 2, 1] l4
      = (p_index x86_ref 4 q = 1 \<and> read_entry pm l4 1 = 0x2007 \<and> accessible_levels x86_ref pm q r [3, 2, 1] 0x2000)"
    unfolding accessible_levels.simps(2) [where level = 4] using e4 ne by (auto simp: Let_def simp del: accessible_levels.simps)
  have "accessible_levels x86_ref pm q r [1] 0x4000 = leaf_accessible (read_entry pm 0x4000 (p_index x86_ref 1 q)) w"
    unfolding r_def by (rule ref_leaf)
  then show ?thesis unfolding req l4 l3 l2 ref_table_def by blast
qed

lemma ref_leaf_entry:
  assumes "f AND 0x000FFFFFFFFFF000 = f" and "flags \<in> {5, 7 :: u64}"
  shows "(f OR flags) AND 0x000FFFFFFFFFF000 = f" and "f OR flags \<noteq> 0" and "leaf_accessible (f OR flags) w \<longleftrightarrow> (w \<longrightarrow> flags = 7)"
proof -
  have fb: "bit f k \<Longrightarrow> 12 \<le> k \<and> k < 52" for k
  proof -
    assume "bit f k"
    then have "bit (0x000FFFFFFFFFF000 :: u64) k" using assms(1) by (metis bit_and_iff)
    moreover have "(0x000FFFFFFFFFF000 :: u64) = push_bit 12 (mask 40)" by (simp add: mask_numeral)
    ultimately show "12 \<le> k \<and> k < 52" by (auto simp: bit_push_bit_iff bit_mask_iff)
  qed
  have "(f OR flags) AND 0x000FFFFFFFFFF000 = (f AND 0x000FFFFFFFFFF000) OR (flags AND 0x000FFFFFFFFFF000)"
    by (rule bit.conj_disj_distrib2)
  moreover have "flags AND 0x000FFFFFFFFFF000 = 0" using assms(2) by auto
  ultimately show "(f OR flags) AND 0x000FFFFFFFFFF000 = f" using assms(1) by simp
  have b: "bit (f OR flags) 0" "\<not> bit (f OR flags) 7"
    using assms(2) fb [of 7] by (auto simp: bit_or_iff)
  then show "f OR flags \<noteq> 0" by auto
  have "(f OR flags) AND 0x8000000000000FFF = (f AND 0x8000000000000FFF) OR (flags AND 0x8000000000000FFF)"
    by (rule bit.conj_disj_distrib2)
  moreover have "f AND 0x8000000000000FFF = 0"
  proof (rule bit_word_eqI)
    fix k assume "k < LENGTH(64)"
    have e: "(0x8000000000000FFF :: u64) = push_bit 63 1 OR mask 12" by (simp add: mask_numeral)
    have "bit (0x8000000000000FFF :: u64) k \<Longrightarrow> k = 63 \<or> k < 12"
      unfolding e by (simp only: bit_or_iff bit_push_bit_iff bit_mask_iff bit_1_iff) auto
    then show "bit (f AND 0x8000000000000FFF) k = bit (0 :: u64) k" using fb [of k] by (auto simp: bit_and_iff)
  qed
  moreover have "flags AND 0x8000000000000FFF = flags" using assms(2) by auto
  ultimately have "(f OR flags) AND 0x8000000000000FFF = flags" by simp
  then show "leaf_accessible (f OR flags) w \<longleftrightarrow> (w \<longrightarrow> flags = 7)"
    using b assms(2) by (auto simp: leaf_accessible_def flags_contain_def)
qed

lemma elf_platform_fields [simp]:
  "x86 elf_platform = x86_ref" "translate_page elf_platform = ref_translate" "map_to elf_platform = ref_map_to"
  by (simp_all add: elf_platform_def sample_platform_def)

lemma ref_same:
  assumes "ref_good pm l4" and "ref_good pm' l4" and "read_entry pm' l4 1 = read_entry pm l4 1"
    and "read_entry pm' 0x4000 (p_index x86_ref 1 q) = read_entry pm 0x4000 (p_index x86_ref 1 q)"
  shows "same_mapping elf_platform l4 q pm pm'"
  using assms by (simp add: same_mapping_def ref_accessible ref_translate_def ref_table_def)

lemma ref_mapper_laws: "mapper_laws elf_platform ref_good ref_tables"
  unfolding mapper_laws_def
proof (intro conjI allI impI; (elim conjE)?)
  fix l4 page frame flags pm fs pm' fs'
  assume g: "ref_good pm l4" "global_ok fs" and fl: "flags_contain flags (PRESENT OR USER_ACCESSIBLE)"
    and mt: "map_to elf_platform l4 page frame flags (pm, fs) = Inr (None, pm', fs')"
  let ?i = "p_index x86_ref 1 page"
  have c: "ref_table pm l4 page" "read_entry pm 0x4000 ?i = 0" "frame AND 0x000FFFFFFFFFF000 = frame" "flags \<in> {5, 7}"
      and pm': "pm' = write_entry pm 0x4000 ?i (frame OR flags)" "fs' = fs"
    using mt by (auto simp: ref_map_to_def split: if_splits)
  note leaf = ref_leaf_entry [OF c(3,4)]
  have re: "read_entry pm' f j = (if f = 0x4000 \<and> j = ?i then frame OR flags else read_entry pm f j)" for f j
    unfolding pm' by (rule read_write_entry)
  have g': "ref_good pm' l4" using g(1) by (auto simp: ref_good_def re)
  have t': "ref_table pm' l4 q = ref_table pm l4 q" for q using g(1) by (auto simp: ref_table_def ref_good_def re)
  have "same_mapping elf_platform l4 q pm pm'" if "translate_page elf_platform pm l4 q \<noteq> None" for q
  proof (rule ref_same [OF g(1) g'])
    show "read_entry pm' l4 1 = read_entry pm l4 1" using g(1) by (auto simp: ref_good_def re)
    show "read_entry pm' 0x4000 (p_index x86_ref 1 q) = read_entry pm 0x4000 (p_index x86_ref 1 q)"
      using that c(2) by (auto simp: re ref_translate_def)
  qed
  moreover have "flags_contain flags WRITABLE = (flags = 7)" using c(4) by (auto simp: flags_contain_def)
  moreover have "\<forall>f. f \<notin> ref_tables pm' l4 \<longrightarrow> pm' f = pm f" unfolding pm' by (simp add: ref_tables_def write_entry_def)
  ultimately show "mapped elf_platform ref_good ref_tables l4 page frame flags (pm, fs) (pm', fs')"
    using g g' c(1,2) leaf t' pm'(2) unfolding mapped_def
    by (auto simp: ref_accessible [OF g'] ref_translate_def re ref_tables_def intro: exI [of _ "[]"])
next
  fix l4 and pm pm' :: pmem assume g: "ref_good pm l4" and same: "\<forall>f\<in>ref_tables pm l4. pm' f = pm f"
  have re: "read_entry pm' f = read_entry pm f" if "f \<in> {l4, 0x2000, 0x3000, 0x4000}" for f
    using same that unfolding read_entry_def ref_tables_def by (intro ext) metis
  show g': "ref_good pm' l4" using g by (simp add: ref_good_def re)
  show "ref_tables pm' l4 = ref_tables pm l4" by (simp add: ref_tables_def)
  fix q show "same_mapping elf_platform l4 q pm pm'" by (rule ref_same [OF g g']) (simp_all add: re)
next
  fix pm :: pmem and active l4 assume "ref_good pm active" "l4 \<notin> ref_tables pm active"
    "\<forall>i<512. read_entry pm l4 i = 0 \<or> read_entry pm l4 i = read_entry pm active i"
  then show "ref_good pm l4" unfolding ref_good_def ref_tables_def by (simp, metis)
  show "ref_tables pm l4 \<subseteq> insert l4 (ref_tables pm active)" by (auto simp: ref_tables_def)
qed

section \<open>Loading one page\<close>

text \<open>A space with the pages from number \<open>n\<close> on of the one table still free.\<close>

definition ref_free :: "pmem \<Rightarrow> phys_frame \<Rightarrow> nat \<Rightarrow> bool" where
  "ref_free pm l4 n \<longleftrightarrow> ref_good pm l4 \<and> read_entry pm l4 1 = 0x2007 \<and> (\<forall>i<512. n \<le> i \<longrightarrow> read_entry pm 0x4000 i = 0)"

definition ref_page :: "nat \<Rightarrow> virt_addr" where
  "ref_page n = 0x8000000000 + of_nat (4096 * n)"

lemma ref_page_unat: "n < 512 \<Longrightarrow> unat (ref_page n) = 2 ^ 39 + 4096 * n"
proof -
  assume "n < 512"
  then have "unat (of_nat (4096 * n) :: u64) = 4096 * n" by (intro unat_of_nat_u64) simp
  then show ?thesis using \<open>n < 512\<close> by (simp add: ref_page_def unat_word_ariths)
qed

lemma ref_index: "p_index x86_ref l a = unat a div 2 ^ (12 + 9 * (l - 1)) mod 512"
proof -
  have "unat (take_bit 9 (drop_bit n a)) = unat a div 2 ^ n mod 512" for n
    by (simp only: unsigned_take_bit_eq unat_drop_bit_eq) (simp add: take_bit_eq_mod drop_bit_eq_div)
  then show ?thesis by (simp add: x86_ref_def)
qed

lemma ref_page_index:
  assumes "n < 512"
  shows "p_index x86_ref 4 (ref_page n) = 1" "p_index x86_ref 3 (ref_page n) = 0" "p_index x86_ref 2 (ref_page n) = 0"
    "p_index x86_ref (Suc 0) (ref_page n) = n"
proof -
  have "(549755813888 + 4096 * n) div 549755813888 = 1" "(549755813888 + 4096 * n) div 1073741824 = 512"
      "(549755813888 + 4096 * n) div 2097152 = 262144"
    using assms by (auto intro!: div_nat_eqI)
  moreover have "(134217728 + n) mod 512 = n" using mod_mult_self2 [of n 512 262144] assms by (simp add: add.commute)
  ultimately show "p_index x86_ref 4 (ref_page n) = 1" "p_index x86_ref 3 (ref_page n) = 0" "p_index x86_ref 2 (ref_page n) = 0"
      "p_index x86_ref (Suc 0) (ref_page n) = n"
    using assms by (simp_all add: ref_index ref_page_unat)
qed

lemma ref_page_containing:
  assumes "n < 512" and "unat a = 2 ^ 39 + 4096 * n + j" and "j < 4096"
  shows "virt_try_new x86_ref a = Some a" and "page_containing x86_ref a = ref_page n"
proof -
  have "canonical a" using lower_half [of a] assms by simp
  then show "virt_try_new x86_ref a = Some a" by (simp add: x86_ref_def)
  have "unat (page_containing x86_ref a) = unat (ref_page n)"
    using page_containing_unat [OF x86_ref_laws, of a] assms by (simp add: ref_page_unat div_add1_eq)
  then show "page_containing x86_ref a = ref_page n" by (simp add: word_unat_eq_iff)
qed

lemma ref_load_page:
  assumes sp: "ref_free pm l4 n" "n < 512" and fs: "global_ok fs" "global_avail fs = f # rest"
    and f: "f AND 0x000FFFFFFFFFF000 = f" "f \<notin> {l4, 0x2000, 0x3000, 0x4000}" and fl: "flags \<in> {5, 7}"
  shows "\<exists>pm' fs'. load_page elf_platform l4 bs flags (ref_page n) 0 (pm, fs) = Inr (pm', fs')
    \<and> ref_free pm' l4 (Suc n) \<and> global_ok fs' \<and> global_avail fs' = rest"
proof -
  obtain fs' where a: "global_allocate_frame x86_ref fs = Inr (Some f, fs')" "global_ok fs'" "global_avail fs' = rest"
    using global_frames.alloc_some [OF conjI [OF x86_ref_laws fs(1)] fs(2)] by blast
  have "canonical (ref_page n)" "page_number (ref_page n) = 2 ^ 27 + n"
    using lower_half [of "ref_page n"] ref_page_unat [OF sp(2)] sp(2) by auto
  moreover have "page_containing x86_ref (ref_page n) = ref_page n"
    by (rule ref_page_containing(2) [OF sp(2), of _ 0]) (simp_all add: ref_page_unat [OF sp(2)])
  ultimately have "page_numbered (2 ^ 27 + n) = ref_page n"
    using page_containing_numbered [OF x86_ref_laws] by metis
  then have add: "page_add x86_ref (ref_page n) 0 = Inr (ref_page n)"
    using \<open>canonical (ref_page n)\<close> \<open>page_number (ref_page n) = 2 ^ 27 + n\<close> sp(2) by (simp add: x86_ref_def)
  let ?pm = "write_entry pm 0x4000 n (f OR flags)"
  have mt: "map_to elf_platform l4 (ref_page n) f flags (pm, fs') = Inr (None, ?pm, fs')"
    using sp f(1) fl by (simp add: ref_map_to_def ref_table_def ref_page_index ref_free_def)
  have "mul_ovf 0 PAGE_SIZE = Inr (0 :: u64)" by (simp add: mul_ovf_Inr_iff)
  then obtain pm' where l: "load_page elf_platform l4 bs flags (ref_page n) 0 (pm, fs) = Inr (pm', fs')"
      "\<And>g. g \<noteq> f \<Longrightarrow> pm' g = ?pm g"
    using add a(1) mt by (simp add: load_page_def Let_def copy_to_frame_def zero_frame_def)
  have "read_entry pm' g j = (if g = 0x4000 \<and> j = n then f OR flags else read_entry pm g j)" if "g \<noteq> f" for g j
    using l(2) [OF that] read_write_entry [where pm = pm and f = "0x4000" and i = n and e = "f OR flags" and g = g and j = j]
    by (simp add: read_entry_def)
  then have "ref_free pm' l4 (Suc n)" using sp f(2) by (auto simp: ref_free_def ref_good_def)
  then show ?thesis using l(1) a by blast
qed

lemma ref_map_segment:
  assumes sp: "ref_free pm l4 n" "n < 512" and fs: "global_ok fs" "global_avail fs = f # rest"
    and f: "f AND 0x000FFFFFFFFFF000 = f" "f \<notin> {l4, 0x2000, 0x3000, 0x4000}" and sz: "0 < unat sz" "unat sz \<le> 4096"
  shows "\<exists>pm' fs'. map_segment elf_platform l4 bs (ref_page n) sz w (pm, fs) = Inr (Some (), pm', fs')
    \<and> ref_free pm' l4 (Suc n) \<and> global_ok fs' \<and> global_avail fs' = rest"
proof -
  define flags where "flags = (if w then (PRESENT OR USER_ACCESSIBLE) OR WRITABLE else PRESENT OR USER_ACCESSIBLE)"
  have fl: "flags \<in> {5, 7}" by (simp add: flags_def)
  obtain pm' fs' where l: "load_page elf_platform l4 bs flags (ref_page n) 0 (pm, fs) = Inr (pm', fs')"
      "ref_free pm' l4 (Suc n)" "global_ok fs'" "global_avail fs' = rest"
    using ref_load_page [OF sp fs f fl] by blast
  note v = ref_page_unat [OF sp(2)]
  let ?last = "ref_page n + sz - 1"
  have e: "checked_add (ref_page n) sz = Some (ref_page n + sz)" "unat (ref_page n + sz) = 2 ^ 39 + 4096 * n + unat sz"
    using v sp(2) sz by (simp_all add: checked_add_def unat_word_ariths)
  then have "checked_sub (ref_page n + sz) 1 = Some ?last" using sz by (simp add: checked_sub_def word_le_nat_alt)
  moreover have "unat ?last = 2 ^ 39 + 4096 * n + (unat sz - 1)"
    using e(2) sz(1) calculation by (simp add: checked_sub_Some_iff)
  then have lp: "virt_try_new x86_ref ?last = Some ?last" "page_containing x86_ref ?last = ref_page n"
    using ref_page_containing [OF sp(2), of ?last "unat sz - 1"] sz by simp_all
  have vp: "virt_try_new x86_ref (ref_page n) = Some (ref_page n)" "page_containing x86_ref (ref_page n) = ref_page n"
    using ref_page_containing [OF sp(2), of "ref_page n" 0] v by simp_all
  have al: "ref_page n mod PAGE_SIZE = 0" "\<not> 0x0000800000000000 \<le> ref_page n" "sz \<noteq> 0"
    using v sp(2) sz by (auto simp: PAGE_SIZE_def word_unat_eq_iff unat_word_ariths word_le_nat_alt mod_add_eq)
  have ps: "page_sub x86_ref (ref_page n) (ref_page n) = Inr 0" "add_ovf 0 1 = Inr (1 :: u64)"
    by (simp_all add: x86_ref_def add_ovf_Inr_iff)
  show ?thesis
    using l al e(1) calculation lp vp ps unfolding map_segment_def flags_def [symmetric] by (simp add: Let_def)
qed

section \<open>An executable\<close>

text \<open>One segment of four bytes of code in eight bytes of memory, readable only, at 0x8000000000.\<close>

definition sample_elf :: "u8 list" where
  "sample_elf = [
     0x7f, 0x45, 0x4c, 0x46, 2, 1, 1, 0, 0, 0, 0, 0, 0, 0, 0, 0,
     2, 0, 0x3e, 0, 1, 0, 0, 0, 0, 0, 0, 0, 0x80, 0, 0, 0,
     0x40, 0, 0, 0, 0, 0, 0, 0, 0, 0, 0, 0, 0, 0, 0, 0,
     0, 0, 0, 0, 0x40, 0, 0x38, 0, 1, 0, 0, 0, 0, 0, 0, 0,
     1, 0, 0, 0, 5, 0, 0, 0, 0x78, 0, 0, 0, 0, 0, 0, 0,
     0, 0, 0, 0, 0x80, 0, 0, 0, 0, 0, 0, 0, 0, 0, 0, 0,
     4, 0, 0, 0, 0, 0, 0, 0, 8, 0, 0, 0, 0, 0, 0, 0,
     0, 0x10, 0, 0, 0, 0, 0, 0, 0xb8, 2, 0xcd, 0x80]"

lemma sample_header: "header_ok sample_elf"
  by (simp add: header_ok_def sample_elf_def elf_consts read_u16_def field_def checked_add_def get_range_def)

lemma sample_fields:
  "read_u64 sample_elf 0 24 = Some 0x8000000000" "read_u64 sample_elf 0 32 = Some 64" "read_u16 sample_elf 0 54 = Some 56"
  "read_u16 sample_elf 0 56 = Some 1"
  by (simp_all add: sample_elf_def read_u16_def read_u64_def field_def checked_add_def get_range_def)

lemma sample_parse_header:
  "parse_header sample_elf 64 56 0 = Some (Some ([0xB8, 2, 0xCD, 0x80], 0x8000000000, 8, False))"
  by (simp add: sample_elf_def parse_header_def read_u32_def read_u64_def field_def checked_add_def checked_mul_def get_range_def elf_consts)

definition ref_memory :: pmem where
  "ref_memory = write_entry (write_entry (write_entry (\<lambda>_ _. 0) 0x1000 1 0x2007) 0x2000 0 0x3007) 0x3000 0 0x4007"

definition ref_frames :: "frame_allocator option" where
  "ref_frames = init_frame_allocator [\<lparr>region_type = Usable, start_addr = 0x10000, end_addr = 0x14000\<rparr>]"

lemma ref_frames_avail: "global_ok ref_frames" "global_avail ref_frames = [0x10000, 0x11000, 0x12000, 0x13000]"
proof -
  let ?r = "[\<lparr>region_type = Usable, start_addr = 0x10000, end_addr = 0x14000\<rparr>]"
  have "\<forall>r \<in> set ?r. region_valid r" by (simp add: region_valid_def page_aligned_def)
  from init_available [OF this] show "global_ok ref_frames" "global_avail ref_frames = [0x10000, 0x11000, 0x12000, 0x13000]"
    by (simp_all add: ref_frames_def init_frame_allocator_def global_ok_def global_avail_def region_frames_def
        usable_region_def frames_between_def upt_rec)
qed

lemma ref_memory_good: "ref_good ref_memory 0x1000" "read_entry ref_memory f i =
    (if f = 0x3000 \<and> i = 0 then 0x4007 else if f = 0x2000 \<and> i = 0 then 0x3007 else if f = 0x1000 \<and> i = 1 then 0x2007 else 0)"
  by (auto simp: ref_memory_def ref_good_def read_write_entry read_entry_zero)

lemma sample_segments_load:
  assumes "ref_free pm 0x10000 0" and fs: "global_ok fs" "global_avail fs = [0x11000, 0x12000, 0x13000]"
  shows "\<exists>m. load_segments_and_stack elf_platform sample_elf 0x10000 args (pm, fs)
    = Inr (Some (0x8000000000, 0x8000002FF0, 0x8000003000, of_nat (length args)), m)"
proof -
  have pages: "ref_page 0 = 0x8000000000" "ref_page 2 = 0x8000002000" "ref_page 3 = 0x8000003000" by (simp_all add: ref_page_def)
  obtain pm1 fs1 where m1: "map_segment elf_platform 0x10000 [0xB8, 2, 0xCD, 0x80] 0x8000000000 8 False (pm, fs) = Inr (Some (), pm1, fs1)"
      "ref_free pm1 0x10000 1" "global_ok fs1" "global_avail fs1 = [0x12000, 0x13000]"
    using ref_map_segment [OF assms(1) _ fs, where sz = 8 and bs = "[0xB8, 2, 0xCD, 0x80]" and w = False] pages by auto
  have f2: "ref_free pm1 0x10000 2" using m1(2) by (simp add: ref_free_def)
  obtain pm2 fs2 where m2: "map_segment elf_platform 0x10000 [] 0x8000002000 4096 True (pm1, fs1) = Inr (Some (), pm2, fs2)"
      "ref_free pm2 0x10000 3" "global_ok fs2" "global_avail fs2 = [0x13000]"
    using ref_map_segment [OF f2 _ m1(3,4), where sz = 4096 and bs = "[]" and w = True] pages by auto
  obtain pm3 fs3 where m3: "map_segment elf_platform 0x10000 args 0x8000003000 4096 False (pm2, fs2) = Inr (Some (), pm3, fs3)"
    using ref_map_segment [OF m2(2) _ m2(3,4), where sz = 4096 and bs = args and w = False] pages by auto
  have h: "load_headers elf_platform sample_elf 0x10000 64 56 [0] 0 (pm, fs) = Inr (Some 0x8000000008, pm1, fs1)"
    by (simp add: load_segment_parse sample_parse_header m1(1) checked_add_def)
  have a: "align_up 0x8000000008 PAGE_SIZE = Inr (Some 0x8000001000)"
    by (simp add: align_up_def sub_ovf_def checked_sub_def checked_add_def PAGE_SIZE_def)
  have v: "virt_try_new x86_ref 0x8000000000 = Some 0x8000000000" "virt_try_new x86_ref 0x8000002FF0 = Some 0x8000002FF0"
      "virt_try_new x86_ref 0x8000003000 = Some 0x8000003000"
    using ref_page_containing(1) [of 0 "0x8000000000" 0] ref_page_containing(1) [of 2 "0x8000002FF0" "0xFF0"]
      ref_page_containing(1) [of 3 "0x8000003000" 0] by simp_all
  show ?thesis
    unfolding load_segments_and_stack_def sample_fields
    using h a v m2(1) m3 by (simp add: size_consts checked_add_def checked_sub_def upt_rec)
qed

lemma sample_loads:
  "\<exists>elf m. load elf_platform sample_elf 0x8000000000 [1, 2] 0x1000 (ref_memory, ref_frames) = Inr (Some (0x10000, elf), m)
     \<and> elf_entry elf = 0x8000000000 \<and> elf_stack_top elf = 0x8000002FF0 \<and> elf_args_ptr elf = 0x8000003000"
proof -
  obtain pm fs where n: "new_address_space x86_ref (global_allocate_frame x86_ref) 0x8000000000 0x1000 ref_memory ref_frames = Inr (0x10000, pm, fs)"
      "global_ok fs" "global_avail fs = [0x11000, 0x12000, 0x13000]"
      "\<And>i. i < 512 \<Longrightarrow> read_entry pm 0x10000 i = (if i = 0 \<or> i = p_index x86_ref 4 0x8000000000 then read_entry ref_memory 0x1000 i else 0)"
      "\<And>frame. frame \<noteq> 0x10000 \<Longrightarrow> pm frame = ref_memory frame"
    using new_address_space_table [OF x86_ref_laws ref_frames_avail, of "0x1000" "0x8000000000" ref_memory] by auto
  have "p_index x86_ref 4 0x8000000000 = 1" using ref_page_index(1) [of 0] by (simp add: ref_page_def)
  moreover have "read_entry pm f i = read_entry ref_memory f i" if "f \<noteq> 0x10000" for f i
    using n(5) [OF that] by (simp add: read_entry_def)
  ultimately have "ref_free pm 0x10000 0" using n(4) by (auto simp: ref_free_def ref_good_def ref_memory_good(2))
  from sample_segments_load [OF this n(2,3), of "[1, 2]"] n(1) show ?thesis
    by (auto simp: load_def sample_header)
qed

lemma ref_state:
  "ref_tables ref_memory 0x1000 \<inter> set (global_avail ref_frames) = {}" "0x1000 \<in> ref_tables ref_memory 0x1000"
  "distinct (global_avail ref_frames)" "length (global_avail ref_frames) < 2 ^ 35"
  by (simp_all add: ref_frames_avail ref_tables_def)

theorem load_program_image_witness:
  "\<exists>elf m'. load elf_platform sample_elf 0x8000000000 [1, 2] 0x1000 (ref_memory, ref_frames) = Inr (Some (0x10000, elf), m')
     \<and> segment_in_place elf_platform (fst m') 0x10000 ([0xB8, 2, 0xCD, 0x80], 0x8000000000, 8, False)"
proof -
  obtain elf m' where l: "load elf_platform sample_elf 0x8000000000 [1, 2] 0x1000 (ref_memory, ref_frames) = Inr (Some (0x10000, elf), m')"
    using sample_loads by blast
  have "elf_segments sample_elf = Some [([0xB8, 2, 0xCD, 0x80], 0x8000000000, 8, False)]"
    by (simp add: elf_segments_def sample_fields sample_parse_header upt_rec)
  then show ?thesis
    using load_program_image [OF ref_mapper_laws _ _ _ _ _ _ _ l] ref_memory_good(1) ref_state ref_frames_avail(1) l x86_ref_laws
    by auto
qed

text \<open>The same file with one byte of the size in memory changed: the segment now takes a terabyte.\<close>

lemma huge_fields:
  "header_ok (sample_elf[109 := 1])" "read_u64 (sample_elf[109 := 1]) 0 32 = Some 64" "read_u16 (sample_elf[109 := 1]) 0 54 = Some 56"
  "read_u16 (sample_elf[109 := 1]) 0 56 = Some 1"
  "parse_header (sample_elf[109 := 1]) 64 56 0 = Some (Some ([0xB8, 2, 0xCD, 0x80], 0x8000000000, 0x10000000008, False))"
  by (simp_all add: sample_elf_def parse_header_def header_ok_def read_u16_def read_u32_def read_u64_def field_def checked_add_def
    checked_mul_def get_range_def elf_consts)

theorem oversized_segment_panics_witness:
  "\<not> returns (load elf_platform (sample_elf[109 := 1]) 0x8000000000 [] 0x1000 (ref_memory, ref_frames))"
proof (rule oversized_segment_panics [OF ref_mapper_laws])
  show "x86_laws (x86 elf_platform)" by (simp add: x86_ref_laws)
  show "parse_header (sample_elf[109 := 1]) 64 (ucast (56 :: u16)) 0 = Some (Some ([0xB8, 2, 0xCD, 0x80], 0x8000000000, 0x10000000008, False))"
    using huge_fields(5) by simp
  show "segment_ok ([0xB8, 2, 0xCD, 0x80], 0x8000000000, 0x10000000008, False)" by (simp add: segment_ok_def)
qed (use ref_memory_good(1) ref_state ref_frames_avail huge_fields in auto)

end
