(* ===== verification/Syscall_Sample.thy ===== *)
theory Syscall_Sample
  imports Syscall_Types Elf_Sample
begin

text \<open>
  A concrete kernel in which a program with one writable page at 0x8000000000 calls the kernel, on
  which the properties of the system calls are applied.
\<close>

definition user_memory :: "(nat \<Rightarrow> u8) \<Rightarrow> pmem" where
  "user_memory page = (write_entry ref_memory 0x4000 0 0x5007)(0x5000 := page)"

definition hi_page :: "nat \<Rightarrow> u8" where
  "hi_page i = (if i = 0 then 0x68 else if i = 1 then 0x69 else 0)"

lemma user_memory_entries:
  assumes "f \<noteq> 0x5000"
  shows "read_entry (user_memory page) f i = (if f = 0x1000 \<and> i = 1 then 0x2007 else if f = 0x2000 \<and> i = 0 then 0x3007
    else if f = 0x3000 \<and> i = 0 then 0x4007 else if f = 0x4000 \<and> i = 0 then 0x5007 else 0)"
proof -
  have "read_entry (user_memory page) f i = read_entry (write_entry ref_memory 0x4000 0 0x5007) f i"
    using assms by (simp add: read_entry_def user_memory_def)
  then show ?thesis by (simp add: ref_memory_def read_write_entry read_entry_zero)
qed

lemma user_memory_good: "ref_good (user_memory page) 0x1000"
  by (auto simp: ref_good_def user_memory_entries)

definition sample_page :: "u64 \<Rightarrow> bool" where
  "sample_page a \<longleftrightarrow> p_index x86_ref 4 a = 1 \<and> p_index x86_ref 3 a = 0 \<and> p_index x86_ref 2 a = 0 \<and> p_index x86_ref 1 a = 0"

text \<open>The kernel: thread 1 of two runs, with the one page in its address space.\<close>

definition sample_caller :: "(nat \<Rightarrow> u8) \<Rightarrow> ((u64 \<times> u64) list, ata_view) kernel \<Rightarrow> bool" where
  "sample_caller page k \<longleftrightarrow> kernel_ok x86_ref k \<and> cr3 (cpu_regs k) = 0x1000 \<and> memory k = user_memory page
     \<and> disk k = ref_idle \<and> heap k = [] \<and> physical_memory_offset k = Some 0 \<and> writer_ok (screen k) \<and> input k = InputQueue_push (InputQueue_push InputQueue_new 0x61) 0x62
     \<and> (\<exists>st. scheduler k = Some st \<and> current st = 1 \<and> zombie st = None)"

lemma sample_heap_room: "heap_room sample_platform [] 3"
proof -
  have "fst (sample_alloc 3 1 []) = HEAP_START" by (simp add: sample_alloc_def upt_conv_Cons)
  then show ?thesis by (simp add: heap_room_def sample_platform_def HEAP_START_def)
qed

lemma sample_caller_exists: "\<exists>k. sample_caller page k"
proof -
  obtain k0 st0 where k0: "reachable sample_platform set k0" "scheduler k0 = Some st0" "rotation st0 = [0..<2]" "zombie st0 = None"
    using sample_two by (auto simp: sample_state_def)
  have ok: "sched_ok (x86 sample_platform) st0" by (rule reachable_sched_ok [OF sample_platform_ok k0(1,2)])
  have "reapable sample_platform k0" using k0 by (simp add: reapable_def)
  then obtain st where st: "sched_ok (x86 sample_platform) st" "rotation st = rotate1 (rotation st0)" "zombie st = None"
    using schedule_rotates [OF k0(2) ok] by blast
  have "[0..<2] = [0, 1 :: nat]" by (simp add: upt_rec)
  then have "current st = 1" using st(2) k0(3) by (simp add: rotation_def)
  moreover have "x86 sample_platform = x86_ref" by (simp add: sample_platform_def)
  moreover have "writer_ok (writer_init (replicate 25 (replicate 80 \<lparr>ascii_character = 0x20, cell_color = 0x0E\<rparr>)))"
    by (rule writer_init_ok) (simp_all add: vga_consts)
  ultimately have "sample_caller page (sample_kernel\<lparr>scheduler := Some st, memory := user_memory page,
      screen := writer_init (replicate 25 (replicate 80 \<lparr>ascii_character = 0x20, cell_color = 0x0E\<rparr>)),
      input := InputQueue_push (InputQueue_push InputQueue_new 0x61) 0x62\<rparr>)"
    using st by (simp add: sample_caller_def kernel_ok_def sample_kernel_def sample_cpu_def)
  then show ?thesis by blast
qed

lemma sample_page_at:
  assumes "sample_caller page k"
  shows "page_at sample_platform k a w \<longleftrightarrow> sample_page a"
proof -
  have "p_index x86_ref l (page_containing x86_ref a) = p_index x86_ref l a" if "l \<in> {1, 2, 3, 4}" for l
    by (rule p_index_page [OF x86_ref_laws that])
  then have t: "ref_table (user_memory page) 0x1000 (page_containing x86_ref a) \<and> p_index x86_ref 1 (page_containing x86_ref a) = 0
      \<longleftrightarrow> sample_page a"
    using user_memory_entries [of "0x1000" page 1] by (auto simp: ref_table_def sample_page_def)
  have "leaf_accessible (read_entry (user_memory page) 0x4000 i) w \<longleftrightarrow> i = 0" for i
    by (auto simp: user_memory_entries leaf_accessible_def flags_contain_def)
  then show ?thesis
    using t assms ref_accessible [OF user_memory_good] by (simp add: page_at_def sample_caller_def sample_platform_def)
qed

lemma sample_frame_of:
  assumes "sample_caller page k" and "sample_page a"
  shows "frame_of sample_platform k a = Some 0x5000"
proof -
  have "entry_frame x86_ref 0x5007 = Inr 0x5000" by (simp add: x86_ref_def)
  then have "translate_levels x86_ref (user_memory page) a [4, 3, 2, 1] 0x1000 = Inr (Some 0x5000)"
    using assms(2) by (simp add: sample_page_def user_memory_entries)
  then show ?thesis using assms(1) unfolding frame_of_def sample_caller_def sample_platform_def by (simp del: translate_levels.simps)
qed

lemma sample_walked: "walked x86_ref (user_memory page) a [4, 3, 2, 1] 0x1000 \<subseteq> {0x1000, 0x2000, 0x3000, 0x4000}"
proof -
  have "entry_frame x86_ref 0 = Inl FrameNotPresent" "entry_frame x86_ref 0x5007 = Inr 0x5000" by (simp_all add: x86_ref_def)
  then show ?thesis by (auto simp: user_memory_entries split: if_splits)
qed

lemma sample_page_low:
  assumes "sample_page a" and "unat a < 2 ^ 47"
  shows "page_containing x86_ref a = 0x8000000000"
proof -
  define u where "u = unat a"
  have i: "u div 2 ^ 39 mod 512 = 1" "u div 2 ^ 30 mod 512 = 0" "u div 2 ^ 21 mod 512 = 0" "u div 2 ^ 12 mod 512 = 0"
    using assms(1) ref_index [of _ a] by (simp_all add: sample_page_def u_def)
  have "u div 2 ^ 39 < 512" using assms(2) by (simp add: u_def div_less_iff_less_mult)
  then have a: "u div 2 ^ 39 = 1" using i(1) by simp
  have step: "u div n = u div (n * 512) * 512 + u div n mod 512" for n :: nat
    using div_mult_mod_eq [of "u div n" 512] by (simp add: div_mult2_eq)
  have b: "u div 2 ^ 30 = 512" using step [of "2 ^ 30"] a i(2) by simp
  have c: "u div 2 ^ 21 = 512 * 512" using step [of "2 ^ 21"] b i(3) by simp
  have d: "u div 2 ^ 12 = 512 * 512 * 512" using step [of "2 ^ 12"] c i(4) by simp
  have "unat (page_containing x86_ref a) = u div 4096 * 4096"
    using page_containing_unat [OF x86_ref_laws, of a] by (simp add: u_def)
  then have "unat (page_containing x86_ref a) = unat (0x8000000000 :: u64)" using d by simp
  then show ?thesis by (simp add: word_unat_eq_iff)
qed

lemma sample_ready:
  assumes k: "sample_caller page k"
  shows "syscall_ready sample_platform k"
proof -
  have x: "x86 sample_platform = x86_ref" by (simp add: sample_platform_def)
  have low: "unat a < 2 ^ 47" if "canonical a" "sample_page a" for a
  proof (rule ccontr)
    assume "\<not> unat a < 2 ^ 47"
    then have "2 ^ 64 - 2 ^ 47 \<le> unat a" using canonical_high [OF that(1)] by simp
    then have r: "65535 * 512 + 256 \<le> unat a div 2 ^ 39" "unat a div 2 ^ 39 < 65536 * 512"
      using unat_u64_less [of a] by (simp_all add: less_eq_div_iff_mult_less_eq div_less_iff_less_mult)
    then have "unat a div 2 ^ 39 div 512 = 65535" by (intro div_nat_eqI) simp_all
    then have "unat a div 2 ^ 39 mod 512 \<noteq> 1" using r(1) div_mult_mod_eq [of "unat a div 2 ^ 39" 512] by simp
    then show False using that(2) ref_index [of 4 a] by (simp add: sample_page_def)
  qed
  have "0x5000 \<notin> walked x86_ref (user_memory page) b [4, 3, 2, 1] 0x1000" for b
    using sample_walked [of page b] by (auto simp del: walked.simps One_nat_def)
  then have "user_space sample_platform k"
    unfolding user_space_def sample_page_at [OF k] x
    using low sample_frame_of [OF k] sample_page_low k by (auto simp: sample_caller_def simp del: walked.simps One_nat_def)
  then show ?thesis
    using k x86_ref_laws x by (auto simp: syscall_ready_def sample_caller_def reapable_def kernel_ok_def input_queue_ok_def
      InputQueue_push_def InputQueue_new_def INPUT_QUEUE_CAPACITY_def)
qed

text \<open>The bytes of the page.\<close>

lemma sample_address:
  assumes "i < 4096"
  shows "sample_page (0x8000000000 + of_nat i)" and "unat (0x8000000000 + of_nat i :: u64) = 2 ^ 39 + i"
    and "unat (take_bit 12 (0x8000000000 + of_nat i :: u64)) = i"
proof -
  have "unat (of_nat i :: u64) = i" using assms by (intro unat_of_nat_u64) simp
  then show u: "unat (0x8000000000 + of_nat i :: u64) = 2 ^ 39 + i" using assms by (simp add: unat_word_ariths)
  have "page_containing x86_ref (0x8000000000 + of_nat i) = ref_page 0"
    by (rule ref_page_containing(2) [where j = i]) (use u assms in simp_all)
  then have "p_index x86_ref l (ref_page 0) = p_index x86_ref l (0x8000000000 + of_nat i)" if "l \<in> {1, 2, 3, 4}" for l
    using p_index_page [OF x86_ref_laws that, of "0x8000000000 + of_nat i"] by simp
  from this [of 1] this [of 2] this [of 3] this [of 4]
  show "sample_page (0x8000000000 + of_nat i)" using ref_page_index [of 0] by (simp add: sample_page_def)
  have "unat (take_bit 12 (0x8000000000 + of_nat i :: u64)) = take_bit 12 (unat (0x8000000000 + of_nat i :: u64))"
    by (rule unsigned_take_bit_eq)
  also have "\<dots> = (2 ^ 39 + i) mod 4096" unfolding u by (simp add: take_bit_eq_mod)
  also have "\<dots> = i" using assms mod_mult_self2 [of i 4096 134217728] by (simp add: add.commute)
  finally show "unat (take_bit 12 (0x8000000000 + of_nat i :: u64)) = i" .
qed

lemma sample_range:
  assumes k: "sample_caller page k" and "n \<le> 4096"
  shows "user_range sample_platform k 0x8000000000 n w"
proof -
  have "canonical 0x8000000000" using lower_half [of "0x8000000000"] by simp
  then have "virt_try_new (x86 sample_platform) 0x8000000000 \<noteq> None" by (simp add: sample_platform_def x86_ref_def)
  then show ?thesis using sample_address(1) assms(2) by (simp add: user_range_def sample_page_at [OF k])
qed

lemma sample_byte:
  assumes "sample_caller page k" and "i < 4096"
  shows "byte_at sample_platform k (0x8000000000 + of_nat i) = page i"
  using sample_frame_of [OF assms(1) sample_address(1) [OF assms(2)]] sample_address(3) [OF assms(2)] assms(1)
  by (simp add: byte_at_def sample_caller_def user_memory_def)

lemma sample_input: "sample_caller page k \<Longrightarrow> input_list (input k) = [0x61, 0x62]"
  by (simp add: sample_caller_def input_list_def ring_list_def InputQueue_push_def InputQueue_new_def
    INPUT_QUEUE_CAPACITY_def upt_rec Let_def)

section \<open>Witnesses\<close>

theorem sys_write_outcome_witness:
  "\<exists>k w. sys_write sample_platform 1 0x8000000000 2 k = give 2 (k\<lparr>screen := w\<rparr>)
     \<and> write_string [0x68, 0x69] (screen k) = Inr w"
proof -
  obtain k where k: "sample_caller hi_page k" using sample_caller_exists by blast
  have b: "bytes_at sample_platform k 0x8000000000 2 = [0x68, 0x69]"
    using sample_byte [OF k, of 0] sample_byte [OF k, of 1] by (simp add: bytes_at_def upt_rec numeral_2_eq_2 hi_page_def)
  have "unat (min 2 1024 :: u64) = 2" by (simp add: min_def)
  then show ?thesis
    using sys_write_outcome [OF sample_ready [OF k], of 1 "0x8000000000" 2] sample_range [OF k, of 2 False] b by (auto simp: min_def)
qed

theorem sys_read_keyboard_witness:
  "\<exists>k k'. sys_read sample_platform 0 0x8000000000 1 k = give 1 k' \<and> bytes_at sample_platform k' 0x8000000000 1 = [0x61]
     \<and> input_list (input k) = [0x61, 0x62] \<and> input_list (input k') = [0x62]"
proof -
  obtain k where k: "sample_caller hi_page k" using sample_caller_exists by blast
  have "unat (min 1 256 :: u64) = 1" by (simp add: min_def)
  then obtain q k' where h: "sys_read sample_platform 0 0x8000000000 1 k = give 1 k'"
      "delivered sample_platform 0x8000000000 [0x61] (k\<lparr>input := q\<rparr>) k'" "input_list q = [0x62]"
    using sys_read_keyboard [OF sample_ready [OF k], of 1 "0x8000000000"] sample_range [OF k, of 1 True] sample_input [OF k]
    by (auto simp: Let_def)
  have "k' = k\<lparr>input := q, memory := memory k'\<rparr>" using h(2) by (simp add: delivered_def)
  then have "input k' = q" by (metis kernel.select_convs(10) kernel.surjective kernel.update_convs(7) kernel.update_convs(10))
  then show ?thesis using h sample_input [OF k] by (auto simp: delivered_def)
qed

theorem sys_read_open_file_witness:
  "\<exists>k k'. sys_read sample_platform 2 0x8000000000 5 k = give 2 k' \<and> bytes_at sample_platform k' 0x8000000000 2 = [8, 9]
     \<and> sys_read sample_platform 3 0x8000000000 5 k = give u64_MAX k"
proof -
  obtain k where k: "sample_caller hi_page k" using sample_caller_exists by blast
  note ready = sample_ready [OF k]
  obtain st where st: "scheduler k = Some st" "sched_ok (x86 sample_platform) st" using syscall_readyD(8) [OF ready] by blast
  obtain t where t: "current_thread k = Some t" by (rule sched_ok_current [OF st(2)]) (use st in \<open>simp add: current_thread_def\<close>)
  let ?f = "\<lparr>file_data = [7, 8, 9], file_offset = 1\<rparr>" and ?fs = "[Some \<lparr>file_data = [7, 8, 9], file_offset = 1\<rparr>, None, None, None]"
  have files: "files_ok (t\<lparr>open_files := ?fs\<rparr>)" by (simp add: files_ok_def MAX_OPEN_FILES_def)
  have k1: "kernel_ok (x86 sample_platform) (with_files k ?fs)" "current_thread (with_files k ?fs) = Some (t\<lparr>open_files := ?fs\<rparr>)"
    using file_call [OF syscall_readyD(2) [OF ready] t, of "\<lambda>t. Inr ((), t\<lparr>open_files := ?fs\<rparr>)"] files by auto
  note after = syscall_ready_with_files [OF ready t k1(1)]
  have fd: "fd_file (t\<lparr>open_files := ?fs\<rparr>) 2 = Some ?f" "fd_file (t\<lparr>open_files := ?fs\<rparr>) 3 = None"
    by (simp_all add: fd_file_def FIRST_FILE_FD_def)
  have r: "user_range sample_platform (with_files k ?fs) 0x8000000000 5 True"
    unfolding user_range_same [OF after(2)] by (rule sample_range [OF k]) simp
  have n: "unat (min 5 256 :: u64) = 5" by (simp add: min_def)
  have "sys_read sample_platform 3 0x8000000000 5 (with_files k ?fs) = give u64_MAX (with_files k ?fs)"
    using sys_read_open_file [OF after(1) _ k1(2), of 5 3 "0x8000000000"] r n fd(2) by (simp add: Let_def)
  moreover obtain k' where "sys_read sample_platform 2 0x8000000000 5 (with_files k ?fs) = give 2 k'"
      "bytes_at sample_platform k' 0x8000000000 (Suc (Suc 0)) = [8, 9]"
    using sys_read_open_file [OF after(1) _ k1(2), of 5 2 "0x8000000000"] r n fd(1) by (auto simp: Let_def unread_def delivered_def)
  ultimately show ?thesis unfolding numeral_2_eq_2 by blast
qed

theorem sys_wait_outcome_witness:
  "\<exists>k k' others. sys_wait sample_platform others (pack_pid 1 1) k = give 0 k' \<and> alive (pack_pid 1 1) k"
proof -
  let ?k0 = "sample_kernel\<lparr>scheduler := Some (initial_state 0x1000)\<rparr>"
  have r0: "reachable sample_platform set ?k0" using sample_one by (simp add: sample_state_def)
  have laws: "heap_laws sample_platform set" "x86_laws (x86 sample_platform)" using sample_platform_ok by (auto simp: platform_ok_def)
  have so: "sched_ok (x86 sample_platform) (initial_state 0x1000)" by (rule reachable_sched_ok [OF sample_platform_ok r0]) simp
  have "sample_alloc STACK_SIZE 4096 (heap ?k0) = (HEAP_START, [(HEAP_START, STACK_SIZE)])" "HEAP_START \<noteq> 0"
    using sample_heap_first by (simp_all add: sample_kernel_def HEAP_START_def)
  then obtain k where k: "sample_state k 2" "spawn sample_platform 0x205000 ?k0 = Inr ((), k)"
    using sample_spawn [OF sample_one] by (force simp: numeral_2_eq_2)
  obtain i where sp: "spawned sample_platform 0x205000 None None i ?k0 k" using spawn_spawned [OF laws(1) k(2)] by blast
  have "scheduler ?k0 = Some (initial_state 0x1000)" by simp
  from spawned_rotation [OF laws this so sp] obtain st t where st: "scheduler k = Some st" "position (\<lambda>t. t = None) (threads (initial_state 0x1000)) = Some i"
      "threads st = (threads (initial_state 0x1000))[i := Some t]"
      "slot_generations st = (slot_generations (initial_state 0x1000))[i := slot_generations (initial_state 0x1000) ! i + 1]"
    by blast
  have i: "i = 1" using st(2) by (auto simp: initial_state_def position_Some_iff numeral_eq_Suc)
  have pid: "unpack_pid (pack_pid 1 1) = (1, 1)" by (simp add: unpack_pack_pid)
  have rk: "reachable sample_platform set k" "zombie st = None" using k(1) st(1) by (auto simp: sample_state_def)
  have ok: "kernel_ok (x86 sample_platform) ?k0" "kernel_ok (x86 sample_platform) k"
    using reachable_ok [OF sample_platform_ok] r0 rk(1) by blast+
  have sk: "sched_ok (x86 sample_platform) st" using ok(2) st(1) by (simp add: kernel_ok_def)
  have s: "sane sample_platform ?k0" "sane sample_platform k"
    using ok st(1) rk(2) by (simp_all add: sane_def reapable_def initial_state_def)
  have al: "alive (pack_pid 1 1) k" "\<not> alive (pack_pid 1 1) ?k0"
    using thread_alive_eq [OF st(1) sk pid] thread_alive_eq [OF _ so pid, of ?k0] st(3,4) i
    by (simp_all add: alive_def initial_state_def MAX_THREADS_def)
  have const: "wait_round sample_platform (\<lambda>_. ?k0) x = ?k0" if "sane sample_platform x" for x
    using yield_total [OF that] by (auto simp: wait_round_def)
  have "(wait_round sample_platform (\<lambda>_. ?k0) ^^ n) k = (if n = 0 then k else ?k0)" for n
    by (induction n) (auto simp: const s)
  moreover from this have "(LEAST n. \<not> alive (pack_pid 1 1) ((wait_round sample_platform (\<lambda>_. ?k0) ^^ n) k)) = 1"
    using al const [OF s(2)] by (intro Least_equality) (auto split: if_splits)
  moreover have "\<exists>n. \<not> alive (pack_pid 1 1) ((wait_round sample_platform (\<lambda>_. ?k0) ^^ n) k)"
    using calculation(1) [of 1] al(2) by (metis one_neq_zero)
  ultimately have "sys_wait sample_platform (\<lambda>_. ?k0) (pack_pid 1 1) k = give 0 ?k0"
    using sys_wait_outcome [of sample_platform "\<lambda>_. ?k0" k "pack_pid 1 1"] s al(1) const [OF s(2)] by simp
  then show ?thesis using al(1) by blast
qed

theorem dispatch_keeps_types_witness:
  "\<exists>k k'. dispatch sample_platform (\<lambda>k. k) SYS_EXIT 0 0 0 0 k = Some (Inr (Gone, k')) \<and> well_typed sample_platform k'"
proof -
  obtain k where k: "sample_caller hi_page k" using sample_caller_exists by blast
  note ready = sample_ready [OF k]
  obtain k' where "exit_current_thread sample_platform k = Inr k'" using exit_gone [OF ready] by blast
  then have d: "dispatch sample_platform (\<lambda>k. k) SYS_EXIT 0 0 0 0 k = Some (Inr (Gone, k'))"
    by (simp add: dispatch_def syscall_numbers)
  have "well_typed sample_platform k" using syscall_readyD(2,5,6) [OF ready] by (simp add: well_typed_def)
  then have "well_typed sample_platform k'"
    using dispatch_keeps_types [OF sample_heap_laws syscall_readyD(1) [OF ready] _ _ d] by simp
  then show ?thesis using d by blast
qed

end
