(* ===== verification/Executor.thy ===== *)
theory Executor
  imports Keyboard
begin

text \<open>
  The executor of kernel tasks (\<open>src/task/mod.rs\<close>, \<open>src/task/executor.rs\<close>): task ids, wakers that
  put the id of their task on the queue of ready tasks, the loop that polls the tasks of the queue,
  and the loop around it that halts the processor while the queue is empty.

  The queue is a \<open>crossbeam_queue::ArrayQueue\<close>, of which the model has the two operations \<open>aq_push\<close>
  (\<open>None\<close> for the error of a full queue) and \<open>aq_pop\<close> as arguments; the interface \<open>bounded_fifo\<close> states
  what it promises. A future is a value of any type, with a function \<open>poll_future\<close> that takes the task
  id of the waker, the future and the state of the rest of the machine, and gives the outcome, the
  future and the state after it, and the ids of the tasks whose wakers were called in between.
\<close>

section \<open>Tasks\<close>

type_synonym task_id = u64

record 'f task =
  task_id :: task_id
  task_future :: 'f

text \<open>\<open>TaskId::new\<close>: the counter \<open>NEXT_ID\<close> before the increment; \<open>fetch_add\<close> wraps around.\<close>

definition TaskId_new :: "u64 \<Rightarrow> task_id \<times> u64" where
  "TaskId_new next_id = (next_id, next_id + 1)"

definition Task_new :: "'f \<Rightarrow> u64 \<Rightarrow> 'f task \<times> u64" where
  "Task_new future next_id = (let (i, next_id) = TaskId_new next_id in (\<lparr>task_id = i, task_future = future\<rparr>, next_id))"

definition Task_poll ::
  "(task_id \<Rightarrow> 'f \<Rightarrow> 'e \<Rightarrow> unit poll \<times> 'f \<times> 'e \<times> task_id list) \<Rightarrow> task_id \<Rightarrow> 'f task \<Rightarrow> 'e
   \<Rightarrow> unit poll \<times> 'f task \<times> 'e \<times> task_id list" where
  "Task_poll poll_future waker t e =
     (let (r, f, e, woken) = poll_future waker (task_future t) e in (r, t\<lparr>task_future := f\<rparr>, e, woken))"

section \<open>The executor\<close>

definition MAX_QUEUED_TASKS :: nat where "MAX_QUEUED_TASKS = 128"

text \<open>
  A \<open>BTreeMap\<close> is a partial function. A \<open>TaskWaker\<close> is the id of its task: the queue it also holds is
  the executor's.
\<close>

record ('f, 'q) executor =
  tasks :: "task_id \<Rightarrow> 'f task option"
  task_queue :: 'q
  waker_cache :: "task_id \<Rightarrow> task_id option"

definition Executor_new :: "(nat \<Rightarrow> 'q) \<Rightarrow> ('f, 'q) executor" where
  "Executor_new aq_new = \<lparr>tasks = (\<lambda>_. None), task_queue = aq_new MAX_QUEUED_TASKS, waker_cache = (\<lambda>_. None)\<rparr>"

text \<open>The decimal digits of a number, for the \<open>Debug\<close> form of a task id.\<close>

fun digits :: "nat \<Rightarrow> string" where
  "digits n = (if n < 10 then [char_of (48 + n)] else digits (n div 10) @ [char_of (48 + n mod 10)])"

definition wake_task ::
  "('q \<Rightarrow> task_id \<Rightarrow> 'q option) \<Rightarrow> task_id \<Rightarrow> 'q \<times> writer \<Rightarrow> ('q \<times> writer) result" where
  "wake_task aq_push waker s =
     (case s of (q, screen) \<Rightarrow>
        (case aq_push q waker of
           Some q \<Rightarrow> Inr (q, screen)
         | None \<Rightarrow>
             bind_result (println (''WARNING: executor ready queue full; dropping a wakeup for task TaskId(''
               @ digits (unat waker) @ '')'') screen) (\<lambda>screen. Inr (q, screen))))"

definition Executor_spawn ::
  "('q \<Rightarrow> task_id \<Rightarrow> 'q option) \<Rightarrow> 'f task \<Rightarrow> ('f, 'q) executor \<Rightarrow> ('f, 'q) executor result" where
  "Executor_spawn aq_push t ex =
     (let i = task_id t;
          old = tasks ex i;
          ex = ex\<lparr>tasks := (tasks ex)(i := Some t)\<rparr> in
      if old \<noteq> None then panic ''task with same ID already in tasks''
      else bind_result (expect ''task_queue full'' (aq_push (task_queue ex) i)) (\<lambda>q. Inr (ex\<lparr>task_queue := q\<rparr>)))"

text \<open>
  The body of the loop of \<open>run_ready_tasks\<close> for an id that was taken off the queue. The wakers that
  a poll calls are called before it returns.
\<close>

definition run_task ::
  "('q \<Rightarrow> task_id \<Rightarrow> 'q option) \<Rightarrow> (task_id \<Rightarrow> 'f \<Rightarrow> 'e \<Rightarrow> unit poll \<times> 'f \<times> 'e \<times> task_id list) \<Rightarrow> task_id
   \<Rightarrow> ('f, 'q) executor \<times> writer \<times> 'e \<Rightarrow> (('f, 'q) executor \<times> writer \<times> 'e) result" where
  "run_task aq_push poll_future i s =
     (case s of (ex, screen, e) \<Rightarrow>
        (case tasks ex i of
           None \<Rightarrow> Inr s
         | Some t \<Rightarrow>
             (let waker = (case waker_cache ex i of Some w \<Rightarrow> w | None \<Rightarrow> i);
                  ex = ex\<lparr>waker_cache := (waker_cache ex)(i := Some waker)\<rparr>;
                  (r, t, e, woken) = Task_poll poll_future waker t e in
              bind_result (for_each woken (wake_task aq_push) (task_queue ex, screen)) (\<lambda>(q, screen).
              let ex = ex\<lparr>tasks := (tasks ex)(i := Some t), task_queue := q\<rparr> in
              case r of
                Ready _ \<Rightarrow> Inr (ex\<lparr>tasks := (tasks ex)(i := None), waker_cache := (waker_cache ex)(i := None)\<rparr>, screen, e)
              | Pending \<Rightarrow> Inr (ex, screen, e)))))"

text \<open>The loop itself, which does not end while tasks keep waking each other.\<close>

partial_function (option) run_ready_tasks ::
  "('q \<Rightarrow> task_id \<Rightarrow> 'q option) \<Rightarrow> ('q \<Rightarrow> task_id option \<times> 'q)
   \<Rightarrow> (task_id \<Rightarrow> 'f \<Rightarrow> 'e \<Rightarrow> unit poll \<times> 'f \<times> 'e \<times> task_id list)
   \<Rightarrow> ('f, 'q) executor \<times> writer \<times> 'e \<Rightarrow> (('f, 'q) executor \<times> writer \<times> 'e) result option" where
  "run_ready_tasks aq_push aq_pop poll_future s =
     (case aq_pop (task_queue (fst s)) of
        (None, q) \<Rightarrow> Some (Inr ((fst s)\<lparr>task_queue := q\<rparr>, snd s))
      | (Some i, q) \<Rightarrow>
          (case run_task aq_push poll_future i ((fst s)\<lparr>task_queue := q\<rparr>, snd s) of
             Inl e \<Rightarrow> Some (Inl e)
           | Inr s \<Rightarrow> run_ready_tasks aq_push aq_pop poll_future s))"

section \<open>The main loop with interrupts\<close>

text \<open>
  The main loop is interleaved with interrupts operation by operation, and instruction by instruction
  in \<open>sleep_if_idle\<close>, so that the model has the windows in which a wakeup can arrive. The points of \<open>run\<close> are: before the next \<open>pop\<close>; a task taken off
  the queue and not polled yet; the last \<open>pop\<close> found nothing; interrupts disabled, before the check of the
  queue in \<open>sleep_if_idle\<close>; the check found it empty, before \<open>enable_and_hlt\<close>, or not, before \<open>enable\<close>;
  and halted.
\<close>

datatype run_point = Polling | Taken task_id | Drained | Checking | Idle | Busy | Halted

record ('f, 'q, 'e) run_state =
  run_executor :: "('f, 'q) executor"
  run_screen :: writer
  run_env :: 'e
  run_at :: run_point
  run_interrupts :: bool

text \<open>
  The next instruction of \<open>sleep_if_idle\<close>. \<open>enable_and_hlt\<close> is one instruction: interrupts are enabled
  only once the processor has halted.
\<close>

definition sleep_if_idle :: "('q \<Rightarrow> bool) \<Rightarrow> ('f, 'q, 'e) run_state \<Rightarrow> ('f, 'q, 'e) run_state" where
  "sleep_if_idle aq_is_empty s =
     (case run_at s of
        Drained \<Rightarrow> s\<lparr>run_at := Checking, run_interrupts := False\<rparr>
      | Checking \<Rightarrow> s\<lparr>run_at := (if aq_is_empty (task_queue (run_executor s)) then Idle else Busy)\<rparr>
      | Idle \<Rightarrow> s\<lparr>run_at := Halted, run_interrupts := True\<rparr>
      | Busy \<Rightarrow> s\<lparr>run_at := Polling, run_interrupts := True\<rparr>
      | _ \<Rightarrow> s)"

text \<open>
  The steps of \<open>run\<close>: taking a task off the queue, polling it, the end of the polling loop, an
  instruction of \<open>sleep_if_idle\<close>, and an interrupt that calls any wakers (none, for the timer), which is
  possible at every point while interrupts are enabled and continues a halted processor. A step is
  labelled with the task that it polls, if any.
\<close>

inductive run_step for aq_push aq_pop aq_is_empty poll_future where
  step_take: "run_at s = Polling \<Longrightarrow> aq_pop (task_queue (run_executor s)) = (Some i, q) \<Longrightarrow>
    run_step aq_push aq_pop aq_is_empty poll_future s None
      (s\<lparr>run_executor := (run_executor s)\<lparr>task_queue := q\<rparr>, run_at := Taken i\<rparr>)"
| step_poll: "run_at s = Taken i \<Longrightarrow>
    run_task aq_push poll_future i (run_executor s, run_screen s, run_env s) = Inr (ex, screen, e) \<Longrightarrow>
    run_step aq_push aq_pop aq_is_empty poll_future s (Some i)
      (s\<lparr>run_executor := ex, run_screen := screen, run_env := e, run_at := Polling\<rparr>)"
| step_drained: "run_at s = Polling \<Longrightarrow> aq_pop (task_queue (run_executor s)) = (None, q) \<Longrightarrow>
    run_step aq_push aq_pop aq_is_empty poll_future s None
      (s\<lparr>run_executor := (run_executor s)\<lparr>task_queue := q\<rparr>, run_at := Drained\<rparr>)"
| step_sleep: "run_at s \<in> {Drained, Checking, Idle, Busy} \<Longrightarrow>
    run_step aq_push aq_pop aq_is_empty poll_future s None (sleep_if_idle aq_is_empty s)"
| step_interrupt: "run_interrupts s \<Longrightarrow>
    for_each woken (wake_task aq_push) (task_queue (run_executor s), run_screen s) = Inr (q, screen) \<Longrightarrow>
    run_step aq_push aq_pop aq_is_empty poll_future s None (s\<lparr>run_executor := (run_executor s)\<lparr>task_queue := q\<rparr>,
      run_screen := screen, run_env := e, run_at := (if run_at s = Halted then Polling else run_at s)\<rparr>)"

inductive run_trace for step where
  trace_start: "run_trace step s [] s"
| trace_step: "run_trace step s ls s' \<Longrightarrow> step s' l s'' \<Longrightarrow> run_trace step s (ls @ [l]) s''"

text \<open>The loop \<open>run_ready_tasks\<close> is a run of these steps, from the first \<open>pop\<close> to the last.\<close>

lemma run_trace_Cons:
  assumes "run_trace step s1 ls s'" and "step s l s1"
  shows "run_trace step s (l # ls) s'"
  using assms
proof induction
  case (trace_start s1)
  then show ?case using trace_step [where step = step and ls = "[]", OF run_trace.trace_start] by fastforce
next
  case (trace_step s1 ls s' l' s'')
  then show ?case using run_trace.trace_step [where step = step and ls = "l # ls"] by fastforce
qed

lemma run_ready_tasks_trace:
  assumes "run_ready_tasks push pop poll_future (run_executor r, run_screen r, run_env r) = Some (Inr s)" and "run_at r = Polling"
  shows "\<exists>ls r'. run_trace (run_step push pop is_empty poll_future) r ls r' \<and> run_at r' = Drained
    \<and> s = (run_executor r', run_screen r', run_env r')"
proof -
  define Q where "Q push' pop' poll' s0 res \<longleftrightarrow> (\<forall>r s. push' = push \<and> pop' = pop \<and> poll' = poll_future
      \<and> s0 = (run_executor r, run_screen r, run_env r) \<and> res = Inr s \<and> run_at r = Polling \<longrightarrow>
      (\<exists>ls r'. run_trace (run_step push pop is_empty poll_future) r ls r' \<and> run_at r' = Drained
        \<and> s = (run_executor r', run_screen r', run_env r')))" for push' pop' poll' s0 and res :: "_ result"
  have "Q push pop poll_future (run_executor r, run_screen r, run_env r) (Inr s)"
  proof (rule run_ready_tasks.raw_induct [where P = Q, OF _ assms(1)])
    fix rec push' pop' poll' s0 res
    assume IH: "\<And>a b c d y. rec a b c d = Some y \<Longrightarrow> Q a b c d y"
      and body: "(case pop' (task_queue (fst s0)) of
          (None, q) \<Rightarrow> Some (Inr ((fst s0)\<lparr>task_queue := q\<rparr>, snd s0))
        | (Some i, q) \<Rightarrow> (case run_task push' poll' i ((fst s0)\<lparr>task_queue := q\<rparr>, snd s0) of
             Inl e \<Rightarrow> Some (Inl e) | Inr s \<Rightarrow> rec push' pop' poll' s)) = Some res"
    show "Q push' pop' poll' s0 res"
      unfolding Q_def
    proof (intro allI impI; elim conjE)
      fix r :: "('a, 'b, 'c) run_state" and s
      assume h: "push' = push" "pop' = pop" "poll' = poll_future" "s0 = (run_executor r, run_screen r, run_env r)" "res = Inr s" "run_at r = Polling"
      obtain x q where p: "pop (task_queue (run_executor r)) = (x, q)" by (cases "pop (task_queue (run_executor r))")
      show "\<exists>ls r'. run_trace (run_step push pop is_empty poll_future) r ls r' \<and> run_at r' = Drained
          \<and> s = (run_executor r', run_screen r', run_env r')"
      proof (cases x)
        case None
        let ?r = "r\<lparr>run_executor := (run_executor r)\<lparr>task_queue := q\<rparr>, run_at := Drained\<rparr>"
        have "run_step push pop is_empty poll_future r None ?r" using p None h(6) by (intro step_drained) simp_all
        then have "run_trace (run_step push pop is_empty poll_future) r [None] ?r" by (rule run_trace_Cons [OF trace_start])
        then show ?thesis using body p None h by (intro exI [of _ "[None]"] exI [of _ ?r]) simp
      next
        case (Some i)
        obtain ex screen e where t: "run_task push poll_future i ((run_executor r)\<lparr>task_queue := q\<rparr>, run_screen r, run_env r) = Inr (ex, screen, e)"
            "rec push pop poll_future (ex, screen, e) = Some (Inr s)"
          using body p Some h by (auto split: sum.splits)
        let ?t = "r\<lparr>run_executor := (run_executor r)\<lparr>task_queue := q\<rparr>, run_at := Taken i\<rparr>"
          and ?r = "r\<lparr>run_executor := ex, run_screen := screen, run_env := e\<rparr>"
        have take: "run_step push pop is_empty poll_future r None ?t" using p Some h(6) by (intro step_take) simp_all
        have "run_step push pop is_empty poll_future ?t (Some i) (?t\<lparr>run_executor := ex, run_screen := screen, run_env := e, run_at := Polling\<rparr>)"
          using t(1) by (intro step_poll) simp_all
        moreover have "?t\<lparr>run_executor := ex, run_screen := screen, run_env := e, run_at := Polling\<rparr> = ?r" using h(6) by simp
        ultimately have step: "run_step push pop is_empty poll_future ?t (Some i) ?r" by simp
        obtain ls r' where "run_trace (run_step push pop is_empty poll_future) ?r ls r'" "run_at r' = Drained"
            "s = (run_executor r', run_screen r', run_env r')"
          using IH [OF t(2), unfolded Q_def, rule_format, of ?r s] h(6) by auto
        then show ?thesis 
          using run_trace_Cons [where step = "run_step push pop is_empty poll_future", OF _ step]
            run_trace_Cons [where step = "run_step push pop is_empty poll_future", OF _ take] by blast
      qed
    qed
  qed
  then show ?thesis using assms(2) unfolding Q_def by blast
qed

section \<open>What a waker does to the queue\<close>

lemma wake_task_cases:
  assumes fifo: "bounded_fifo q0 push pop contents invar cap" and q: "invar q"
    and w: "wake_task push i (q, screen) = Inr (q', screen')"
  shows "invar q' \<and> (if length (contents q) < cap then contents q' = contents q @ [i] else q' = q)"
proof (cases "push q i")
  case None
  then have "\<not> length (contents q) < cap" using bounded_fifo.push_room [OF fifo q, of i] by auto
  then show ?thesis using None w q by (auto simp: wake_task_def bind_result_Inr_iff)
next
  case (Some q1)
  then have "length (contents q) < cap" using bounded_fifo.push_Some_iff [OF fifo q] by blast
  then show ?thesis using Some w bounded_fifo.push_SomeD [OF fifo q Some] by (auto simp: wake_task_def)
qed

lemma wake_task_returns:
  assumes "writer_ok screen"
  shows "\<exists>q' screen'. wake_task push i (q, screen) = Inr (q', screen') \<and> writer_ok screen'"
proof (cases "push q i")
  case None
  obtain screen' where "println (''WARNING: executor ready queue full; dropping a wakeup for task TaskId('' @ digits (unat i) @ '')'') screen
      = Inr screen'" "writer_ok screen'"
    using write_string_returns [OF assms] unfolding println_def by blast
  then show ?thesis using None by (auto simp: wake_task_def simp del: digits.simps)
qed (use assms in \<open>auto simp: wake_task_def\<close>)

lemma wake_tasks_queue:
  assumes fifo: "bounded_fifo q0 push pop contents invar cap" and "invar q"
    and "for_each woken (wake_task push) (q, screen) = Inr (q', screen')"
  shows "invar q' \<and> (\<exists>new. contents q' = contents q @ new)"
  using assms(2,3)
proof (induction woken arbitrary: q screen)
  case (Cons i woken)
  obtain q1 screen1 where q1: "wake_task push i (q, screen) = Inr (q1, screen1)"
      "for_each woken (wake_task push) (q1, screen1) = Inr (q', screen')"
    using Cons.prems(2) by (auto simp: bind_result_Inr_iff)
  have "invar q1 \<and> (\<exists>new. contents q1 = contents q @ new)"
    using wake_task_cases [OF fifo Cons.prems(1) q1(1)] by (metis append_Nil2)
  then show ?case using Cons.IH [OF _ q1(2)] by fastforce
qed simp

lemma wake_tasks_return:
  "writer_ok screen \<Longrightarrow> \<exists>q' screen'. for_each woken (wake_task push) (q, screen) = Inr (q', screen') \<and> writer_ok screen'"
proof (induction woken arbitrary: q screen)
  case (Cons i woken)
  obtain q1 screen1 where "wake_task push i (q, screen) = Inr (q1, screen1)" "writer_ok screen1"
    using wake_task_returns [OF Cons.prems, of push i q] by blast
  then show ?case using Cons.IH [of screen1 q1] by simp
qed simp

section \<open>The invariant\<close>

text \<open>
  A task is stored under its own id, a cached waker belongs to a stored task and wakes that task, and
  the queue and the screen are well formed.
\<close>

definition executor_ok :: "('q \<Rightarrow> bool) \<Rightarrow> ('f, 'q) executor \<Rightarrow> bool" where
  "executor_ok invar ex \<longleftrightarrow> invar (task_queue ex) \<and> (\<forall>i t. tasks ex i = Some t \<longrightarrow> task_id t = i)
     \<and> (\<forall>i w. waker_cache ex i = Some w \<longrightarrow> w = i \<and> tasks ex i \<noteq> None)"

text \<open>
  Where the main loop is: interrupts are off from \<open>disable\<close> on, and the queue is empty between the check
  that found it empty and the end of the halt.
\<close>

definition run_ok :: "('q \<Rightarrow> bool) \<Rightarrow> ('q \<Rightarrow> task_id list) \<Rightarrow> ('f, 'q, 'e) run_state \<Rightarrow> bool" where
  "run_ok invar contents s \<longleftrightarrow> executor_ok invar (run_executor s) \<and> writer_ok (run_screen s)
     \<and> (run_interrupts s \<longleftrightarrow> run_at s \<notin> {Checking, Idle, Busy})
     \<and> (run_at s \<in> {Idle, Halted} \<longrightarrow> contents (task_queue (run_executor s)) = [])"

text \<open>A task that is to be polled: its id is in the queue, or it has just been taken off.\<close>

definition awaits_poll :: "('q \<Rightarrow> task_id list) \<Rightarrow> task_id \<Rightarrow> ('f, 'q, 'e) run_state \<Rightarrow> bool" where
  "awaits_poll contents i s \<longleftrightarrow> i \<in> set (contents (task_queue (run_executor s))) \<or> run_at s = Taken i"

lemma run_task_returns:
  assumes fifo: "bounded_fifo q0 push pop contents invar cap" and ok: "executor_ok invar ex" "writer_ok screen"
  shows "\<exists>ex' screen' e'. run_task push poll_future i (ex, screen, e) = Inr (ex', screen', e') \<and> executor_ok invar ex'
    \<and> writer_ok screen' \<and> (\<exists>new. contents (task_queue ex') = contents (task_queue ex) @ new)"
proof (cases "tasks ex i")
  case None
  then show ?thesis using ok by (auto simp: run_task_def)
next
  case (Some t)
  obtain r t' e' woken where p: "Task_poll poll_future i t e = (r, t', e', woken)" by (cases "Task_poll poll_future i t e")
  have id: "task_id t' = i" using p Some ok(1) by (auto simp: Task_poll_def executor_ok_def split: prod.splits)
  have w: "(case waker_cache ex i of None \<Rightarrow> i | Some w \<Rightarrow> w) = i" using ok(1) by (auto simp: executor_ok_def split: option.splits)
  obtain q screen' where q: "for_each woken (wake_task push) (task_queue ex, screen) = Inr (q, screen')" "writer_ok screen'"
    using wake_tasks_return [OF ok(2), of woken push "task_queue ex"] by blast
  have i: "invar (task_queue ex)" using ok(1) by (simp add: executor_ok_def)
  have c: "invar q" "\<exists>new. contents q = contents (task_queue ex) @ new" using wake_tasks_queue [OF fifo i q(1)] by auto
  let ?ex = "ex\<lparr>waker_cache := (waker_cache ex)(i := Some i), tasks := (tasks ex)(i := Some t'), task_queue := q\<rparr>"
  show ?thesis
  proof (cases r)
    case (Ready u)
    have "executor_ok invar (?ex\<lparr>tasks := (tasks ?ex)(i := None), waker_cache := (waker_cache ?ex)(i := None)\<rparr>)"
      using ok(1) c(1) by (auto simp: executor_ok_def)
    then show ?thesis using Some p w q c(2) Ready by (simp add: run_task_def)
  next
    case Pending
    have "executor_ok invar ?ex" using ok(1) c(1) id by (auto simp: executor_ok_def)
    then show ?thesis using Some p w q c(2) Pending by (simp add: run_task_def)
  qed
qed

lemma run_step_ok:
  assumes fifo: "bounded_fifo q0 push pop contents invar cap" and em: "\<forall>q. invar q \<longrightarrow> is_empty q = (contents q = [])"
    and ok: "run_ok invar contents s" and step: "run_step push pop is_empty poll_future s l s'"
  shows "run_ok invar contents s' \<and> (\<forall>i. awaits_poll contents i s \<and> l \<noteq> Some i \<longrightarrow> awaits_poll contents i s')"
proof -
  have q: "invar (task_queue (run_executor s))" using ok by (simp add: run_ok_def executor_ok_def)
  from step show ?thesis
  proof cases
    case (step_take i q')
    have "contents (task_queue (run_executor s)) \<noteq> []" using bounded_fifo.pop_empty [OF fifo q] step_take(4) by auto
    then obtain y ys where ys: "contents (task_queue (run_executor s)) = y # ys" by (cases "contents (task_queue (run_executor s))") auto
    then have "y = i" "invar q'" "contents q' = ys" using bounded_fifo.pop_cons [OF fifo q ys] step_take(4) by auto
    then show ?thesis using ok ys step_take by (auto simp: run_ok_def executor_ok_def awaits_poll_def)
  next
    case (step_poll i ex screen e)
    have e: "executor_ok invar (run_executor s)" "writer_ok (run_screen s)" using ok by (simp_all add: run_ok_def)
    from run_task_returns [OF fifo e, of poll_future i "run_env s"] show ?thesis
      using step_poll ok by (auto simp: run_ok_def awaits_poll_def)
  next
    case (step_drained q')
    have "contents (task_queue (run_executor s)) = []"
      using bounded_fifo.pop_cons [OF fifo q] step_drained(4) by (cases "contents (task_queue (run_executor s))") fastforce+
    moreover from this have "q' = task_queue (run_executor s)" using bounded_fifo.pop_empty [OF fifo q] step_drained(4) by simp
    ultimately show ?thesis using step_drained ok by (auto simp: run_ok_def executor_ok_def awaits_poll_def)
  next
    case step_sleep
    then show ?thesis using ok em q by (auto simp: run_ok_def sleep_if_idle_def awaits_poll_def)
  next
    case (step_interrupt woken q' screen e)
    have w: "writer_ok screen"
      using wake_tasks_return [of "run_screen s" woken push "task_queue (run_executor s)"] step_interrupt(4) ok by (auto simp: run_ok_def)
    have "invar q' \<and> (\<exists>new. contents q' = contents (task_queue (run_executor s)) @ new)"
      by (rule wake_tasks_queue [OF fifo q step_interrupt(4)])
    then show ?thesis using step_interrupt ok w by (auto simp: run_ok_def executor_ok_def awaits_poll_def)
  qed
qed

lemma run_trace_ok:
  assumes fifo: "bounded_fifo q0 push pop contents invar cap" and em: "\<forall>q. invar q \<longrightarrow> is_empty q = (contents q = [])"
    and ok: "run_ok invar contents s" and trace: "run_trace (run_step push pop is_empty poll_future) s ls s'"
  shows "run_ok invar contents s' \<and> (awaits_poll contents i s \<and> Some i \<notin> set ls \<longrightarrow> awaits_poll contents i s')"
  using trace ok
proof induction
  case (trace_step s ls s' l s'')
  then show ?case using run_step_ok [OF fifo em _ trace_step.hyps(2)] by auto
qed simp


text \<open>
  C27. The bounds of the executor. In every state that the main loop reaches, with any interrupts in
  between, at most 128 ids are queued, a waker is kept only for a task that is not finished and
  belongs to that task, and the next poll and the next interrupt return without a panic.
\<close>

theorem executor_bounds:
  assumes fifo: "bounded_fifo q0 push pop contents invar MAX_QUEUED_TASKS"
    and em: "\<forall>q. invar q \<longrightarrow> is_empty q = (contents q = [])" and ok: "run_ok invar contents s"
    and trace: "run_trace (run_step push pop is_empty poll_future) s ls s'"
  shows "length (contents (task_queue (run_executor s'))) \<le> 128
    \<and> (\<forall>i w. waker_cache (run_executor s') i = Some w \<longrightarrow> w = i \<and> tasks (run_executor s') i \<noteq> None)
    \<and> returns (wake_task push i (task_queue (run_executor s'), run_screen s'))
    \<and> returns (run_task push poll_future i (run_executor s', run_screen s', run_env s'))"
proof -
  have ok': "run_ok invar contents s'" using run_trace_ok [OF fifo em ok trace] by blast
  then have e: "executor_ok invar (run_executor s')" "writer_ok (run_screen s')" by (simp_all add: run_ok_def)
  then have "length (contents (task_queue (run_executor s'))) \<le> 128"
    using bounded_fifo.contents_bound [OF fifo] by (simp add: executor_ok_def MAX_QUEUED_TASKS_def)
  moreover have "\<forall>i w. waker_cache (run_executor s') i = Some w \<longrightarrow> w = i \<and> tasks (run_executor s') i \<noteq> None"
    using e(1) by (simp add: executor_ok_def)
  moreover have "returns (wake_task push i (task_queue (run_executor s'), run_screen s'))"
    using wake_task_returns [OF e(2), of push i "task_queue (run_executor s')"] by (auto simp: returns_iff)
  moreover have "returns (run_task push poll_future i (run_executor s', run_screen s', run_env s'))"
    using run_task_returns [OF fifo e, of poll_future i "run_env s'"] by (auto simp: returns_iff)
  ultimately show ?thesis by blast
qed

section \<open>A concrete queue and a task\<close>

definition list_push :: "task_id list \<Rightarrow> task_id \<Rightarrow> task_id list option" where
  "list_push q i = (if length q < MAX_QUEUED_TASKS then Some (q @ [i]) else None)"

definition list_pop :: "task_id list \<Rightarrow> task_id option \<times> task_id list" where
  "list_pop q = (case q of [] \<Rightarrow> (None, []) | i # q \<Rightarrow> (Some i, q))"

lemma list_fifo: "bounded_fifo [] list_push list_pop (\<lambda>q. q) (\<lambda>q. length q \<le> MAX_QUEUED_TASKS) MAX_QUEUED_TASKS"
  by unfold_locales (auto simp: list_push_def list_pop_def)

text \<open>A task that counts its polls and is ready at the second one, in an idle kernel.\<close>

definition count_poll :: "task_id \<Rightarrow> nat \<Rightarrow> unit \<Rightarrow> unit poll \<times> nat \<times> unit \<times> task_id list" where
  "count_poll waker n e = (if n = 1 then Ready () else Pending, Suc n, e, [])"

definition idle_run :: "task_id list \<Rightarrow> run_point \<Rightarrow> (nat, task_id list, unit) run_state" where
  "idle_run q at =
     \<lparr>run_executor = \<lparr>tasks = (\<lambda>_. None)(7 := Some \<lparr>task_id = 7, task_future = 0\<rparr>), task_queue = q, waker_cache = (\<lambda>_. None)\<rparr>,
      run_screen = writer_init (replicate 25 (replicate 80 \<lparr>ascii_character = 0x20, cell_color = 0x0E\<rparr>)),
      run_env = (), run_at = at, run_interrupts = True\<rparr>"

lemma idle_run_ok: "at \<in> {Polling, Drained} \<or> at = Halted \<and> q = [] \<Longrightarrow> length q \<le> MAX_QUEUED_TASKS \<Longrightarrow>
  run_ok (\<lambda>q. length q \<le> MAX_QUEUED_TASKS) (\<lambda>q. q) (idle_run q at)"
  using writer_init_ok [of "replicate 25 (replicate 80 \<lparr>ascii_character = 0x20, cell_color = 0x0E\<rparr>)"]
  by (auto simp: run_ok_def executor_ok_def idle_run_def vga_consts)

abbreviation sample_step where
  "sample_step \<equiv> run_step list_push list_pop (\<lambda>q. q = []) count_poll"

text \<open>A task is polled; and a wakeup right after the last \<open>pop\<close> keeps the processor from halting.\<close>

lemma idle_run_poll:
  "\<exists>s'. run_trace sample_step (idle_run (7 # q) Polling) [None, Some 7] s'
     \<and> task_queue (run_executor s') = q \<and> waker_cache (run_executor s') 7 = Some 7"
proof -
  let ?s = "idle_run (7 # q) Polling"
  let ?t = "?s\<lparr>run_executor := (run_executor ?s)\<lparr>task_queue := q\<rparr>, run_at := Taken 7\<rparr>"
  have take: "sample_step ?s None ?t" by (rule step_take) (simp_all add: idle_run_def list_pop_def)
  obtain ex where ex: "run_task list_push count_poll 7 (run_executor ?t, run_screen ?t, run_env ?t) = Inr (ex, run_screen ?t, ())"
      "task_queue ex = q" "waker_cache ex 7 = Some 7"
    by (simp add: run_task_def Task_poll_def count_poll_def idle_run_def)
  have poll: "sample_step ?t (Some 7) (?t\<lparr>run_executor := ex, run_screen := run_screen ?t, run_env := (), run_at := Polling\<rparr>)"
    by (rule step_poll) (use ex(1) in simp_all)
  have "run_trace sample_step ?s [None, Some 7] (?t\<lparr>run_executor := ex, run_screen := run_screen ?t, run_env := (), run_at := Polling\<rparr>)"
    using take poll by (blast intro: run_trace_Cons trace_start)
  then show ?thesis using ex(2,3) by (intro exI) auto
qed



theorem executor_bounds_witness:
  "\<exists>s'. run_trace (run_step list_push list_pop (\<lambda>q. q = []) count_poll) (idle_run [7] Polling) [None, Some 7] s'
     \<and> length (task_queue (run_executor s')) \<le> 128 \<and> tasks (run_executor s') 7 \<noteq> None
     \<and> returns (run_task list_push count_poll 7 (run_executor s', run_screen s', run_env s'))"
proof -
  obtain s' where s': "run_trace sample_step (idle_run [7] Polling) [None, Some 7] s'" "waker_cache (run_executor s') 7 = Some 7"
    using idle_run_poll by blast
  have "run_ok (\<lambda>q. length q \<le> MAX_QUEUED_TASKS) (\<lambda>q. q) (idle_run [7] Polling)"
    by (rule idle_run_ok) (simp_all add: MAX_QUEUED_TASKS_def)
  from executor_bounds [OF list_fifo _ this s'(1), of 7] show ?thesis using s' by blast
qed

end
