(* ===== verification/Syscall_Entry.thy ===== *)
theory Syscall_Entry
  imports X86
begin

text \<open>
  The entry code behind \<open>int 0x80\<close> (\<open>entry\<close> in \<open>src/syscall.rs\<close>) on the general-purpose
  registers and the words of the kernel stack. The processor has pushed the interrupted context
  (instruction pointer, code segment, flags, stack pointer, stack segment) when it starts.
\<close>

datatype gpr = RAX | RBX | RCX | RDX | RSI | RDI | RBP | R8 | R9 | R10 | R11 | R12 | R13 | R14 | R15

record machine =
  regs :: "gpr \<Rightarrow> u64"
  stack_ptr :: u64
  words :: "u64 \<Rightarrow> u64"
  inst_ptr :: u64
  code_seg :: u64
  flags_reg :: u64
  stack_seg :: u64

text \<open>The instructions: \<open>push r\<close>, \<open>pop r\<close>, \<open>mov r, [rsp + n]\<close> and \<open>iretq\<close>.\<close>

definition push_reg :: "gpr \<Rightarrow> machine \<Rightarrow> machine" where
  "push_reg r m = m\<lparr>stack_ptr := stack_ptr m - 8, words := (words m)(stack_ptr m - 8 := regs m r)\<rparr>"

definition pop_reg :: "gpr \<Rightarrow> machine \<Rightarrow> machine" where
  "pop_reg r m = m\<lparr>regs := (regs m)(r := words m (stack_ptr m)), stack_ptr := stack_ptr m + 8\<rparr>"

definition mov_load :: "gpr \<Rightarrow> u64 \<Rightarrow> machine \<Rightarrow> machine" where
  "mov_load r n m = m\<lparr>regs := (regs m)(r := words m (stack_ptr m + n))\<rparr>"

definition iretq :: "machine \<Rightarrow> machine" where
  "iretq m = m\<lparr>inst_ptr := words m (stack_ptr m), code_seg := words m (stack_ptr m + 8),
     flags_reg := words m (stack_ptr m + 16), stack_ptr := words m (stack_ptr m + 24),
     stack_seg := words m (stack_ptr m + 32)\<rparr>"

definition saved_regs :: "gpr list" where
  "saved_regs = [RAX, RBX, RCX, RDX, RSI, RDI, RBP, R8, R9, R10, R11, R12, R13, R14, R15]"

text \<open>\<open>call_dispatch\<close> is the call of the compiled \<open>dispatch\<close>, from the \<open>call\<close> to its return.\<close>

definition entry :: "(machine \<Rightarrow> machine) \<Rightarrow> machine \<Rightarrow> machine" where
  "entry call_dispatch m =
     (let m = fold push_reg saved_regs m;
          m = mov_load RDI 112 m;
          m = mov_load RSI 72 m;
          m = mov_load RDX 80 m;
          m = mov_load RCX 88 m;
          m = mov_load R8 96 m;
          m = m\<lparr>regs := (regs m)(R15 := stack_ptr m)\<rparr>;
          m = m\<lparr>stack_ptr := stack_ptr m AND NOT 15\<rparr>;
          m = call_dispatch m;
          m = m\<lparr>stack_ptr := regs m R15\<rparr>;
          m = m\<lparr>words := (words m)(stack_ptr m + 112 := regs m RAX)\<rparr>;
          m = fold pop_reg (rev saved_regs) m
      in iretq m)"

text \<open>
  The calling convention of the compiled function: called with an aligned stack pointer and its
  five arguments in registers, it returns its value in RAX, keeps the stack pointer and the
  callee-saved registers, and does not write to the caller's part of the stack. The words of the
  machine are those of the kernel stack: the user memory that a system call writes is not among them.
\<close>

definition sysv_call :: "(machine \<Rightarrow> machine) \<Rightarrow> (u64 \<Rightarrow> u64 \<Rightarrow> u64 \<Rightarrow> u64 \<Rightarrow> u64 \<Rightarrow> u64) \<Rightarrow> bool" where
  "sysv_call call f \<longleftrightarrow> (\<forall>m. take_bit 4 (stack_ptr m) = 0 \<longrightarrow>
     regs (call m) RAX = f (regs m RDI) (regs m RSI) (regs m RDX) (regs m RCX) (regs m R8)
     \<and> stack_ptr (call m) = stack_ptr m
     \<and> (\<forall>r \<in> {RBX, RBP, R12, R13, R14, R15}. regs (call m) r = regs m r)
     \<and> (\<forall>a. stack_ptr m \<le> a \<longrightarrow> words (call m) a = words m a))"

lemma aligned_down:
  fixes a :: u64
  shows "a AND NOT 15 \<le> a" and "take_bit 4 (a AND NOT 15) = 0"
proof -
  show "a AND NOT 15 \<le> a" by (rule word_and_le2)
  have "(15 :: u64) = mask 4" by (simp add: mask_numeral)
  then show "take_bit 4 (a AND NOT 15) = 0"
    by (auto simp: bit_eq_iff bit_take_bit_iff bit_and_iff bit_not_iff bit_mask_iff)
qed

lemma unat_offset:
  fixes b :: u64
  assumes "unat b + 160 < 2 ^ 64" and "unat n \<le> 160"
  shows "unat (b + n) = unat b + unat n"
  using assms by (intro unat_add_lem [THEN iffD1]) simp

lemma offset_above:
  fixes b :: u64
  assumes "unat b + 160 < 2 ^ 64" and "unat n \<le> 160"
  shows "b AND NOT 15 \<le> b + n"
proof -
  have "b \<le> b + n" using unat_offset [OF assms] by (simp add: word_le_nat_alt)
  then show ?thesis using aligned_down(1) order_trans by blast
qed

lemma offset_sub: "(b :: u64) + numeral v - numeral w = b + (numeral v - numeral w)"
  by (simp add: add_diff_eq)

text \<open>The saved words, from the lowest address: the registers and the interrupted context.\<close>

lemma entry_result:
  assumes c: "sysv_call call f" and b: "stack_ptr m = b + 120" "unat b + 160 < 2 ^ 64"
  shows "entry call m = m\<lparr>regs := (regs m)(RAX := f (regs m RAX) (regs m RDI) (regs m RSI) (regs m RDX) (regs m RCX)),
     words := words (entry call m), inst_ptr := words m (b + 120), code_seg := words m (b + 128),
     flags_reg := words m (b + 136), stack_ptr := words m (b + 144), stack_seg := words m (b + 152)\<rparr>"
    and "b + 120 \<le> a \<Longrightarrow> words (entry call m) a = words m a"
proof -
  let ?w = "(words m)(b + 112 := regs m RAX, b + 104 := regs m RBX, b + 96 := regs m RCX, b + 88 := regs m RDX,
    b + 80 := regs m RSI, b + 72 := regs m RDI, b + 64 := regs m RBP, b + 56 := regs m R8, b + 48 := regs m R9,
    b + 40 := regs m R10, b + 32 := regs m R11, b + 24 := regs m R12, b + 16 := regs m R13, b + 8 := regs m R14, b := regs m R15)"
  let ?m1 = "m\<lparr>regs := (regs m)(RDI := regs m RAX, RSI := regs m RDI, RDX := regs m RSI, RCX := regs m RDX, R8 := regs m RCX,
    R15 := b), stack_ptr := b AND NOT 15, words := ?w\<rparr>"
  let ?m2 = "call ?m1"
  have pushed: "fold push_reg saved_regs m = m\<lparr>stack_ptr := b, words := ?w\<rparr>"
    by (simp add: saved_regs_def push_reg_def b(1) offset_sub)
  have ret: "regs ?m2 RAX = f (regs m RAX) (regs m RDI) (regs m RSI) (regs m RDX) (regs m RCX)" "regs ?m2 R15 = b"
      "\<And>a. b AND NOT 15 \<le> a \<Longrightarrow> words ?m2 a = ?w a"
    using c [unfolded sysv_call_def, rule_format, of ?m1] aligned_down(2) [of b] by simp_all
  define m2 where "m2 = ?m2"
  have w: "words m2 (n + b) = ?w (b + n)" if "unat n \<le> 160" for n
    unfolding m2_def add.commute [of n b] by (rule ret(3)) (rule offset_above [OF b(2) that])
  have saved:
      "words m2 (112 + b) = regs m RAX" "words m2 (104 + b) = regs m RBX" "words m2 (96 + b) = regs m RCX" "words m2 (88 + b) = regs m RDX"
      "words m2 (80 + b) = regs m RSI" "words m2 (72 + b) = regs m RDI" "words m2 (64 + b) = regs m RBP" "words m2 (56 + b) = regs m R8"
      "words m2 (48 + b) = regs m R9" "words m2 (40 + b) = regs m R10" "words m2 (32 + b) = regs m R11" "words m2 (24 + b) = regs m R12"
      "words m2 (16 + b) = regs m R13" "words m2 (8 + b) = regs m R14" "words m2 b = regs m R15" "words m2 (120 + b) = words m (b + 120)"
      "words m2 (128 + b) = words m (b + 128)" "words m2 (136 + b) = words m (b + 136)" "words m2 (144 + b) = words m (b + 144)" "words m2 (152 + b) = words m (b + 152)"
    using w [of 0] by (simp_all add: w)
  have rax: "regs m2 RAX = f (regs m RAX) (regs m RDI) (regs m RSI) (regs m RDX) (regs m RCX)"
    unfolding m2_def by (rule ret(1))
  have before: "(let m = mov_load R8 96 (mov_load RCX 88 (mov_load RDX 80 (mov_load RSI 72 (mov_load RDI 112
      (m\<lparr>stack_ptr := b, words := ?w\<rparr>))))); m = m\<lparr>regs := (regs m)(R15 := stack_ptr m)\<rparr>
      in m\<lparr>stack_ptr := stack_ptr m AND NOT 15\<rparr>) = ?m1"
    by (cases m) (simp add: mov_load_def Let_def)
  have e: "entry call m = iretq (fold pop_reg (rev saved_regs)
      (m2\<lparr>stack_ptr := b, words := (words m2)(112 + b := regs m2 RAX)\<rparr>))"
    unfolding entry_def pushed Let_def before [unfolded Let_def] ret(2) m2_def by (simp add: add.commute)
  have r: "regs (entry call m) = (regs m)(RAX := f (regs m RAX) (regs m RDI) (regs m RSI) (regs m RDX) (regs m RCX))"
  proof
    fix q show "regs (entry call m) q = ((regs m)(RAX := f (regs m RAX) (regs m RDI) (regs m RSI) (regs m RDX) (regs m RCX))) q"
      unfolding e by (cases q) (simp_all add: iretq_def pop_reg_def saved_regs_def saved saved(14) [unfolded add.commute [of 8 b]] rax)
  qed
  have i: "inst_ptr (entry call m) = words m (b + 120)" "code_seg (entry call m) = words m (b + 128)"
      "flags_reg (entry call m) = words m (b + 136)" "stack_ptr (entry call m) = words m (b + 144)"
      "stack_seg (entry call m) = words m (b + 152)"
    unfolding e by (simp_all add: iretq_def pop_reg_def saved_regs_def saved)
  show "entry call m = m\<lparr>regs := (regs m)(RAX := f (regs m RAX) (regs m RDI) (regs m RSI) (regs m RDX) (regs m RCX)),
     words := words (entry call m), inst_ptr := words m (b + 120), code_seg := words m (b + 128),
     flags_reg := words m (b + 136), stack_ptr := words m (b + 144), stack_seg := words m (b + 152)\<rparr>"
    using r i by (cases "entry call m"; cases m) simp
  assume a: "b + 120 \<le> a"
  have ne: "a \<noteq> b + n" if "n < 120" for n
    using unat_offset [OF b(2), of n] unat_offset [OF b(2), of 120] a that
    by (auto simp: word_le_nat_alt word_less_nat_alt)
  have "a \<noteq> b" using ne [of 0] by simp
  moreover have "a \<noteq> b + 8" "a \<noteq> b + 16" "a \<noteq> b + 24" "a \<noteq> b + 32" "a \<noteq> b + 40" "a \<noteq> b + 48" "a \<noteq> b + 56"
      "a \<noteq> b + 64" "a \<noteq> b + 72" "a \<noteq> b + 80" "a \<noteq> b + 88" "a \<noteq> b + 96" "a \<noteq> b + 104" "a \<noteq> b + 112"
    by (rule ne, simp)+
  ultimately have "words m2 a = words m a" "a \<noteq> b + 112" unfolding m2_def
    using ret(3) [OF order_trans [OF offset_above [OF b(2), of 120] a]] by simp_all
  then show "words (entry call m) a = words m a" unfolding e
    by (simp add: iretq_def pop_reg_def saved_regs_def add.commute)
qed

text \<open>
  C14. A system call changes no register but RAX. For every compiled \<open>dispatch\<close> that follows the
  calling convention, the entry code calls it with the number from RAX and the four arguments
  from RDI, RSI, RDX and RCX, and returns to the interrupted context (instruction pointer, flags,
  segments and stack pointer as the processor pushed them) with every general-purpose register
  as it was, except RAX, which holds the value \<open>dispatch\<close> returned. The stack pointer at the
  interrupt need not be aligned.
\<close>

theorem syscall_entry_preserves_registers:
  assumes c: "sysv_call call f" and s: "120 \<le> unat (stack_ptr m)" "unat (stack_ptr m) + 40 < 2 ^ 64"
  shows "regs (entry call m) = (regs m)(RAX := f (regs m RAX) (regs m RDI) (regs m RSI) (regs m RDX) (regs m RCX))
    \<and> inst_ptr (entry call m) = words m (stack_ptr m) \<and> code_seg (entry call m) = words m (stack_ptr m + 8)
    \<and> flags_reg (entry call m) = words m (stack_ptr m + 16) \<and> stack_ptr (entry call m) = words m (stack_ptr m + 24)
    \<and> stack_seg (entry call m) = words m (stack_ptr m + 32)"
proof -
  define b where "b = stack_ptr m - 120"
  have b: "stack_ptr m = b + 120" by (simp add: b_def)
  have "unat b = unat (stack_ptr m) - 120" unfolding b_def using s(1) by (simp add: unat_sub word_le_nat_alt)
  then have "unat b + 160 < 2 ^ 64" using s by simp
  from entry_result(1) [OF c b this] have "entry call m = m\<lparr>regs := (regs m)(RAX := f (regs m RAX) (regs m RDI) (regs m RSI) (regs m RDX) (regs m RCX)),
     words := words (entry call m), inst_ptr := words m (b + 120), code_seg := words m (b + 128),
     flags_reg := words m (b + 136), stack_ptr := words m (b + 144), stack_seg := words m (b + 152)\<rparr>" (is "?e = ?r") .
  then have "regs ?e = regs ?r" "inst_ptr ?e = inst_ptr ?r" "code_seg ?e = code_seg ?r" "flags_reg ?e = flags_reg ?r"
    "stack_ptr ?e = stack_ptr ?r" "stack_seg ?e = stack_seg ?r" by (rule arg_cong)+
  then show ?thesis by (simp add: b add.commute)
qed

text \<open>A call that adds its first two arguments and uses the other registers and the stack freely.\<close>

definition sample_call :: "machine \<Rightarrow> machine" where
  "sample_call m = m\<lparr>regs := (regs m)(RAX := regs m RDI + regs m RSI, RCX := 7, R8 := 9, R11 := 0),
     words := (\<lambda>a. if a < stack_ptr m then 1 else words m a)\<rparr>"

theorem syscall_entry_preserves_registers_witness:
  "\<exists>m. stack_ptr m = 0x444444451FD3 \<and> regs m RAX = 40 \<and> regs m RDI = 2 \<and> regs m R8 = 5
     \<and> regs (entry sample_call m) RAX = 42 \<and> regs (entry sample_call m) R8 = 5"
proof -
  let ?m = "\<lparr>regs = (\<lambda>_. 5)(RAX := 40, RDI := 2), stack_ptr = 0x444444451FD3, words = (\<lambda>a. a), inst_ptr = 0, code_seg = 0,
     flags_reg = 0, stack_seg = 0\<rparr>"
  have "sysv_call sample_call (\<lambda>a b c d e. a + b)" by (auto simp: sysv_call_def sample_call_def)
  from syscall_entry_preserves_registers [OF this, of ?m] show ?thesis
    by (intro exI [of _ ?m]) simp
qed

end
