(* ===== verification/Ring3.thy ===== *)
theory Ring3
  imports Syscall_Entry
begin

text \<open>
  The segments and stacks behind the two privilege levels: the descriptor table and the task state
  segment of \<open>src/gdt.rs\<close>, the drop to ring 3 in \<open>enter_ring3\<close> of \<open>src/userspace.rs\<close>, and the way back
  into the kernel and out again through \<open>int 0x80\<close>.

  The descriptor table is the \<open>GlobalDescriptorTable\<close> of the x86_64 crate, of which the model has the
  operation \<open>add_entry\<close> as an argument; \<open>gdt_laws\<close> states what it promises.
\<close>

section \<open>Descriptor table and task state\<close>

datatype descriptor = kernel_code_segment | tss_segment u64 | user_code_segment | user_data_segment

record selectors =
  code_selector :: u16
  tss_selector :: u16
  user_code_selector :: u16
  user_data_selector :: u16

text \<open>
  The static \<open>GDT\<close>; \<open>tss\<close> is the address of the static \<open>TSS\<close>. Adding to a full table panics.
\<close>

definition GDT :: "('g \<Rightarrow> descriptor \<Rightarrow> (u16 \<times> 'g) result) \<Rightarrow> 'g \<Rightarrow> u64 \<Rightarrow> ('g \<times> selectors) result" where
  "GDT add_entry gdt_new tss =
     (let gdt = gdt_new in
      bind_result (add_entry gdt kernel_code_segment) (\<lambda>(code, gdt).
      bind_result (add_entry gdt (tss_segment tss)) (\<lambda>(tss_sel, gdt).
      bind_result (add_entry gdt user_code_segment) (\<lambda>(user_code, gdt).
      bind_result (add_entry gdt user_data_segment) (\<lambda>(user_data, gdt).
      Inr (gdt, \<lparr>code_selector = code, tss_selector = tss_sel, user_code_selector = user_code, user_data_selector = user_data\<rparr>))))))"

text \<open>
  A new table has one of its eight slots in use. A descriptor is added while there is room: a selector
  of the table names the descriptor that was added for it, now and after later additions, and asks for
  the privilege level of that descriptor in its two low bits.
\<close>

fun descriptor_level :: "descriptor \<Rightarrow> u16" where
  "descriptor_level kernel_code_segment = 0"
| "descriptor_level (tss_segment _) = 0"
| "descriptor_level user_code_segment = 3"
| "descriptor_level user_data_segment = 3"

fun descriptor_slots :: "descriptor \<Rightarrow> nat" where
  "descriptor_slots (tss_segment _) = 2"
| "descriptor_slots _ = 1"

definition gdt_laws ::
  "('g \<Rightarrow> descriptor \<Rightarrow> (u16 \<times> 'g) result) \<Rightarrow> 'g \<Rightarrow> ('g \<Rightarrow> nat) \<Rightarrow> ('g \<Rightarrow> u16 \<Rightarrow> descriptor option) \<Rightarrow> bool" where
  "gdt_laws add_entry gdt_new slots descriptor_at \<longleftrightarrow> slots gdt_new = 1
     \<and> (\<forall>g d. slots g + descriptor_slots d \<le> 8 \<longrightarrow>
          (\<exists>s g'. add_entry g d = Inr (s, g') \<and> slots g' = slots g + descriptor_slots d
             \<and> descriptor_at g' s = Some d \<and> s AND 3 = descriptor_level d
             \<and> (\<forall>t e. descriptor_at g t = Some e \<longrightarrow> descriptor_at g' t = Some e)))"

record task_state =
  privilege_stack_table :: "u64 list"
  interrupt_stack_table :: "u64 list"

definition TaskStateSegment_new :: task_state where
  "TaskStateSegment_new = \<lparr>privilege_stack_table = replicate 3 0, interrupt_stack_table = replicate 7 0\<rparr>"

definition DOUBLE_FAULT_IST_INDEX :: u16 where "DOUBLE_FAULT_IST_INDEX = 0"

text \<open>The registers that select the tables and segments.\<close>

record 'g tables =
  loaded_gdt :: "'g option"
  cs_reg :: u16
  task_reg :: u16
  ds_reg :: u16
  es_reg :: u16
  fs_reg :: u16
  gs_reg :: u16

text \<open>\<open>gdt::init\<close>; \<open>ist_stack\<close> and \<open>rsp0_stack\<close> are the addresses of its two static stacks.\<close>

definition gdt_init ::
  "x86_api \<Rightarrow> u64 \<Rightarrow> u64 \<Rightarrow> 'g \<times> selectors \<Rightarrow> task_state \<times> 'g tables \<Rightarrow> (task_state \<times> 'g tables) result" where
  "gdt_init x ist_stack rsp0_stack gdt s =
     (case s of (tss, t) \<Rightarrow>
      bind_result (bind_result (add_ovf ist_stack (4096 * 5)) (virt_new x)) (\<lambda>stack_end.
      let tss = tss\<lparr>interrupt_stack_table := (interrupt_stack_table tss)[unat DOUBLE_FAULT_IST_INDEX := stack_end]\<rparr> in
      bind_result (bind_result (add_ovf rsp0_stack (4096 * 5)) (virt_new x)) (\<lambda>stack_end.
      let tss = tss\<lparr>privilege_stack_table := (privilege_stack_table tss)[0 := stack_end]\<rparr>;
          t = t\<lparr>loaded_gdt := Some (fst gdt)\<rparr>;
          t = t\<lparr>cs_reg := code_selector (snd gdt)\<rparr>;
          t = t\<lparr>task_reg := tss_selector (snd gdt)\<rparr>
      in Inr (tss, t))))"

definition user_selectors :: "'g \<times> selectors \<Rightarrow> u16 \<times> u16" where
  "user_selectors gdt = (user_code_selector (snd gdt), user_data_selector (snd gdt))"

definition set_rsp0 :: "u64 \<Rightarrow> task_state \<Rightarrow> task_state" where
  "set_rsp0 stack_top tss = tss\<lparr>privilege_stack_table := (privilege_stack_table tss)[0 := stack_top]\<rparr>"

section \<open>Entering ring 3\<close>

text \<open>
  The \<open>in(reg)\<close> operands of the assembly block. The compiler loads each of them into a general-purpose
  register of its choice; which one is the argument \<open>reg_of\<close>. They get registers of their own, apart
  from each other and from RDI and RSI, which hold the two operands with fixed registers.
\<close>

datatype operand = ss_operand | stack_operand | rflags_operand | cs_operand | rip_operand

definition operand_regs_ok :: "(operand \<Rightarrow> gpr) \<Rightarrow> bool" where
  "operand_regs_ok reg_of \<longleftrightarrow> inj reg_of \<and> RDI \<notin> range reg_of \<and> RSI \<notin> range reg_of"

definition enter_ring3 ::
  "(operand \<Rightarrow> gpr) \<Rightarrow> 'g \<times> selectors \<Rightarrow> u64 \<Rightarrow> u64 \<Rightarrow> u64 \<Rightarrow> u64 \<Rightarrow> 'g tables \<times> machine \<Rightarrow> 'g tables \<times> machine" where
  "enter_ring3 reg_of gdt entry_addr stack_top args_ptr args_len s =
     (case s of (t, m) \<Rightarrow>
      let (code, data) = user_selectors gdt;
          t = t\<lparr>ds_reg := data\<rparr>;
          t = t\<lparr>es_reg := data\<rparr>;
          t = t\<lparr>fs_reg := data\<rparr>;
          t = t\<lparr>gs_reg := data\<rparr>;
          m = m\<lparr>regs := (regs m)(reg_of ss_operand := ucast data, reg_of stack_operand := stack_top,
                reg_of rflags_operand := 0x202, reg_of cs_operand := ucast code, reg_of rip_operand := entry_addr,
                RDI := args_ptr, RSI := args_len)\<rparr>;
          m = push_reg (reg_of ss_operand) m;
          m = push_reg (reg_of stack_operand) m;
          m = push_reg (reg_of rflags_operand) m;
          m = push_reg (reg_of cs_operand) m;
          m = push_reg (reg_of rip_operand) m
      in (t, iretq m))"

text \<open>The privilege level of the running code is in the two low bits of the code segment.\<close>

definition privilege :: "machine \<Rightarrow> u64" where
  "privilege m = code_seg m AND 3"

definition push_value :: "u64 \<Rightarrow> machine \<Rightarrow> machine" where
  "push_value v m = m\<lparr>stack_ptr := stack_ptr m - 8, words := (words m)(stack_ptr m - 8 := v)\<rparr>"

text \<open>
  What the processor does at an \<open>int\<close> instruction in ring 3, behind which the instruction pointer is:
  it takes the stack of the task state segment, aligned down to 16 bytes, pushes the interrupted
  context, clears the interrupt flag and continues at the gate's handler in the kernel's code segment.
\<close>

definition int_from_ring3 :: "task_state \<Rightarrow> u64 \<Rightarrow> u64 \<Rightarrow> machine \<Rightarrow> machine" where
  "int_from_ring3 tss kernel_code handler m =
     (let m' = m\<lparr>stack_ptr := privilege_stack_table tss ! 0 AND NOT 15\<rparr>;
          m' = push_value (stack_seg m) m';
          m' = push_value (stack_ptr m) m';
          m' = push_value (flags_reg m) m';
          m' = push_value (code_seg m) m';
          m' = push_value (inst_ptr m) m'
      in m'\<lparr>inst_ptr := handler, code_seg := kernel_code, stack_seg := 0, flags_reg := flags_reg m AND NOT 0x200\<rparr>)"

section \<open>Properties\<close>

lemma gdt_add:
  assumes "gdt_laws add_entry gdt_new slots descriptor_at" and "slots g + descriptor_slots d \<le> 8"
  obtains s g' where "add_entry g d = Inr (s, g')" "slots g' = slots g + descriptor_slots d" "descriptor_at g' s = Some d"
    "s AND 3 = descriptor_level d" "\<And>t e. descriptor_at g t = Some e \<Longrightarrow> descriptor_at g' t = Some e"
  using assms unfolding gdt_laws_def by blast

lemma gdt_selectors:
  assumes laws: "gdt_laws add_entry gdt_new slots descriptor_at"
  obtains gdt where "GDT add_entry gdt_new tss = Inr gdt"
    "descriptor_at (fst gdt) (user_code_selector (snd gdt)) = Some user_code_segment"
    "descriptor_at (fst gdt) (user_data_selector (snd gdt)) = Some user_data_segment"
    "user_code_selector (snd gdt) AND 3 = 3"
proof -
  have "slots gdt_new = 1" using laws by (simp add: gdt_laws_def)
  then obtain s1 g1 where g1: "add_entry gdt_new kernel_code_segment = Inr (s1, g1)" "slots g1 = 2"
    by (auto intro: gdt_add [OF laws, of gdt_new kernel_code_segment])
  then obtain s2 g2 where g2: "add_entry g1 (tss_segment tss) = Inr (s2, g2)" "slots g2 = 4"
    by (auto intro: gdt_add [OF laws, of g1 "tss_segment tss"])
  then obtain s3 g3 where g3: "add_entry g2 user_code_segment = Inr (s3, g3)" "slots g3 = 5" "descriptor_at g3 s3 = Some user_code_segment"
      "s3 AND 3 = 3"
    by (auto intro: gdt_add [OF laws, of g2 user_code_segment])
  then obtain s4 g4 where g4: "add_entry g3 user_data_segment = Inr (s4, g4)" "descriptor_at g4 s4 = Some user_data_segment"
      "descriptor_at g4 s3 = Some user_code_segment"
    by (auto intro: gdt_add [OF laws, of g3 user_data_segment])
  have "GDT add_entry gdt_new tss =
      Inr (g4, \<lparr>code_selector = s1, tss_selector = s2, user_code_selector = s3, user_data_selector = s4\<rparr>)"
    using g1(1) g2(1) g3(1) g4(1) by (simp add: GDT_def)
  then show thesis using that g3(4) g4(2,3) by simp
qed

lemma ring_bits: "ucast (s :: u16) AND (3 :: u64) = ucast (s AND 3)"
  by (rule bit_word_eqI) (auto simp: bit_simps dest: bit_imp_le_length)

lemma selector_cast: "ucast (ucast (s :: u16) :: u64) = s"
  by (rule bit_word_eqI) (auto simp: bit_simps)

lemma operand_regs_distinct:
  assumes "operand_regs_ok reg_of"
  shows "reg_of i = reg_of j \<longleftrightarrow> i = j" and "reg_of i \<noteq> RDI" and "reg_of i \<noteq> RSI" and "RDI \<noteq> reg_of i" and "RSI \<noteq> reg_of i"
  using assms unfolding operand_regs_ok_def by (auto simp: inj_eq) (metis rangeI)+

text \<open>
  C16. Ring 3 is entered at the program's entry point with nothing of the kernel's privileges. After
  \<open>enter_ring3\<close>, whatever the registers were and whichever registers the compiler takes for the operands
  of the assembly block, the processor runs at privilege level 3 at the entry point, on the program's
  stack, with interrupts enabled; the code and stack segments and all four data segments select the user
  descriptors of the table that \<open>gdt.rs\<close> builds; RDI and RSI hold the arguments. The five operand
  registers hold the values of the frame, and the program sees the other general-purpose registers as
  the kernel left them.
\<close>

theorem ring3_entry:
  assumes laws: "gdt_laws add_entry gdt_new slots descriptor_at" and operands: "operand_regs_ok reg_of"
  shows "\<exists>gdt. GDT add_entry gdt_new tss = Inr gdt
    \<and> (let (t', m') = enter_ring3 reg_of gdt entry_addr stack_top args_ptr args_len (t, m) in
       privilege m' = 3 \<and> inst_ptr m' = entry_addr \<and> stack_ptr m' = stack_top \<and> bit (flags_reg m') 9
       \<and> regs m' RDI = args_ptr \<and> regs m' RSI = args_len
       \<and> map (regs m' \<circ> reg_of) [ss_operand, stack_operand, rflags_operand, cs_operand, rip_operand]
           = [stack_seg m', stack_ptr m', flags_reg m', code_seg m', inst_ptr m']
       \<and> (\<forall>r. r \<notin> {RDI, RSI} \<union> range reg_of \<longrightarrow> regs m' r = regs m r)
       \<and> descriptor_at (fst gdt) (ucast (code_seg m')) = Some user_code_segment
       \<and> (\<forall>s \<in> {ucast (stack_seg m'), ds_reg t', es_reg t', fs_reg t', gs_reg t'}. descriptor_at (fst gdt) s = Some user_data_segment))"
proof -
  obtain gdt where gdt: "GDT add_entry gdt_new tss = Inr gdt"
      "descriptor_at (fst gdt) (user_code_selector (snd gdt)) = Some user_code_segment"
      "descriptor_at (fst gdt) (user_data_selector (snd gdt)) = Some user_data_segment" "user_code_selector (snd gdt) AND 3 = 3"
    using gdt_selectors [OF laws] by blast
  define b where "b = stack_ptr m - 40"
  have b: "stack_ptr m = b + 40" by (simp add: b_def)
  obtain t' m' where result: "enter_ring3 reg_of gdt entry_addr stack_top args_ptr args_len (t, m) = (t', m')" by (meson surj_pair)
  have "t' = t\<lparr>ds_reg := user_data_selector (snd gdt), es_reg := user_data_selector (snd gdt),
      fs_reg := user_data_selector (snd gdt), gs_reg := user_data_selector (snd gdt)\<rparr>"
    "regs m' = (regs m)(reg_of ss_operand := ucast (user_data_selector (snd gdt)), reg_of stack_operand := stack_top,
       reg_of rflags_operand := 0x202, reg_of cs_operand := ucast (user_code_selector (snd gdt)), reg_of rip_operand := entry_addr,
       RDI := args_ptr, RSI := args_len)"
    "code_seg m' = ucast (user_code_selector (snd gdt))" "stack_seg m' = ucast (user_data_selector (snd gdt))"
    "inst_ptr m' = entry_addr" "stack_ptr m' = stack_top" "flags_reg m' = 0x202"
    using result [symmetric]
    by (simp_all add: enter_ring3_def user_selectors_def push_reg_def iretq_def b offset_sub operand_regs_distinct [OF operands] Let_def)
  moreover have "bit (0x202 :: u64) 9" by simp
  ultimately show ?thesis
    using gdt result by (auto simp: privilege_def ring_bits selector_cast operand_regs_distinct [OF operands])
qed

lemma stack_room:
  fixes t :: u64
  assumes "160 \<le> unat t"
  shows "unat (t - 160) + 160 < 2 ^ 64"
proof -
  have "160 \<le> t" using assms by (simp add: word_le_nat_alt)
  then have "unat (t - 160) = unat t - 160" by (simp add: unat_sub)
  then show ?thesis using assms unat_u64_less [of t] by simp
qed

text \<open>
  C15. A system call returns to ring 3 as if nothing had happened but the call. A program in any state
  executes \<open>int 0x80\<close> while the task state segment holds the top of its thread's kernel stack, set by
  \<open>set_rsp0\<close>. When the entry code returns, the program continues at the next instruction with all its
  registers, its flags, its segments and its stack pointer as they were, except for RAX, which holds
  what \<open>dispatch\<close> returned for the number and the arguments in the program's registers. On the way
  in and out nothing at or above the top of that kernel stack is written.
\<close>

theorem ring3_system_call:
  assumes c: "sysv_call call f" and tss: "privilege_stack_table tss \<noteq> []" and room: "160 \<le> unat (kstack AND NOT 15)"
    and m': "m' = entry call (int_from_ring3 (set_rsp0 kstack tss) kernel_code handler m)"
  shows "m' = m\<lparr>regs := (regs m)(RAX := f (regs m RAX) (regs m RDI) (regs m RSI) (regs m RDX) (regs m RCX)), words := words m'\<rparr>
    \<and> (\<forall>a \<ge> kstack. words m' a = words m a)"
proof
  define b where "b = (kstack AND NOT 15) - 160"
  have b: "kstack AND - 16 = b + 160" "unat b + 160 < 2 ^ 64" using stack_room [OF room] by (simp_all add: b_def)
  define mi where "mi = int_from_ring3 (set_rsp0 kstack tss) kernel_code handler m"
  have rsp0: "privilege_stack_table (set_rsp0 kstack tss) ! 0 = kstack" using tss by (simp add: set_rsp0_def)
  have words: "words mi = (words m)(b + 152 := stack_seg m, b + 144 := stack_ptr m, b + 136 := flags_reg m, b + 128 := code_seg m,
      b + 120 := inst_ptr m)"
    and mi: "stack_ptr mi = b + 120" "regs mi = regs m"
    by (simp_all add: mi_def int_from_ring3_def push_value_def rsp0 b(1) offset_sub Let_def)
  note result = entry_result [OF c mi(1) b(2)]
  show "m' = m\<lparr>regs := (regs m)(RAX := f (regs m RAX) (regs m RDI) (regs m RSI) (regs m RDX) (regs m RCX)), words := words m'\<rparr>"
    unfolding m' mi_def [symmetric] using result(1) words mi
    by (cases m; cases mi; cases "entry call mi") simp
  show "\<forall>a \<ge> kstack. words m' a = words m a"
  proof (intro allI impI)
    fix a assume a: "kstack \<le> a"
    have "b + 160 \<le> a" using aligned_down(1) [of kstack] a b(1) by simp
    have "unat b + 160 \<le> unat a" using \<open>b + 160 \<le> a\<close> unat_offset [OF b(2), of 160] by (simp add: word_le_nat_alt)
    then have ne: "a \<noteq> b + n" if "n < 160" for n
      using unat_offset [OF b(2), of n] that by (auto simp: word_less_nat_alt)
    have "a \<noteq> b + 152" "a \<noteq> b + 144" "a \<noteq> b + 136" "a \<noteq> b + 128" "a \<noteq> b + 120" by (rule ne, simp)+
    then have "words mi a = words m a" "b + 120 \<le> a" unfolding words
      using \<open>unat b + 160 \<le> unat a\<close> unat_offset [OF b(2), of 120] by (simp_all add: word_le_nat_alt)
    then show "words m' a = words m a" unfolding m' mi_def [symmetric] using result(2) by simp
  qed
qed

section \<open>A concrete table\<close>

text \<open>
  A list of descriptors, with two slots for a task state segment as in the processor's table; the
  selector is the index of the slot, shifted left by three, and the level.
\<close>

definition ref_add_entry :: "descriptor option list \<Rightarrow> descriptor \<Rightarrow> (u16 \<times> descriptor option list) result" where
  "ref_add_entry g d =
     (if length g + descriptor_slots d \<le> 8
      then Inr (push_bit 3 (of_nat (length g)) OR descriptor_level d, g @ (case d of tss_segment _ \<Rightarrow> [Some d, None] | _ \<Rightarrow> [Some d]))
      else panic ''GDT full'')"

definition ref_descriptor_at :: "descriptor option list \<Rightarrow> u16 \<Rightarrow> descriptor option" where
  "ref_descriptor_at g s = (let i = unat (drop_bit 3 s) in if i < length g then g ! i else None)"

lemma ref_selector:
  assumes "length g < 8"
  shows "unat (drop_bit 3 (push_bit 3 (of_nat (length g)) OR descriptor_level d)) = length g"
    and "(push_bit 3 (of_nat (length g)) OR descriptor_level d) AND 3 = descriptor_level d"
proof -
  have "length g = 0 \<or> length g = 1 \<or> length g = 2 \<or> length g = 3 \<or> length g = 4 \<or> length g = 5 \<or> length g = 6 \<or> length g = 7"
    using assms by linarith
  then show "unat (drop_bit 3 (push_bit 3 (of_nat (length g)) OR descriptor_level d)) = length g"
    "(push_bit 3 (of_nat (length g)) OR descriptor_level d) AND 3 = descriptor_level d"
    by (elim disjE; cases d; simp)+
qed

lemma ref_gdt_laws: "gdt_laws ref_add_entry [None] length ref_descriptor_at"
  unfolding gdt_laws_def
proof (intro conjI allI impI)
  fix g :: "descriptor option list" and d assume room: "length g + descriptor_slots d \<le> 8"
  then have len: "length g < 8" by (cases d) auto
  let ?new = "case d of tss_segment _ \<Rightarrow> [Some d, None] | _ \<Rightarrow> [Some d]"
  have new: "?new ! 0 = Some d" "length ?new = descriptor_slots d" "0 < length ?new" by (cases d; simp)+
  show "\<exists>s g'. ref_add_entry g d = Inr (s, g') \<and> length g' = length g + descriptor_slots d \<and> ref_descriptor_at g' s = Some d
      \<and> s AND 3 = descriptor_level d \<and> (\<forall>t e. ref_descriptor_at g t = Some e \<longrightarrow> ref_descriptor_at g' t = Some e)"
    using room new ref_selector [OF len, of d]
    by (auto simp: ref_add_entry_def ref_descriptor_at_def Let_def nth_append)
qed simp

definition sample_operands :: "operand \<Rightarrow> gpr" where
  "sample_operands i = (case i of ss_operand \<Rightarrow> RAX | stack_operand \<Rightarrow> RCX | rflags_operand \<Rightarrow> RDX | cs_operand \<Rightarrow> R8 | rip_operand \<Rightarrow> R9)"

lemma sample_operands_ok: "operand_regs_ok sample_operands"
  by (auto simp: operand_regs_ok_def sample_operands_def inj_def split: operand.splits)

theorem ring3_entry_witness:
  "\<exists>gdt t' m'. GDT ref_add_entry [None] 0x1000 = Inr gdt
    \<and> enter_ring3 sample_operands gdt 0x700000000000 0x700000004FF0 0x700000005000 4
        (\<lparr>loaded_gdt = None, cs_reg = 8, task_reg = 16, ds_reg = 0, es_reg = 0, fs_reg = 0, gs_reg = 0\<rparr>,
         \<lparr>regs = (\<lambda>_. 7), stack_ptr = 0x444444450000, words = (\<lambda>_. 0), inst_ptr = 0, code_seg = 8, flags_reg = 2, stack_seg = 0\<rparr>) = (t', m')
    \<and> privilege m' = 3 \<and> inst_ptr m' = 0x700000000000 \<and> regs m' RSI = 4 \<and> regs m' R9 = 0x700000000000 \<and> regs m' RBX = 7
    \<and> ref_descriptor_at (fst gdt) (ds_reg t') = Some user_data_segment"
proof -
  have "sample_operands rip_operand = R9" "RBX \<notin> range sample_operands"
    by (auto simp: sample_operands_def split: operand.splits)
  then show ?thesis
    using ring3_entry [OF ref_gdt_laws sample_operands_ok, where tss = "0x1000" and entry_addr = "0x700000000000" and stack_top = "0x700000004FF0"
        and args_ptr = "0x700000005000" and args_len = 4
        and t = "\<lparr>loaded_gdt = None, cs_reg = 8, task_reg = 16, ds_reg = 0, es_reg = 0, fs_reg = 0, gs_reg = 0\<rparr>"
        and m = "\<lparr>regs = (\<lambda>_. 7), stack_ptr = 0x444444450000, words = (\<lambda>_. 0), inst_ptr = 0, code_seg = 8, flags_reg = 2, stack_seg = 0\<rparr>"]
    by (fastforce simp: Let_def split: prod.splits)
qed

theorem ring3_system_call_witness:
  "\<exists>m m'. regs m RAX = 40 \<and> regs m RDI = 2 \<and> inst_ptr m = 0x70000000002A \<and> stack_ptr m = 0x700000004FF0
     \<and> m' = entry sample_call (int_from_ring3 (set_rsp0 0x444444451FF8 TaskStateSegment_new) 8 0x200000 m)
     \<and> regs m' RAX = 42 \<and> regs m' RDI = 2 \<and> inst_ptr m' = 0x70000000002A \<and> stack_ptr m' = 0x700000004FF0"
proof -
  let ?m = "\<lparr>regs = (\<lambda>_. 5)(RAX := 40, RDI := 2), stack_ptr = 0x700000004FF0, words = (\<lambda>a. a), inst_ptr = 0x70000000002A,
     code_seg = 0x23, flags_reg = 0x202, stack_seg = 0x2B\<rparr>"
  let ?m' = "entry sample_call (int_from_ring3 (set_rsp0 0x444444451FF8 TaskStateSegment_new) 8 0x200000 ?m)"
  have "sysv_call sample_call (\<lambda>a b c d e. a + b)" by (auto simp: sysv_call_def sample_call_def)
  then have "?m' = ?m\<lparr>regs := (regs ?m)(RAX := 42), words := words ?m'\<rparr>"
    using ring3_system_call [where call = sample_call and f = "\<lambda>a b c d e. a + b" and tss = TaskStateSegment_new and kstack = "0x444444451FF8" and m' = ?m'
      and kernel_code = 8 and handler = "0x200000" and m = ?m]
    by (simp add: TaskStateSegment_new_def)
  then have "regs ?m' = regs (?m\<lparr>regs := (regs ?m)(RAX := 42), words := words ?m'\<rparr>)"
    "inst_ptr ?m' = inst_ptr (?m\<lparr>regs := (regs ?m)(RAX := 42), words := words ?m'\<rparr>)"
    "stack_ptr ?m' = stack_ptr (?m\<lparr>regs := (regs ?m)(RAX := 42), words := words ?m'\<rparr>)" by (rule arg_cong)+
  then show ?thesis by (intro exI [of _ ?m] exI [of _ ?m']) simp
qed

end
