(* ===== verification/Interrupts.thy ===== *)
theory Interrupts
  imports Syscall_Props Ring3
begin

text \<open>
  Interrupts and exceptions (\<open>src/interrupts.rs\<close>): the descriptor table with its gates, the handlers
  of the two interrupts the kernel uses, the handlers that only acknowledge the others, and the
  exceptions.

  The entries of the table are those of the x86_64 crate: the model has the operations of an entry in a
  record, and \<open>idt_laws\<close> states what they promise. The acknowledgements to the interrupt controllers
  (\<open>pic8259\<close>), the reads of the keyboard port and the accesses to the heap are written to a list of
  events, with the page table that is active at an access to the heap.
\<close>

section \<open>The descriptor table\<close>

definition PIC_1_OFFSET :: u8 where "PIC_1_OFFSET = 32"
definition PIC_2_OFFSET :: u8 where "PIC_2_OFFSET = PIC_1_OFFSET + 8"
definition SYSCALL_VECTOR :: u8 where "SYSCALL_VECTOR = 0x80"

datatype InterruptIndex = Timer | Keyboard

fun InterruptIndex_as_u8 :: "InterruptIndex \<Rightarrow> u8" where
  "InterruptIndex_as_u8 Timer = PIC_1_OFFSET"
| "InterruptIndex_as_u8 Keyboard = PIC_1_OFFSET + 1"

definition InterruptIndex_as_usize :: "InterruptIndex \<Rightarrow> nat" where
  "InterruptIndex_as_usize i = unat (InterruptIndex_as_u8 i)"

text \<open>The handlers of the module, \<open>irq2_handler\<close> to \<open>irq15_handler\<close> by their number.\<close>

datatype handler = breakpoint_handler | double_fault_handler | page_fault_handler | general_protection_fault_handler
  | timer_interrupt_handler | keyboard_interrupt_handler | irq_handler nat | syscall_entry

record 'e idt_api =
  entry_missing :: 'e
  set_handler :: "u64 \<Rightarrow> 'e \<Rightarrow> 'e"
  set_stack_index :: "u16 \<Rightarrow> 'e \<Rightarrow> 'e"
  set_privilege_level :: "u16 \<Rightarrow> 'e \<Rightarrow> 'e"

text \<open>
  The static \<open>IDT\<close>: the breakpoint, double fault, general protection fault and page fault are the
  vectors 3, 8, 13 and 14 of the processor. \<open>addr\<close> gives the addresses of the handlers.
\<close>

definition IDT :: "'e idt_api \<Rightarrow> (handler \<Rightarrow> u64) \<Rightarrow> nat \<Rightarrow> 'e" where
  "IDT api addr =
     (let on = (\<lambda>v h idt. idt(v := set_handler api (addr h) (idt v)));
          idt = (\<lambda>_. entry_missing api);
          idt = on 3 breakpoint_handler idt;
          idt = on 8 double_fault_handler idt;
          idt = idt(8 := set_stack_index api DOUBLE_FAULT_IST_INDEX (idt 8));
          idt = on 14 page_fault_handler idt;
          idt = on 13 general_protection_fault_handler idt;
          idt = on (InterruptIndex_as_usize Timer) timer_interrupt_handler idt;
          idt = on (InterruptIndex_as_usize Keyboard) keyboard_interrupt_handler idt;
          idt = on (unat (PIC_1_OFFSET + 2)) (irq_handler 2) idt;
          idt = on (unat (PIC_1_OFFSET + 3)) (irq_handler 3) idt;
          idt = on (unat (PIC_1_OFFSET + 4)) (irq_handler 4) idt;
          idt = on (unat (PIC_1_OFFSET + 5)) (irq_handler 5) idt;
          idt = on (unat (PIC_1_OFFSET + 6)) (irq_handler 6) idt;
          idt = on (unat (PIC_1_OFFSET + 7)) (irq_handler 7) idt;
          idt = on (unat PIC_2_OFFSET) (irq_handler 8) idt;
          idt = on (unat (PIC_2_OFFSET + 1)) (irq_handler 9) idt;
          idt = on (unat (PIC_2_OFFSET + 2)) (irq_handler 10) idt;
          idt = on (unat (PIC_2_OFFSET + 3)) (irq_handler 11) idt;
          idt = on (unat (PIC_2_OFFSET + 4)) (irq_handler 12) idt;
          idt = on (unat (PIC_2_OFFSET + 5)) (irq_handler 13) idt;
          idt = on (unat (PIC_2_OFFSET + 6)) (irq_handler 14) idt;
          idt = on (unat (PIC_2_OFFSET + 7)) (irq_handler 15) idt;
          idt = on (unat SYSCALL_VECTOR) syscall_entry idt;
          idt = idt(unat SYSCALL_VECTOR := set_privilege_level api 3 (idt (unat SYSCALL_VECTOR)))
      in idt)"

text \<open>
  What the crate documents of an entry: a missing one has no handler; setting a handler makes it
  present, with the kernel's privilege level and no stack of its own until these are set.
\<close>

definition idt_laws ::
  "'e idt_api \<Rightarrow> ('e \<Rightarrow> u64 option) \<Rightarrow> ('e \<Rightarrow> u16) \<Rightarrow> ('e \<Rightarrow> u16 option) \<Rightarrow> bool" where
  "idt_laws api gate_handler gate_level gate_stack \<longleftrightarrow>
     gate_handler (entry_missing api) = None
   \<and> (\<forall>a. let e = set_handler api a (entry_missing api) in gate_handler e = Some a \<and> gate_level e = 0 \<and> gate_stack e = None)
   \<and> (\<forall>i e. let e' = set_stack_index api i e in
        gate_handler e' = gate_handler e \<and> gate_level e' = gate_level e \<and> gate_stack e' = Some i)
   \<and> (\<forall>l e. let e' = set_privilege_level api l e in
        gate_handler e' = gate_handler e \<and> gate_level e' = l \<and> gate_stack e' = gate_stack e)"

section \<open>Handlers\<close>

datatype irq_event = Port_read u16 | Heap_access phys_frame | End_of_interrupt u8

record ('h, 'd, 'q, 'w) irq_state =
  irq_kernel :: "('h, 'd) kernel"
  scancode_queue :: "'q option"
  scancode_waker :: 'w
  events :: "irq_event list"

definition notify_end_of_interrupt :: "u8 \<Rightarrow> ('h, 'd, 'q, 'w) irq_state \<Rightarrow> ('h, 'd, 'q, 'w) irq_state" where
  "notify_end_of_interrupt v s = s\<lparr>events := events s @ [End_of_interrupt v]\<rparr>"

text \<open>The macro \<open>unhandled_pic_interrupt\<close>, for the vector of each handler it is used for.\<close>

definition unhandled_pic_interrupt :: "nat \<Rightarrow> ('h, 'd, 'q, 'w) irq_state \<Rightarrow> ('h, 'd, 'q, 'w) irq_state" where
  "unhandled_pic_interrupt irq =
     notify_end_of_interrupt (if irq < 8 then PIC_1_OFFSET + of_nat irq else PIC_2_OFFSET + of_nat (irq - 8))"

definition timer_interrupt ::
  "('h, 'd) platform \<Rightarrow> ('h, 'd, 'q, 'w) irq_state \<Rightarrow> ('h, 'd, 'q, 'w) irq_state result" where
  "timer_interrupt p s =
     (let s = notify_end_of_interrupt (InterruptIndex_as_u8 Timer) s in
      bind_result (tick p (irq_kernel s)) (\<lambda>k. Inr (s\<lparr>irq_kernel := k\<rparr>)))"

text \<open>\<open>port_data\<close> is the byte that the keyboard gives. The second result is the task that was woken.\<close>

definition keyboard_interrupt ::
  "('q \<Rightarrow> u8 \<Rightarrow> 'q option) \<Rightarrow> ('w \<Rightarrow> nat option \<times> 'w) \<Rightarrow> u8 \<Rightarrow> ('h, 'd, 'q, 'w) irq_state
   \<Rightarrow> (('h, 'd, 'q, 'w) irq_state \<times> nat option) result" where
  "keyboard_interrupt aq_push aw_wake port_data s =
     (let interrupted_page_table = cr3 (cpu_regs (irq_kernel s)) in
      bind_result (kernel_page_table_of (irq_kernel s)) (\<lambda>(kernel_page_table, k).
      let k = (if interrupted_page_table \<noteq> kernel_page_table then cr3_write kernel_page_table k else k);
          s = s\<lparr>events := events s @ [Port_read 0x60]\<rparr>;
          scancode = port_data;
          s = s\<lparr>events := events s @ [Heap_access (cr3 (cpu_regs k))]\<rparr> in
      bind_result (add_scancode aq_push aw_wake scancode (scancode_queue s) (scancode_waker s) (screen k))
        (\<lambda>(cell, waker, screen, woken).
      let k = k\<lparr>screen := screen\<rparr>;
          k = (if interrupted_page_table \<noteq> kernel_page_table then cr3_write interrupted_page_table k else k);
          s = s\<lparr>irq_kernel := k, scancode_queue := cell, scancode_waker := waker\<rparr>
      in Inr (notify_end_of_interrupt (InterruptIndex_as_u8 Keyboard) s, woken))))"

text \<open>
  The exceptions. \<open>frame\<close> is the printed form of the interrupt stack frame, and \<open>detail\<close> that of the
  error code and the address.
\<close>

definition breakpoint_exception :: "string \<Rightarrow> writer \<Rightarrow> writer result" where
  "breakpoint_exception frame = println (''EXCEPTION: BREAKPOINT'' @ [CHR 0x0A] @ frame)"

definition double_fault_exception :: "string \<Rightarrow> 'a result" where
  "double_fault_exception detail = panic (''EXCEPTION: DOUBLE FAULT'' @ [CHR 0x0A] @ detail)"

definition page_fault_exception :: "string \<Rightarrow> 'a result" where
  "page_fault_exception detail = panic (''EXCEPTION: PAGE FAULT'' @ [CHR 0x0A] @ detail)"

definition general_protection_fault_exception :: "string \<Rightarrow> 'a result" where
  "general_protection_fault_exception detail = panic (''EXCEPTION: GENERAL PROTECTION FAULT'' @ [CHR 0x0A] @ detail)"

section \<open>Properties\<close>

lemma idt_entries:
  assumes laws: "idt_laws api gate_handler gate_level gate_stack"
  shows "gate_handler (entry_missing api) = None"
    and "gate_handler (set_handler api a (entry_missing api)) = Some a" "gate_level (set_handler api a (entry_missing api)) = 0"
    "gate_stack (set_handler api a (entry_missing api)) = None"
    and "gate_handler (set_stack_index api i e) = gate_handler e" "gate_level (set_stack_index api i e) = gate_level e"
    "gate_stack (set_stack_index api i e) = Some i"
    and "gate_handler (set_privilege_level api l e) = gate_handler e" "gate_level (set_privilege_level api l e) = l"
    "gate_stack (set_privilege_level api l e) = gate_stack e"
  using laws unfolding idt_laws_def Let_def by blast+

text \<open>The handler that is meant for a vector.\<close>

definition handler_for :: "nat \<Rightarrow> handler option" where
  "handler_for v =
     (if v = 3 then Some breakpoint_handler else if v = 8 then Some double_fault_handler
      else if v = 13 then Some general_protection_fault_handler else if v = 14 then Some page_fault_handler
      else if v = 32 then Some timer_interrupt_handler else if v = 33 then Some keyboard_interrupt_handler
      else if 34 \<le> v \<and> v \<le> 47 then Some (irq_handler (v - 32))
      else if v = 0x80 then Some syscall_entry else None)"

lemma idt_vectors:
  "IDT api addr v =
     (case handler_for v of
        None \<Rightarrow> entry_missing api
      | Some h \<Rightarrow> (let e = set_handler api (addr h) (entry_missing api) in
          if v = 8 then set_stack_index api DOUBLE_FAULT_IST_INDEX e else if v = 0x80 then set_privilege_level api 3 e else e))"
proof -
  have "IDT api addr = (\<lambda>_. entry_missing api)
    (3 := set_handler api (addr breakpoint_handler) (entry_missing api),
     8 := set_stack_index api DOUBLE_FAULT_IST_INDEX (set_handler api (addr double_fault_handler) (entry_missing api)),
     14 := set_handler api (addr page_fault_handler) (entry_missing api),
     13 := set_handler api (addr general_protection_fault_handler) (entry_missing api),
     32 := set_handler api (addr timer_interrupt_handler) (entry_missing api),
     33 := set_handler api (addr keyboard_interrupt_handler) (entry_missing api),
     34 := set_handler api (addr (irq_handler 2)) (entry_missing api), 35 := set_handler api (addr (irq_handler 3)) (entry_missing api),
     36 := set_handler api (addr (irq_handler 4)) (entry_missing api), 37 := set_handler api (addr (irq_handler 5)) (entry_missing api),
     38 := set_handler api (addr (irq_handler 6)) (entry_missing api), 39 := set_handler api (addr (irq_handler 7)) (entry_missing api),
     40 := set_handler api (addr (irq_handler 8)) (entry_missing api), 41 := set_handler api (addr (irq_handler 9)) (entry_missing api),
     42 := set_handler api (addr (irq_handler 10)) (entry_missing api), 43 := set_handler api (addr (irq_handler 11)) (entry_missing api),
     44 := set_handler api (addr (irq_handler 12)) (entry_missing api), 45 := set_handler api (addr (irq_handler 13)) (entry_missing api),
     46 := set_handler api (addr (irq_handler 14)) (entry_missing api), 47 := set_handler api (addr (irq_handler 15)) (entry_missing api),
     0x80 := set_privilege_level api 3 (set_handler api (addr syscall_entry) (entry_missing api)))"
    by (simp add: IDT_def InterruptIndex_as_usize_def PIC_1_OFFSET_def PIC_2_OFFSET_def SYSCALL_VECTOR_def)
  moreover have "v \<in> set [34, 35, 36, 37, 38, 39, 40, 41, 42, 43, 44, 45, 46, 47] \<or> \<not> (34 \<le> v \<and> v \<le> 47)"
  proof -
    have "[34..<48] = [34, 35, 36, 37, 38, 39, 40, 41, 42, 43, 44, 45, 46, 47 :: nat]" by (simp add: upt_rec)
    then show ?thesis using atLeastLessThan_upt [of 34 48] by fastforce
  qed
  ultimately show ?thesis by (auto simp: handler_for_def)
qed

text \<open>
  C17. The gates of the interrupt table. Every interrupt that the two controllers can raise, the vectors
  32 to 47, has its handler, and so have the breakpoint, the double fault, the page fault and the
  general protection fault; the double fault runs on the stack of the task state segment that \<open>gdt.rs\<close>
  sets up for it, and no other gate changes the stack. The only gate that a program in ring 3 can reach
  with \<open>int\<close> is 0x80, and it leads to the entry code of the system calls.
\<close>

theorem idt_gates:
  assumes laws: "idt_laws api gate_handler gate_level gate_stack"
  shows "(\<forall>v. gate_handler (IDT api addr v) = map_option addr (handler_for v))
    \<and> (\<forall>v. gate_handler (IDT api addr v) \<noteq> None \<and> 3 \<le> gate_level (IDT api addr v) \<longleftrightarrow> v = 0x80)
    \<and> gate_handler (IDT api addr 0x80) = Some (addr syscall_entry)
    \<and> (\<forall>v. gate_handler (IDT api addr v) \<noteq> None \<and> gate_stack (IDT api addr v) \<noteq> None \<longleftrightarrow> v = 8)
    \<and> gate_stack (IDT api addr 8) = Some DOUBLE_FAULT_IST_INDEX"
proof -
  note e = idt_entries [OF laws]
  have "gate_handler (IDT api addr v) = map_option addr (handler_for v)" for v
    by (cases "handler_for v") (simp_all add: idt_vectors Let_def e)
  moreover have "gate_handler (IDT api addr v) \<noteq> None \<and> 3 \<le> gate_level (IDT api addr v) \<longleftrightarrow> v = 0x80" for v
    by (cases "handler_for v") (auto simp: idt_vectors Let_def e handler_for_def split: if_splits)
  moreover have "gate_handler (IDT api addr v) \<noteq> None \<and> gate_stack (IDT api addr v) \<noteq> None \<longleftrightarrow> v = 8" for v
    by (cases "handler_for v") (auto simp: idt_vectors Let_def e handler_for_def split: if_splits)
  ultimately show ?thesis by (simp add: idt_vectors handler_for_def Let_def e)
qed

lemma cr3_restored:
  "(cr3_write l k)\<lparr>screen := w\<rparr> = cr3_write l (k\<lparr>screen := w\<rparr>)" "cr3_write l' (cr3_write l k) = cr3_write l' k"
  "cr3_write (cr3 (cpu_regs k)) k = k" "cr3 (cpu_regs (cr3_write l k)) = l" "screen (cr3_write l k) = screen k"
  "cr3_write (cr3 (cpu_regs k)) (k\<lparr>screen := w\<rparr>) = k\<lparr>screen := w\<rparr>"
  by (simp_all add: cr3_write_def)

text \<open>
  C18. The keyboard interrupt, whatever thread it interrupts. The byte from the keyboard goes to the end
  of the queue of scancodes, or is dropped with a warning when 100 are waiting; only a byte that was
  queued wakes the task. The heap is accessed only while the kernel's own page table is active, the
  interrupted page table is active again at the end, nothing of the kernel's state but the screen
  changes, and the interrupt is acknowledged once, after everything else. The handler does not panic.
\<close>

theorem keyboard_interrupt_effect:
  assumes fifo: "bounded_fifo q0 aq_push aq_pop contents invar 100" and st: "scheduler (irq_kernel s) = Some st"
    and w: "writer_ok (screen (irq_kernel s))" and q: "scancode_queue s = Some q" "invar q"
  shows "\<exists>s' woken. keyboard_interrupt aq_push aw_wake byte s = Inr (s', woken)
    \<and> events s' = events s @ [Port_read 0x60, Heap_access (kernel_page_table st), End_of_interrupt 33]
    \<and> irq_kernel s' = (irq_kernel s)\<lparr>screen := screen (irq_kernel s')\<rparr>
    \<and> (\<exists>q'. scancode_queue s' = Some q' \<and> invar q' \<and> contents q' = take 100 (contents q @ [byte]))
    \<and> (if length (contents q) < 100
       then screen (irq_kernel s') = screen (irq_kernel s) \<and> (woken, scancode_waker s') = aw_wake (scancode_waker s)
       else woken = None \<and> scancode_waker s' = scancode_waker s)"
proof -
  note table = kernel_page_table_of_eq [OF st]
  show ?thesis
  proof (cases "length (contents q) < 100")
    case True
    then obtain q' where "aq_push q byte = Some q'" "invar q'" "contents q' = contents q @ [byte]"
      using bounded_fifo.push_room [OF fifo q(2)] by blast
    then show ?thesis using True q(1) table
      by (auto simp: keyboard_interrupt_def add_scancode_def notify_end_of_interrupt_def cr3_restored PIC_1_OFFSET_def Let_def
          split: prod.splits)
  next
    case False
    then have "length (contents q) = 100" using bounded_fifo.contents_bound [OF fifo q(2)] by simp
    then have "aq_push q byte = None" using bounded_fifo.push_full [OF fifo q(2)] by blast
    moreover obtain w' where "println ''WARNING: scancode queue full; dropping keyboard input'' (screen (irq_kernel s)) = Inr w'"
      unfolding println_def using write_string_returns [OF w] by blast
    ultimately show ?thesis using False q table \<open>length (contents q) = 100\<close>
      by (auto simp: keyboard_interrupt_def add_scancode_def notify_end_of_interrupt_def cr3_restored PIC_1_OFFSET_def Let_def)
  qed
qed

section \<open>A concrete table and a concrete interrupt\<close>

text \<open>An entry as the handler, if it is present, the level and the stack.\<close>

definition ref_idt :: "(u64 option \<times> u16 \<times> u16 option) idt_api" where
  "ref_idt = \<lparr>entry_missing = (None, 0, None), set_handler = (\<lambda>a e. (Some a, 0, None)),
     set_stack_index = (\<lambda>i (a, l, _). (a, l, Some i)), set_privilege_level = (\<lambda>l (a, _, i). (a, l, i))\<rparr>"

fun ref_addr :: "handler \<Rightarrow> u64" where
  "ref_addr (irq_handler n) = 0x300000 + of_nat n"
| "ref_addr syscall_entry = 0x200000"
| "ref_addr _ = 0x210000"

theorem idt_gates_witness:
  "fst (IDT ref_idt ref_addr 0x80) = Some 0x200000 \<and> fst (IDT ref_idt ref_addr 39) = Some 0x300007
   \<and> snd (snd (IDT ref_idt ref_addr 8)) = Some 0 \<and> fst (IDT ref_idt ref_addr 5) = None"
proof -
  have "idt_laws ref_idt fst (\<lambda>e. fst (snd e)) (\<lambda>e. snd (snd e))"
    unfolding idt_laws_def ref_idt_def by (simp add: Let_def split_beta)
  from idt_gates [OF this, of ref_addr] show ?thesis by (simp add: handler_for_def DOUBLE_FAULT_IST_INDEX_def)
qed

definition sample_irq :: "((u64 \<times> u64) list, ata_view, u8 list, nat option) irq_state" where
  "sample_irq = \<lparr>irq_kernel = sample_kernel\<lparr>scheduler := Some (initial_state 0x1000), cpu_regs := (cpu_regs sample_kernel)\<lparr>cr3 := 0x7000\<rparr>,
       screen := writer_init (replicate 25 (replicate 80 \<lparr>ascii_character = 0x20, cell_color = 0x0E\<rparr>))\<rparr>,
     scancode_queue = Some [0x1E], scancode_waker = Some 0, events = []\<rparr>"

theorem keyboard_interrupt_effect_witness:
  "\<exists>s'. keyboard_interrupt (\<lambda>q b. if length q < 100 then Some (q @ [b]) else None) (\<lambda>w. (w, None)) 0x30 sample_irq = Inr (s', Some 0)
     \<and> events s' = [Port_read 0x60, Heap_access 0x1000, End_of_interrupt 33] \<and> cr3 (cpu_regs (irq_kernel s')) = 0x7000
     \<and> scancode_queue s' = Some [0x1E, 0x30]"
proof -
  have "bounded_fifo [] (\<lambda>q b. if length q < 100 then Some (q @ [b]) else None)
      (\<lambda>q. case q of [] \<Rightarrow> (None, []) | b # q \<Rightarrow> (Some b, q)) (\<lambda>q. q) (\<lambda>q. length q \<le> 100) 100"
    by unfold_locales auto
  moreover have "scheduler (irq_kernel sample_irq) = Some (initial_state 0x1000)" by (simp add: sample_irq_def)
  moreover have "writer_ok (screen (irq_kernel sample_irq))"
    using writer_init_ok [of "replicate 25 (replicate 80 \<lparr>ascii_character = 0x20, cell_color = 0x0E\<rparr>)"]
    by (simp add: sample_irq_def vga_consts)
  moreover have "scancode_queue sample_irq = Some [0x1E]" "length [0x1E :: u8] \<le> 100" by (simp_all add: sample_irq_def)
  ultimately obtain s' woken where s': "keyboard_interrupt (\<lambda>q b. if length q < 100 then Some (q @ [b]) else None) (\<lambda>w. (w, None)) 0x30 sample_irq
        = Inr (s', woken)" "events s' = events sample_irq @ [Port_read 0x60, Heap_access (kernel_page_table (initial_state 0x1000)), End_of_interrupt 33]"
      "irq_kernel s' = (irq_kernel sample_irq)\<lparr>screen := screen (irq_kernel s')\<rparr>"
      "\<exists>q'. scancode_queue s' = Some q' \<and> length q' \<le> 100 \<and> q' = take 100 ([0x1E] @ [0x30])"
      "(woken, scancode_waker s') = (scancode_waker sample_irq, None)"
    using keyboard_interrupt_effect [where s = sample_irq and aw_wake = "\<lambda>w. (w, None)" and byte = "0x30"] by fastforce
  have "cr3 (cpu_regs (irq_kernel s')) = 0x7000" by (subst s'(3)) (simp add: sample_irq_def)
  then show ?thesis using s' by (simp add: sample_irq_def initial_state_def)
qed

end
