(* ===== verification/Userspace.thy ===== *)
theory Userspace
  imports Syscall
begin

text \<open>
  The demo programs of \<open>src/userspace.rs\<close>: the builders that assemble their machine code byte by byte,
  the ELF file around one of them, the mapping of a program's page, and the functions that set up an
  address space for a demo and start its thread.

  A vector that is pushed to is a list that is appended to. The code patches the bytes of an address
  that was not known yet; \<open>overwrite\<close> is this \<open>copy_from_slice\<close>. The register numbers are
  below 8, so that the opcode \<open>0xB8 + reg\<close> does not overflow. The heap memory of the vectors is not modelled.
\<close>

section \<open>Instructions\<close>

definition USER_PAGE_ADDR :: u64 where "USER_PAGE_ADDR = 0x555555550000"
definition ISOLATED_USER_PAGE_ADDR :: u64 where "ISOLATED_USER_PAGE_ADDR = 0x600000000000"

definition mov_imm64 :: "u8 list \<Rightarrow> u8 \<Rightarrow> u64 \<Rightarrow> u8 list" where
  "mov_imm64 code reg_opcode value = code @ [0x48, 0xB8 + reg_opcode] @ to_le_bytes 8 value"

definition mov_r64_r64 :: "u8 list \<Rightarrow> u8 \<Rightarrow> u8 \<Rightarrow> u8 list" where
  "mov_r64_r64 code dst src = code @ [0x48, 0x89, (0xC0 OR push_bit 3 src) OR dst]"

definition REG_RAX :: u8 where "REG_RAX = 0"
definition REG_RCX :: u8 where "REG_RCX = 1"
definition REG_RDX :: u8 where "REG_RDX = 2"
definition REG_RSI :: u8 where "REG_RSI = 6"
definition REG_RDI :: u8 where "REG_RDI = 7"

text \<open>\<open>int 0x80\<close>.\<close>

abbreviation INT80 :: "u8 list" where "INT80 \<equiv> [0xcd, 0x80]"

definition rel8 :: "nat \<Rightarrow> nat \<Rightarrow> u8 result" where
  "rel8 target_offset next_instruction_offset =
     (let delta = int target_offset - int next_instruction_offset in
      if - 128 \<le> delta \<and> delta \<le> 127 then Inr (of_int delta)
      else panic ''shellcode jump target out of rel8 range'')"

section \<open>The echo program\<close>

definition build_echo_shellcode :: "u64 \<Rightarrow> u8 list result" where
  "build_echo_shellcode page_addr =
     (let code = [];
          read_loop = length code;
          code = mov_imm64 code REG_RAX SYS_READ;
          code = mov_imm64 code REG_RDI 0;
          read_buf_patch_at = length code + 2;
          code = mov_imm64 code REG_RSI 0;
          code = mov_imm64 code REG_RDX 1;
          code = code @ INT80;
          code = code @ [0x48, 0x85, 0xc0];
          jz_opcode_at = length code;
          code = code @ [0x74, 0x00] in
      bind_result (rel8 read_loop (length code)) (\<lambda>d.
      let code = code[jz_opcode_at + 1 := d];
          code = mov_imm64 code REG_RAX SYS_WRITE;
          code = mov_imm64 code REG_RDI 1;
          write_buf_patch_at = length code + 2;
          code = mov_imm64 code REG_RSI 0;
          code = mov_imm64 code REG_RDX 1;
          code = code @ INT80;
          jmp_opcode_at = length code;
          code = code @ [0xeb, 0x00] in
      bind_result (rel8 read_loop (length code)) (\<lambda>d.
      let code = code[jmp_opcode_at + 1 := d] in
      bind_result (add_ovf page_addr (of_nat (length code))) (\<lambda>buf_addr.
      let code = overwrite code read_buf_patch_at (to_le_bytes 8 buf_addr);
          code = overwrite code write_buf_patch_at (to_le_bytes 8 buf_addr) in
      Inr (code @ [0])))))"

section \<open>The programs of the other demos\<close>

definition OPEN_READ_DEMO_ADDR :: u64 where "OPEN_READ_DEMO_ADDR = 0x750000000000"
definition OPEN_READ_DEMO_PATH :: "u8 list" where "OPEN_READ_DEMO_PATH = map of_char ''HELLO.TXT''"
definition OPEN_READ_DEMO_READ_LEN :: u64 where "OPEN_READ_DEMO_READ_LEN = 64"

definition build_open_read_shellcode :: "u64 \<Rightarrow> u8 list result" where
  "build_open_read_shellcode page_addr =
     (let code = mov_imm64 [] REG_RAX SYS_OPEN;
          path_ptr_patch_at = length code + 2;
          code = mov_imm64 code REG_RDI 0;
          code = mov_imm64 code REG_RSI (of_nat (length OPEN_READ_DEMO_PATH));
          code = code @ INT80;
          code = mov_r64_r64 code REG_RDI REG_RAX;
          code = mov_imm64 code REG_RAX SYS_READ;
          read_buf_patch_at = length code + 2;
          code = mov_imm64 code REG_RSI 0;
          code = mov_imm64 code REG_RDX OPEN_READ_DEMO_READ_LEN;
          code = code @ INT80;
          code = mov_r64_r64 code REG_RDX REG_RAX;
          code = mov_imm64 code REG_RAX SYS_WRITE;
          code = mov_imm64 code REG_RDI 1;
          write_buf_patch_at = length code + 2;
          code = mov_imm64 code REG_RSI 0;
          code = code @ INT80;
          code = mov_imm64 code REG_RAX SYS_EXIT;
          code = code @ INT80 in
      bind_result (add_ovf page_addr (of_nat (length code))) (\<lambda>path_addr.
      let code = overwrite code path_ptr_patch_at (to_le_bytes 8 path_addr);
          code = code @ OPEN_READ_DEMO_PATH in
      bind_result (add_ovf page_addr (of_nat (length code))) (\<lambda>buf_addr.
      let code = overwrite code read_buf_patch_at (to_le_bytes 8 buf_addr);
          code = overwrite code write_buf_patch_at (to_le_bytes 8 buf_addr) in
      Inr (code @ replicate (unat OPEN_READ_DEMO_READ_LEN) 0))))"

definition BAD_POINTER_DEMO_ADDR :: u64 where "BAD_POINTER_DEMO_ADDR = 0x7A0000000000"
definition BAD_POINTER :: u64 where "BAD_POINTER = 0xdeadbeef"

definition build_bad_pointer_shellcode :: "u8 list" where
  "build_bad_pointer_shellcode =
     (let code = mov_imm64 [] REG_RAX SYS_WRITE;
          code = mov_imm64 code REG_RDI 1;
          code = mov_imm64 code REG_RSI BAD_POINTER;
          code = mov_imm64 code REG_RDX 10
      in code @ INT80)"

definition SPAWN_WAIT_DEMO_ADDR :: u64 where "SPAWN_WAIT_DEMO_ADDR = 0x7C0000000000"
definition SPAWN_WAIT_CHILD_PATH :: "u8 list" where "SPAWN_WAIT_CHILD_PATH = map of_char ''GREET.ELF''"
definition SPAWN_WAIT_DONE_MSG :: "u8 list" where
  "SPAWN_WAIT_DONE_MSG = map of_char ''spawn/wait demo: child finished, parent resumed'' @ [0x0A]"

definition build_spawn_wait_shellcode :: "u64 \<Rightarrow> u8 list result" where
  "build_spawn_wait_shellcode page_addr =
     (let code = mov_imm64 [] REG_RAX SYS_SPAWN;
          path_ptr_patch_at = length code + 2;
          code = mov_imm64 code REG_RDI 0;
          code = mov_imm64 code REG_RSI (of_nat (length SPAWN_WAIT_CHILD_PATH));
          code = mov_imm64 code REG_RDX 0;
          code = mov_imm64 code REG_RCX 0;
          code = code @ INT80;
          code = mov_r64_r64 code REG_RDI REG_RAX;
          code = mov_imm64 code REG_RAX SYS_WAIT;
          code = code @ INT80;
          code = mov_imm64 code REG_RAX SYS_WRITE;
          code = mov_imm64 code REG_RDI 1;
          done_msg_patch_at = length code + 2;
          code = mov_imm64 code REG_RSI 0;
          code = mov_imm64 code REG_RDX (of_nat (length SPAWN_WAIT_DONE_MSG));
          code = code @ INT80;
          code = mov_imm64 code REG_RAX SYS_EXIT;
          code = code @ INT80 in
      bind_result (add_ovf page_addr (of_nat (length code))) (\<lambda>path_addr.
      let code = overwrite code path_ptr_patch_at (to_le_bytes 8 path_addr);
          code = code @ SPAWN_WAIT_CHILD_PATH in
      bind_result (add_ovf page_addr (of_nat (length code))) (\<lambda>done_msg_addr.
      let code = overwrite code done_msg_patch_at (to_le_bytes 8 done_msg_addr) in
      Inr (code @ SPAWN_WAIT_DONE_MSG))))"

section \<open>The test executable\<close>

definition ELF_LOAD_ADDR :: u64 where "ELF_LOAD_ADDR = 0x700000000000"

definition EHDR_SIZE :: u64 where "EHDR_SIZE = 64"
definition PHDR_SIZE :: u64 where "PHDR_SIZE = 56"

definition build_test_elf :: "u64 \<Rightarrow> u8 list result" where
  "build_test_elf load_addr =
     bind_result (build_echo_shellcode load_addr) (\<lambda>payload.
     let payload_offset = EHDR_SIZE + PHDR_SIZE;
         elf = [0x7f, 0x45, 0x4C, 0x46] @ [2] @ [1] @ [1] @ [0] @ replicate 8 0
           @ to_le_bytes 2 (2 :: u16) @ to_le_bytes 2 (0x3e :: u16) @ to_le_bytes 4 (1 :: u32)
           @ to_le_bytes 8 load_addr @ to_le_bytes 8 EHDR_SIZE @ to_le_bytes 8 (0 :: u64) @ to_le_bytes 4 (0 :: u32)
           @ to_le_bytes 2 (ucast EHDR_SIZE :: u16) @ to_le_bytes 2 (ucast PHDR_SIZE :: u16) @ to_le_bytes 2 (1 :: u16)
           @ to_le_bytes 2 (0 :: u16) @ to_le_bytes 2 (0 :: u16) @ to_le_bytes 2 (0 :: u16) in
     if of_nat (length elf) \<noteq> EHDR_SIZE then panic ''assertion failed: elf.len() as u64 == EHDR_SIZE''
     else
     let elf = elf @ to_le_bytes 4 (1 :: u32) @ to_le_bytes 4 (7 :: u32) @ to_le_bytes 8 payload_offset
           @ to_le_bytes 8 load_addr @ to_le_bytes 8 load_addr
           @ to_le_bytes 8 (of_nat (length payload) :: u64) @ to_le_bytes 8 (of_nat (length payload) :: u64)
           @ to_le_bytes 8 (4096 :: u64) in
     if of_nat (length elf) \<noteq> payload_offset then panic ''assertion failed: elf.len() as u64 == payload_offset''
     else Inr (elf @ payload))"

section \<open>Setting up a demo\<close>

text \<open>
  One page with the code at its start, in the table \<open>mapper\<close>; the stack grows down from its end.
  The code is copied through the mapping of all physical memory.
\<close>

definition map_shellcode_page ::
  "('h, 'd) platform \<Rightarrow> phys_frame \<Rightarrow> u64 \<Rightarrow> u8 list \<Rightarrow> mem_state \<Rightarrow> mem_state result" where
  "map_shellcode_page p mapper addr code m =
     bind_result (virt_new (x86 p) addr) (\<lambda>addr.
     let page = page_containing (x86 p) addr in
     bind_result (global_allocate_frame (x86 p) (snd m)) (\<lambda>(frame, fs).
     bind_result (expect ''no physical frames left for the ring 3 demo page'' frame) (\<lambda>frame.
     let flags = (PRESENT OR WRITABLE) OR USER_ACCESSIBLE in
     bind_result (map_to p mapper page frame flags (fst m, fs)) (\<lambda>(err, pm, fs).
     if err \<noteq> None then panic ''failed to map the ring 3 demo page''
     else Inr (copy_to_frame frame code pm, fs)))))"

text \<open>The part that the demos share: a new address space with the code in its page.\<close>

definition demo_space ::
  "('h, 'd) platform \<Rightarrow> virt_addr \<Rightarrow> u64 \<Rightarrow> u8 list result \<Rightarrow> ('h, 'd) kernel
   \<Rightarrow> (phys_frame \<times> ('h, 'd) kernel) result" where
  "demo_space p offset addr shellcode k =
     bind_result (new_address_space (x86 p) (global_allocate_frame (x86 p)) offset (cr3 (cpu_regs k)) (memory k) (frames k))
       (\<lambda>(l4_frame, m).
     bind_result shellcode (\<lambda>code.
     bind_result (map_shellcode_page p l4_frame addr code m) (\<lambda>(pm, fs).
     Inr (l4_frame, k\<lparr>memory := pm, frames := fs\<rparr>))))"

definition map_demo_page :: "('h, 'd) platform \<Rightarrow> phys_frame \<Rightarrow> mem_state \<Rightarrow> mem_state result" where
  "map_demo_page p mapper m =
     bind_result (build_echo_shellcode USER_PAGE_ADDR) (\<lambda>code. map_shellcode_page p mapper USER_PAGE_ADDR code m)"

text \<open>\<open>run_fn\<close> is the address of the function that enters the program in ring 3.\<close>

definition spawn_isolated_demo ::
  "('h, 'd) platform \<Rightarrow> u64 \<Rightarrow> phys_frame \<Rightarrow> virt_addr \<Rightarrow> bool \<Rightarrow> ('h, 'd) kernel \<Rightarrow> (unit \<times> ('h, 'd) kernel) result" where
  "spawn_isolated_demo p run_fn kernel_mapper offset run_it k =
     bind_result (demo_space p offset ISOLATED_USER_PAGE_ADDR (build_echo_shellcode ISOLATED_USER_PAGE_ADDR) k)
       (\<lambda>(l4_frame, k).
     if run_it then bind_result (spawn_isolated p run_fn l4_frame kernel_mapper l4_frame k) (\<lambda>(pid, k). Inr ((), k))
     else Inr ((), k))"

definition spawn_demo ::
  "('h, 'd) platform \<Rightarrow> u64 \<Rightarrow> phys_frame \<Rightarrow> virt_addr \<Rightarrow> u64 \<Rightarrow> u8 list result \<Rightarrow> bool \<Rightarrow> ('h, 'd) kernel
   \<Rightarrow> (u64 option \<times> ('h, 'd) kernel) result" where
  "spawn_demo p run_fn kernel_mapper offset addr shellcode run_it k =
     bind_result (demo_space p offset addr shellcode k) (\<lambda>(l4_frame, k).
     if run_it then bind_result (spawn_isolated p run_fn l4_frame kernel_mapper l4_frame k) (\<lambda>(pid, k). Inr (Some pid, k))
     else Inr (None, k))"

definition spawn_open_read_demo where
  "spawn_open_read_demo p run_fn kernel_mapper offset run_it k =
     spawn_demo p run_fn kernel_mapper offset OPEN_READ_DEMO_ADDR (build_open_read_shellcode OPEN_READ_DEMO_ADDR) run_it k"

definition spawn_bad_pointer_demo where
  "spawn_bad_pointer_demo p run_fn kernel_mapper offset run_it k =
     spawn_demo p run_fn kernel_mapper offset BAD_POINTER_DEMO_ADDR (Inr build_bad_pointer_shellcode) run_it k"

definition spawn_spawn_wait_demo where
  "spawn_spawn_wait_demo p run_fn kernel_mapper offset run_it k =
     spawn_demo p run_fn kernel_mapper offset SPAWN_WAIT_DEMO_ADDR (build_spawn_wait_shellcode SPAWN_WAIT_DEMO_ADDR) run_it k"

text \<open>
  The demos with an ELF file. The first component of the state holds the statics \<open>ELF_DEMO_ENTRY\<close> and
  \<open>ELF_DEMO_STACK_TOP\<close>. The line that is printed has the dash of the format string as its three bytes
  of UTF-8.
\<close>

fun hex_digits :: "nat \<Rightarrow> string" where
  "hex_digits n = (if n < 16 then [''0123456789abcdef'' ! n] else hex_digits (n div 16) @ [''0123456789abcdef'' ! (n mod 16)])"

declare hex_digits.simps [simp del]

definition loaded_message :: "LoadedElf \<Rightarrow> string" where
  "loaded_message loaded =
     ''[elf]   loaded OK '' @ map char_of [0xE2, 0x80, 0x94 :: nat] @ '' entry=0x'' @ hex_digits (unat (elf_entry loaded))
     @ '', stack_top=0x'' @ hex_digits (unat (elf_stack_top loaded))"

definition spawn_loaded_elf_demo ::
  "('h, 'd) platform \<Rightarrow> u64 \<Rightarrow> u8 list \<Rightarrow> phys_frame \<Rightarrow> virt_addr \<Rightarrow> bool
   \<Rightarrow> (u64 \<times> u64) \<times> ('h, 'd) kernel \<Rightarrow> ((u64 \<times> u64) \<times> ('h, 'd) kernel) result" where
  "spawn_loaded_elf_demo p run_fn elf_bytes kernel_mapper offset run_it s =
     (case s of (_, k) \<Rightarrow>
      bind_result (load p elf_bytes offset [] (cr3 (cpu_regs k)) (memory k, frames k)) (\<lambda>(loaded, pm, fs).
      let k = k\<lparr>memory := pm, frames := fs\<rparr> in
      bind_result (expect ''elf::load: kernel's own or build.rs's ECHO.ELF should always be well-formed'' loaded)
        (\<lambda>(isolated_mapper, loaded).
      bind_result (println (loaded_message loaded) (screen k)) (\<lambda>w.
      let k = k\<lparr>screen := w\<rparr>;
          statics = (elf_entry loaded, elf_stack_top loaded) in
      if run_it
      then bind_result (spawn_isolated p run_fn (elf_page_table loaded) kernel_mapper isolated_mapper k) (\<lambda>(pid, k). Inr (statics, k))
      else Inr (statics, k)))))"

definition spawn_elf_demo where
  "spawn_elf_demo p run_fn kernel_mapper offset run_it s =
     bind_result (build_test_elf ELF_LOAD_ADDR) (\<lambda>elf_bytes.
     spawn_loaded_elf_demo p run_fn elf_bytes kernel_mapper offset run_it s)"

definition spawn_disk_elf_demo where
  "spawn_disk_elf_demo p run_fn elf_bytes kernel_mapper offset run_it s =
     spawn_loaded_elf_demo p run_fn elf_bytes kernel_mapper offset run_it s"

text \<open>Where the demos' threads enter ring 3: entry point, stack top and no arguments.\<close>

definition run_at_page :: "('h, 'd) platform \<Rightarrow> u64 \<Rightarrow> (virt_addr \<times> virt_addr \<times> virt_addr \<times> u64) result" where
  "run_at_page p addr =
     bind_result (virt_new (x86 p) addr) (\<lambda>start.
     bind_result (add_ovf addr 4096) (\<lambda>a.
     bind_result (sub_ovf a 16) (\<lambda>a.
     bind_result (virt_new (x86 p) a) (\<lambda>stack_top.
     Inr (start, stack_top, 0, 0)))))"

definition run_demo where "run_demo p = run_at_page p USER_PAGE_ADDR"
definition run_isolated_demo where "run_isolated_demo p = run_at_page p ISOLATED_USER_PAGE_ADDR"
definition run_open_read_demo where "run_open_read_demo p = run_at_page p OPEN_READ_DEMO_ADDR"
definition run_bad_pointer_demo where "run_bad_pointer_demo p = run_at_page p BAD_POINTER_DEMO_ADDR"
definition run_spawn_wait_demo where "run_spawn_wait_demo p = run_at_page p SPAWN_WAIT_DEMO_ADDR"

definition run_elf_demo :: "('h, 'd) platform \<Rightarrow> u64 \<times> u64 \<Rightarrow> (virt_addr \<times> virt_addr \<times> virt_addr \<times> u64) result" where
  "run_elf_demo p statics =
     bind_result (virt_new (x86 p) (fst statics)) (\<lambda>start.
     bind_result (virt_new (x86 p) (snd statics)) (\<lambda>stack_top.
     Inr (start, stack_top, 0, 0)))"

end
