(* ===== verification/User_Programs.thy ===== *)
theory User_Programs
  imports Userspace Elf_Props
begin

text \<open>
  What the assembled programs do. The instructions that the builders use are given their encoding, a
  decoder and an effect on the registers of the program, and each builder is shown to produce the
  listing in its comment. Running the bytes gives the sequence of system calls of the program, for
  all answers of the kernel.
\<close>

section \<open>The instruction set of the programs\<close>

text \<open>Registers are the numbers of their encoding; a jump has its displacement as a byte.\<close>

datatype instr = Mov_imm u8 u64 | Mov_reg u8 u8 | Int80 | Test_rax | Jz u8 | Jmp u8

fun encode :: "instr \<Rightarrow> u8 list" where
  "encode (Mov_imm r v) = [0x48, 0xB8 + r] @ to_le_bytes 8 v"
| "encode (Mov_reg d s) = [0x48, 0x89, (0xC0 OR push_bit 3 s) OR d]"
| "encode Int80 = [0xCD, 0x80]"
| "encode Test_rax = [0x48, 0x85, 0xC0]"
| "encode (Jz d) = [0x74, d]"
| "encode (Jmp d) = [0xEB, d]"

text \<open>The decoder reads the first instruction and tells its length.\<close>

definition decode :: "u8 list \<Rightarrow> (instr \<times> nat) option" where
  "decode bs =
     (case bs of
        a # b # rest \<Rightarrow>
          if a = 0x48 \<and> 0xB8 \<le> b \<and> b \<le> 0xBF then
            (if 8 \<le> length rest then Some (Mov_imm (b - 0xB8) (from_le_bytes (take 8 rest)), 10) else None)
          else if a = 0x48 \<and> b = 0x89 then
            (case rest of c # _ \<Rightarrow> if 0xC0 \<le> c then Some (Mov_reg (c AND 7) (drop_bit 3 c AND 7), 3) else None | [] \<Rightarrow> None)
          else if a = 0x48 \<and> b = 0x85 then (case rest of c # _ \<Rightarrow> if c = 0xC0 then Some (Test_rax, 3) else None | [] \<Rightarrow> None)
          else if a = 0xCD \<and> b = 0x80 then Some (Int80, 2)
          else if a = 0x74 then Some (Jz b, 2)
          else if a = 0xEB then Some (Jmp b, 2)
          else None
      | _ \<Rightarrow> None)"

fun instr_ok :: "instr \<Rightarrow> bool" where
  "instr_ok (Mov_imm r v) \<longleftrightarrow> r < 8"
| "instr_ok (Mov_reg d s) \<longleftrightarrow> d < 8 \<and> s < 8"
| "instr_ok _ \<longleftrightarrow> True"

lemma register_cases:
  assumes "(r :: u8) < 8"
  shows "r \<in> {0, 1, 2, 3, 4, 5, 6, 7}"
proof -
  have "unat r < 8" using assms by (simp add: word_less_nat_alt)
  then have "unat r \<in> {0, 1, 2, 3, 4, 5, 6, 7}" by auto
  then show ?thesis by (simp add: word_unat_eq_iff)
qed

lemma decode_encode:
  assumes "instr_ok i"
  shows "decode (encode i @ rest) = Some (i, length (encode i))"
proof (cases i)
  case (Mov_imm r v)
  then show ?thesis using register_cases [of r] assms
    by (auto simp: decode_def from_to_le_bytes)
next
  case (Mov_reg d s)
  then show ?thesis using register_cases [of d] register_cases [of s] assms
    by (auto simp: decode_def)
qed (simp_all add: decode_def)

text \<open>An assembled program followed by its data, and the instruction at an offset.\<close>

definition assemble :: "instr list \<Rightarrow> u8 list" where
  "assemble is = concat (map encode is)"

definition image_of :: "instr list \<Rightarrow> u8 list \<Rightarrow> u8 list" where
  "image_of is data = assemble is @ data"

definition fetch :: "instr list \<Rightarrow> u8 list \<Rightarrow> nat \<Rightarrow> (instr \<times> nat) option" where
  "fetch is data n = decode (drop n (image_of is data))"

lemma fetch_here: "instr_ok i \<Longrightarrow> fetch (i # is) data 0 = Some (i, length (encode i))"
  using decode_encode [of i "assemble is @ data"] by (simp add: fetch_def image_of_def assemble_def)

lemma fetch_later: "length (encode i) \<le> n \<Longrightarrow> fetch (i # is) data n = fetch is data (n - length (encode i))"
  by (simp add: fetch_def image_of_def assemble_def)

section \<open>Running a program\<close>

record program =
  gp :: "u8 \<Rightarrow> u64"
  zero_flag :: bool
  pc :: nat

text \<open>The effect of an instruction; \<open>n\<close> is the offset of the instruction after it.\<close>

fun execute :: "instr \<Rightarrow> nat \<Rightarrow> program \<Rightarrow> program" where
  "execute (Mov_imm r v) n s = s\<lparr>gp := (gp s)(r := v), pc := n\<rparr>"
| "execute (Mov_reg d r) n s = s\<lparr>gp := (gp s)(d := gp s r), pc := n\<rparr>"
| "execute Test_rax n s = s\<lparr>zero_flag := (gp s REG_RAX = 0), pc := n\<rparr>"
| "execute (Jz d) n s = s\<lparr>pc := if zero_flag s then nat (int n + sint d) else n\<rparr>"
| "execute (Jmp d) n s = s\<lparr>pc := nat (int n + sint d)\<rparr>"
| "execute Int80 n s = s\<lparr>pc := n\<rparr>"

text \<open>
  The program up to its next \<open>int 0x80\<close>. No program of the module has more than 16 instructions in a
  row without one.
\<close>

fun run_to_call :: "nat \<Rightarrow> u8 list \<Rightarrow> program \<Rightarrow> program option" where
  "run_to_call 0 code s = None"
| "run_to_call (Suc fuel) code s =
     (case decode (drop (pc s) code) of
        None \<Rightarrow> None
      | Some (i, l) \<Rightarrow> (let s' = execute i (pc s + l) s in if i = Int80 then Some s' else run_to_call fuel code s'))"

text \<open>The number and the arguments of a system call, in the registers the kernel reads.\<close>

definition call_of :: "program \<Rightarrow> u64 \<times> u64 \<times> u64 \<times> u64 \<times> u64" where
  "call_of s = (gp s REG_RAX, gp s REG_RDI, gp s REG_RSI, gp s REG_RDX, gp s REG_RCX)"

text \<open>The calls that a program makes when the kernel answers the first ones with \<open>answers\<close>, in RAX.\<close>

fun calls :: "u8 list \<Rightarrow> program \<Rightarrow> u64 list \<Rightarrow> (u64 \<times> u64 \<times> u64 \<times> u64 \<times> u64) list option" where
  "calls code s [] = map_option (\<lambda>s. [call_of s]) (run_to_call 16 code s)"
| "calls code s (a # answers) =
     (case run_to_call 16 code s of
        None \<Rightarrow> None
      | Some s \<Rightarrow> map_option (Cons (call_of s)) (calls code (s\<lparr>gp := (gp s)(REG_RAX := a)\<rparr>) answers))"

definition program_start :: "(u8 \<Rightarrow> u64) \<Rightarrow> program" where
  "program_start g = \<lparr>gp = g, zero_flag = False, pc = 0\<rparr>"

lemma decode_fetch: "decode (drop n (image_of is data)) = fetch is data n" "decode (image_of is data) = fetch is data 0"
  by (simp_all add: fetch_def)

lemmas reg_defs = REG_RAX_def REG_RCX_def REG_RDX_def REG_RSI_def REG_RDI_def

section \<open>The listings\<close>

definition echo_listing :: "u64 \<Rightarrow> instr list" where
  "echo_listing buf =
     [Mov_imm REG_RAX SYS_READ, Mov_imm REG_RDI 0, Mov_imm REG_RSI buf, Mov_imm REG_RDX 1, Int80,
      Test_rax, Jz (- 47),
      Mov_imm REG_RAX SYS_WRITE, Mov_imm REG_RDI 1, Mov_imm REG_RSI buf, Mov_imm REG_RDX 1, Int80,
      Jmp (- 91)]"

text \<open>The address of a \<open>mov\<close> is patched in place.\<close>

lemma mov_imm64_encode: "mov_imm64 code r v = code @ encode (Mov_imm r v)"
  by (simp add: mov_imm64_def)

lemma mov_r64_r64_encode: "mov_r64_r64 code d r = code @ encode (Mov_reg d r)"
  by (simp add: mov_r64_r64_def)

lemma length_encode [simp]: "length (encode (Mov_imm r v)) = 10" "length (encode (Mov_reg d s)) = 3"
  by simp_all

lemma overwrite_later: "length xs \<le> n \<Longrightarrow> overwrite (xs @ ys) n bs = xs @ overwrite ys (n - length xs) bs"
  by (simp add: overwrite_def)

lemma overwrite_Cons: "0 < n \<Longrightarrow> overwrite (x # ys) n bs = x # overwrite ys (n - 1) bs"
  by (cases n) (simp_all add: overwrite_def)

lemma overwrite_imm: "overwrite (encode (Mov_imm r v) @ ys) 2 (to_le_bytes 8 w) = encode (Mov_imm r w) @ ys"
  by (simp add: overwrite_def)

lemmas assembling = mov_imm64_encode mov_r64_r64_encode overwrite_later overwrite_Cons overwrite_imm image_of_def assemble_def

declare encode.simps(1,2) [simp del]

lemma echo_assembled:
  assumes "unat a + 4096 \<le> 2 ^ 64"
  shows "build_echo_shellcode a = Inr (image_of (echo_listing (a + 91)) [0])"
proof -
  have "add_ovf a 91 = Inr (a + 91)" using assms by (intro add_ovf_no_overflow) simp
  then show ?thesis
    by (simp add: build_echo_shellcode_def echo_listing_def assembling rel8_def Let_def list_update_append)
qed

definition open_read_listing :: "u64 \<Rightarrow> u64 \<Rightarrow> instr list" where
  "open_read_listing path buf =
     [Mov_imm REG_RAX SYS_OPEN, Mov_imm REG_RDI path, Mov_imm REG_RSI 9, Int80, Mov_reg REG_RDI REG_RAX,
      Mov_imm REG_RAX SYS_READ, Mov_imm REG_RSI buf, Mov_imm REG_RDX 64, Int80, Mov_reg REG_RDX REG_RAX,
      Mov_imm REG_RAX SYS_WRITE, Mov_imm REG_RDI 1, Mov_imm REG_RSI buf, Int80, Mov_imm REG_RAX SYS_EXIT, Int80]"

definition bad_pointer_listing :: "instr list" where
  "bad_pointer_listing =
     [Mov_imm REG_RAX SYS_WRITE, Mov_imm REG_RDI 1, Mov_imm REG_RSI BAD_POINTER, Mov_imm REG_RDX 10, Int80]"

definition spawn_wait_listing :: "u64 \<Rightarrow> u64 \<Rightarrow> instr list" where
  "spawn_wait_listing path done_msg =
     [Mov_imm REG_RAX SYS_SPAWN, Mov_imm REG_RDI path, Mov_imm REG_RSI 9, Mov_imm REG_RDX 0, Mov_imm REG_RCX 0, Int80,
      Mov_reg REG_RDI REG_RAX, Mov_imm REG_RAX SYS_WAIT, Int80,
      Mov_imm REG_RAX SYS_WRITE, Mov_imm REG_RDI 1, Mov_imm REG_RSI done_msg, Mov_imm REG_RDX 48, Int80,
      Mov_imm REG_RAX SYS_EXIT, Int80]"

lemma data_lengths [simp]: "length OPEN_READ_DEMO_PATH = 9" "length SPAWN_WAIT_CHILD_PATH = 9" "length SPAWN_WAIT_DONE_MSG = 48"
  by (simp_all add: OPEN_READ_DEMO_PATH_def SPAWN_WAIT_CHILD_PATH_def SPAWN_WAIT_DONE_MSG_def)

lemma open_read_assembled:
  assumes "unat a + 4096 \<le> 2 ^ 64"
  shows "build_open_read_shellcode a =
    Inr (image_of (open_read_listing (a + 114) (a + 123)) (OPEN_READ_DEMO_PATH @ replicate 64 0))"
proof -
  have "add_ovf a 114 = Inr (a + 114)" "add_ovf a 123 = Inr (a + 123)" using assms by (intro add_ovf_no_overflow; simp)+
  then show ?thesis
    by (simp add: build_open_read_shellcode_def open_read_listing_def OPEN_READ_DEMO_READ_LEN_def assembling Let_def)
qed

lemma bad_pointer_assembled: "build_bad_pointer_shellcode = image_of bad_pointer_listing []"
  by (simp add: build_bad_pointer_shellcode_def bad_pointer_listing_def assembling Let_def)

lemma spawn_wait_assembled:
  assumes "unat a + 4096 \<le> 2 ^ 64"
  shows "build_spawn_wait_shellcode a =
    Inr (image_of (spawn_wait_listing (a + 121) (a + 130)) (SPAWN_WAIT_CHILD_PATH @ SPAWN_WAIT_DONE_MSG))"
proof -
  have "add_ovf a 121 = Inr (a + 121)" "add_ovf a 130 = Inr (a + 130)" using assms by (intro add_ovf_no_overflow; simp)+
  then show ?thesis
    by (simp add: build_spawn_wait_shellcode_def spawn_wait_listing_def assembling Let_def)
qed

section \<open>The calls of each program\<close>

lemma run_to_call_numeral [simp]:
  "run_to_call (numeral v) code s =
     (case decode (drop (pc s) code) of
        None \<Rightarrow> None
      | Some (i, l) \<Rightarrow> (let s' = execute i (pc s + l) s in if i = Int80 then Some s' else run_to_call (pred_numeral v) code s'))"
  by (simp add: numeral_eq_Suc)

text \<open>The echo program: it reads one byte until it gets one, and then writes it.\<close>

fun echo_reads :: "u64 \<Rightarrow> u64 \<Rightarrow> u64 list \<Rightarrow> (u64 \<times> u64 \<times> u64 \<times> u64 \<times> u64) list"
and echo_writes :: "u64 \<Rightarrow> u64 \<Rightarrow> u64 list \<Rightarrow> (u64 \<times> u64 \<times> u64 \<times> u64 \<times> u64) list" where
  "echo_reads buf c [] = [(SYS_READ, 0, buf, 1, c)]"
| "echo_reads buf c (n # answers) = (SYS_READ, 0, buf, 1, c) # (if n = 0 then echo_reads buf c answers else echo_writes buf c answers)"
| "echo_writes buf c [] = [(SYS_WRITE, 1, buf, 1, c)]"
| "echo_writes buf c (n # answers) = (SYS_WRITE, 1, buf, 1, c) # echo_reads buf c answers"

lemma jump_back [simp]: "sint (- 47 :: u8) = - 47" "sint (- 91 :: u8) = - 91"
  by simp_all

lemma echo_fetch:
  "fetch (echo_listing buf) data 0 = Some (Mov_imm REG_RAX SYS_READ, 10)" "fetch (echo_listing buf) data 10 = Some (Mov_imm REG_RDI 0, 10)"
  "fetch (echo_listing buf) data 20 = Some (Mov_imm REG_RSI buf, 10)" "fetch (echo_listing buf) data 30 = Some (Mov_imm REG_RDX 1, 10)"
  "fetch (echo_listing buf) data 40 = Some (Int80, 2)" "fetch (echo_listing buf) data 42 = Some (Test_rax, 3)"
  "fetch (echo_listing buf) data 45 = Some (Jz (- 47), 2)"
  "fetch (echo_listing buf) data 47 = Some (Mov_imm REG_RAX SYS_WRITE, 10)" "fetch (echo_listing buf) data 57 = Some (Mov_imm REG_RDI 1, 10)"
  "fetch (echo_listing buf) data 67 = Some (Mov_imm REG_RSI buf, 10)" "fetch (echo_listing buf) data 77 = Some (Mov_imm REG_RDX 1, 10)"
  "fetch (echo_listing buf) data 87 = Some (Int80, 2)" "fetch (echo_listing buf) data 89 = Some (Jmp (- 91), 2)"
  by (simp_all add: echo_listing_def fetch_here fetch_later reg_defs)

lemma echo_runs:
  "pc s = 0 \<Longrightarrow> run_to_call 16 (image_of (echo_listing buf) data) s =
     Some (s\<lparr>gp := (gp s)(REG_RAX := SYS_READ, REG_RDI := 0, REG_RSI := buf, REG_RDX := 1), pc := 42\<rparr>)"
  "pc s = 42 \<Longrightarrow> gp s REG_RAX = 0 \<Longrightarrow> run_to_call 16 (image_of (echo_listing buf) data) s =
     Some (s\<lparr>gp := (gp s)(REG_RAX := SYS_READ, REG_RDI := 0, REG_RSI := buf, REG_RDX := 1), zero_flag := True, pc := 42\<rparr>)"
  "pc s = 42 \<Longrightarrow> gp s REG_RAX \<noteq> 0 \<Longrightarrow> run_to_call 16 (image_of (echo_listing buf) data) s =
     Some (s\<lparr>gp := (gp s)(REG_RAX := SYS_WRITE, REG_RDI := 1, REG_RSI := buf, REG_RDX := 1), zero_flag := False, pc := 89\<rparr>)"
  "pc s = 89 \<Longrightarrow> run_to_call 16 (image_of (echo_listing buf) data) s =
     Some (s\<lparr>gp := (gp s)(REG_RAX := SYS_READ, REG_RDI := 0, REG_RSI := buf, REG_RDX := 1), pc := 42\<rparr>)"
  by (simp_all add: decode_fetch echo_fetch Let_def)

lemma echo_calls:
  "pc s = 0 \<or> pc s = 42 \<and> gp s REG_RAX = 0 \<or> pc s = 89 \<Longrightarrow>
     calls (image_of (echo_listing buf) data) s answers = Some (echo_reads buf (gp s REG_RCX) answers)"
  "pc s = 42 \<and> gp s REG_RAX \<noteq> 0 \<Longrightarrow>
     calls (image_of (echo_listing buf) data) s answers = Some (echo_writes buf (gp s REG_RCX) answers)"
proof (induction answers arbitrary: s)
  case Nil
  { case 1 then show ?case by (auto simp: echo_runs call_of_def reg_defs simp del: run_to_call_numeral) }
  { case 2 then show ?case by (auto simp: echo_runs call_of_def reg_defs simp del: run_to_call_numeral) }
next
  case (Cons a answers)
  { case 1 then show ?case using Cons.IH by (auto simp: echo_runs call_of_def reg_defs simp del: run_to_call_numeral) }
  { case 2 then show ?case using Cons.IH by (auto simp: echo_runs call_of_def reg_defs simp del: run_to_call_numeral) }
qed

lemma open_read_fetch:
  "fetch (open_read_listing path buf) data 0 = Some (Mov_imm REG_RAX SYS_OPEN, 10)" "fetch (open_read_listing path buf) data 10 = Some (Mov_imm REG_RDI path, 10)"
  "fetch (open_read_listing path buf) data 20 = Some (Mov_imm REG_RSI 9, 10)" "fetch (open_read_listing path buf) data 30 = Some (Int80, 2)"
  "fetch (open_read_listing path buf) data 32 = Some (Mov_reg REG_RDI REG_RAX, 3)" "fetch (open_read_listing path buf) data 35 = Some (Mov_imm REG_RAX SYS_READ, 10)"
  "fetch (open_read_listing path buf) data 45 = Some (Mov_imm REG_RSI buf, 10)" "fetch (open_read_listing path buf) data 55 = Some (Mov_imm REG_RDX 64, 10)"
  "fetch (open_read_listing path buf) data 65 = Some (Int80, 2)" "fetch (open_read_listing path buf) data 67 = Some (Mov_reg REG_RDX REG_RAX, 3)"
  "fetch (open_read_listing path buf) data 70 = Some (Mov_imm REG_RAX SYS_WRITE, 10)" "fetch (open_read_listing path buf) data 80 = Some (Mov_imm REG_RDI 1, 10)"
  "fetch (open_read_listing path buf) data 90 = Some (Mov_imm REG_RSI buf, 10)" "fetch (open_read_listing path buf) data 100 = Some (Int80, 2)"
  "fetch (open_read_listing path buf) data 102 = Some (Mov_imm REG_RAX SYS_EXIT, 10)" "fetch (open_read_listing path buf) data 112 = Some (Int80, 2)"
  by (simp_all add: open_read_listing_def fetch_here fetch_later reg_defs)

lemma bad_pointer_fetch:
  "fetch (bad_pointer_listing) data 0 = Some (Mov_imm REG_RAX SYS_WRITE, 10)" "fetch (bad_pointer_listing) data 10 = Some (Mov_imm REG_RDI 1, 10)"
  "fetch (bad_pointer_listing) data 20 = Some (Mov_imm REG_RSI BAD_POINTER, 10)" "fetch (bad_pointer_listing) data 30 = Some (Mov_imm REG_RDX 10, 10)"
  "fetch (bad_pointer_listing) data 40 = Some (Int80, 2)"
  by (simp_all add: bad_pointer_listing_def fetch_here fetch_later reg_defs)

lemma spawn_wait_fetch:
  "fetch (spawn_wait_listing path done_msg) data 0 = Some (Mov_imm REG_RAX SYS_SPAWN, 10)" "fetch (spawn_wait_listing path done_msg) data 10 = Some (Mov_imm REG_RDI path, 10)"
  "fetch (spawn_wait_listing path done_msg) data 20 = Some (Mov_imm REG_RSI 9, 10)" "fetch (spawn_wait_listing path done_msg) data 30 = Some (Mov_imm REG_RDX 0, 10)"
  "fetch (spawn_wait_listing path done_msg) data 40 = Some (Mov_imm REG_RCX 0, 10)" "fetch (spawn_wait_listing path done_msg) data 50 = Some (Int80, 2)"
  "fetch (spawn_wait_listing path done_msg) data 52 = Some (Mov_reg REG_RDI REG_RAX, 3)" "fetch (spawn_wait_listing path done_msg) data 55 = Some (Mov_imm REG_RAX SYS_WAIT, 10)"
  "fetch (spawn_wait_listing path done_msg) data 65 = Some (Int80, 2)" "fetch (spawn_wait_listing path done_msg) data 67 = Some (Mov_imm REG_RAX SYS_WRITE, 10)"
  "fetch (spawn_wait_listing path done_msg) data 77 = Some (Mov_imm REG_RDI 1, 10)" "fetch (spawn_wait_listing path done_msg) data 87 = Some (Mov_imm REG_RSI done_msg, 10)"
  "fetch (spawn_wait_listing path done_msg) data 97 = Some (Mov_imm REG_RDX 48, 10)" "fetch (spawn_wait_listing path done_msg) data 107 = Some (Int80, 2)"
  "fetch (spawn_wait_listing path done_msg) data 109 = Some (Mov_imm REG_RAX SYS_EXIT, 10)" "fetch (spawn_wait_listing path done_msg) data 119 = Some (Int80, 2)"
  by (simp_all add: spawn_wait_listing_def fetch_here fetch_later reg_defs)

text \<open>The programs that run once: the answers of the kernel are the arguments of later calls.\<close>

lemma open_read_calls:
  "calls (image_of (open_read_listing path buf) data) (program_start g) [fd, n, w] =
     Some [(SYS_OPEN, path, 9, g REG_RDX, g REG_RCX), (SYS_READ, fd, buf, 64, g REG_RCX), (SYS_WRITE, 1, buf, n, g REG_RCX),
           (SYS_EXIT, 1, buf, n, g REG_RCX)]"
  by (simp add: program_start_def decode_fetch open_read_fetch Let_def call_of_def reg_defs)

lemma bad_pointer_calls:
  "calls (image_of bad_pointer_listing data) (program_start g) [] = Some [(SYS_WRITE, 1, BAD_POINTER, 10, g REG_RCX)]"
  by (simp add: program_start_def decode_fetch bad_pointer_fetch Let_def call_of_def reg_defs)

lemma spawn_wait_calls:
  "calls (image_of (spawn_wait_listing path done_msg) data) (program_start g) [pid, r, w] =
     Some [(SYS_SPAWN, path, 9, 0, 0), (SYS_WAIT, pid, 9, 0, 0), (SYS_WRITE, 1, done_msg, 48, 0), (SYS_EXIT, 1, done_msg, 48, 0)]"
  by (simp add: program_start_def decode_fetch spawn_wait_fetch Let_def call_of_def reg_defs)

section \<open>The test executable\<close>

lemma echo_length: "length (image_of (echo_listing buf) [0]) = 92"
  by (simp add: image_of_def assemble_def echo_listing_def)

lemma test_elf_bytes:
  assumes "build_echo_shellcode a = Inr code" and "length code = 92"
  shows "build_test_elf a = Inr
    ([0x7f, 0x45, 0x4C, 0x46, 2, 1, 1, 0, 0, 0, 0, 0, 0, 0, 0, 0, 2, 0, 0x3E, 0, 1, 0, 0, 0] @ to_le_bytes 8 a
     @ [64, 0, 0, 0, 0, 0, 0, 0, 0, 0, 0, 0, 0, 0, 0, 0, 0, 0, 0, 0, 64, 0, 56, 0, 1, 0, 0, 0, 0, 0, 0, 0]
     @ [1, 0, 0, 0, 7, 0, 0, 0, 120, 0, 0, 0, 0, 0, 0, 0] @ to_le_bytes 8 a @ to_le_bytes 8 a
     @ [92, 0, 0, 0, 0, 0, 0, 0, 92, 0, 0, 0, 0, 0, 0, 0, 0, 16, 0, 0, 0, 0, 0, 0] @ code)"
proof -
  have "replicate 8 (0 :: u8) = [0, 0, 0, 0, 0, 0, 0, 0]" by (simp add: numeral_eq_Suc)
  then show ?thesis using assms
    by (simp add: build_test_elf_def Let_def EHDR_SIZE_def PHDR_SIZE_def) (simp add: to_le_bytes_def upt_rec)
qed

text \<open>
  C29. The hand-made executable is one that the loader reads back. For every load address from which a
  page fits below the end of memory, \<open>build_test_elf\<close> does not fail an assertion, its header passes
  every check of the loader, its entry point is the load address, and its program headers describe one
  writable segment: the bytes of the echo program, at the load address, with nothing behind them.
\<close>

theorem test_elf_round_trip:
  assumes a: "unat a + 4096 \<le> 2 ^ 64"
  shows "\<exists>code elf. build_echo_shellcode a = Inr code \<and> build_test_elf a = Inr elf \<and> header_ok elf
    \<and> read_u64 elf 0 24 = Some a \<and> elf_segments elf = Some [(code, a, of_nat (length code), True)]"
proof -
  define code where "code = image_of (echo_listing (a + 91)) [0]"
  have code: "build_echo_shellcode a = Inr code" "length code = 92" using echo_assembled [OF a] echo_length by (simp_all add: code_def)
  note bytes = test_elf_bytes [OF code]
  let ?elf = "projr (build_test_elf a)"
  have "header_ok ?elf" unfolding bytes
    by (simp add: header_ok_def elf_consts read_u16_def field_def checked_add_def get_range_def)
  moreover have "read_u64 ?elf 0 24 = Some a" unfolding bytes
    by (simp add: read_u64_def field_def checked_add_def get_range_def from_to_le_bytes)
  moreover have "read_u64 ?elf 0 32 = Some 64" "read_u16 ?elf 0 54 = Some 56" "read_u16 ?elf 0 56 = Some 1" unfolding bytes
    by (simp_all add: read_u64_def read_u16_def field_def checked_add_def get_range_def code(2))
  moreover have "parse_header ?elf 64 56 0 = Some (Some (code, a, 92, True))" unfolding bytes
    by (simp add: parse_header_def read_u64_def read_u32_def field_def checked_add_def checked_mul_def get_range_def from_to_le_bytes
        elf_consts code(2))
  ultimately have "header_ok ?elf" "read_u64 ?elf 0 24 = Some a" "elf_segments ?elf = Some [(code, a, of_nat (length code), True)]"
    by (simp_all add: elf_segments_def code(2))
  then show ?thesis using code(1) bytes by auto
qed

theorem test_elf_round_trip_witness:
  "\<exists>code elf. build_echo_shellcode ELF_LOAD_ADDR = Inr code \<and> build_test_elf ELF_LOAD_ADDR = Inr elf \<and> header_ok elf
    \<and> read_u64 elf 0 24 = Some 0x700000000000 \<and> elf_segments elf = Some [(code, 0x700000000000, of_nat (length code), True)]"
  using test_elf_round_trip [of ELF_LOAD_ADDR] by (simp add: ELF_LOAD_ADDR_def)

section \<open>What the demo programs do\<close>

text \<open>
  C28. The assembled programs do what their listings say. Each builder is run at an address from which
  a page fits below the end of memory, and the bytes it returns fit in a page. Started at their first
  byte with any registers, and for all answers of the kernel, the programs make these system calls,
  with these arguments, in this order: the echo program reads one byte into its buffer until it gets
  one, writes it, and starts again; the open/read program opens the path behind its code, reads at most
  64 bytes from the descriptor it got into the buffer behind the path, writes as many as it got, and
  exits; the bad-pointer program writes from the bad pointer; the spawn/wait program spawns the path
  behind its code without arguments, waits for the process id it got, writes its message and exits.
\<close>

theorem demo_programs_make_calls:
  assumes a: "unat a + 4096 \<le> 2 ^ 64"
  shows "(\<exists>code. build_echo_shellcode a = Inr code \<and> length code \<le> 4096 \<and> code ! 91 = 0 \<and> length code = 92
      \<and> (\<forall>g answers. calls code (program_start g) answers = Some (echo_reads (a + 91) (g REG_RCX) answers)))
    \<and> (\<exists>code. build_open_read_shellcode a = Inr code \<and> length code \<le> 4096
      \<and> take 9 (drop 114 code) = map of_char ''HELLO.TXT'' \<and> drop 123 code = replicate 64 0
      \<and> (\<forall>g fd n w. calls code (program_start g) [fd, n, w] =
           Some [(SYS_OPEN, a + 114, 9, g REG_RDX, g REG_RCX), (SYS_READ, fd, a + 123, 64, g REG_RCX),
                 (SYS_WRITE, 1, a + 123, n, g REG_RCX), (SYS_EXIT, 1, a + 123, n, g REG_RCX)]))
    \<and> (\<forall>g. calls build_bad_pointer_shellcode (program_start g) [] = Some [(SYS_WRITE, 1, BAD_POINTER, 10, g REG_RCX)])
    \<and> (\<exists>code. build_spawn_wait_shellcode a = Inr code \<and> length code \<le> 4096
      \<and> take 9 (drop 121 code) = map of_char ''GREET.ELF'' \<and> drop 130 code = SPAWN_WAIT_DONE_MSG
      \<and> (\<forall>g pid r w. calls code (program_start g) [pid, r, w] =
           Some [(SYS_SPAWN, a + 121, 9, 0, 0), (SYS_WAIT, pid, 9, 0, 0), (SYS_WRITE, 1, a + 130, 48, 0), (SYS_EXIT, 1, a + 130, 48, 0)]))"
proof (intro conjI)
  show "\<exists>code. build_echo_shellcode a = Inr code \<and> length code \<le> 4096 \<and> code ! 91 = 0 \<and> length code = 92
      \<and> (\<forall>g answers. calls code (program_start g) answers = Some (echo_reads (a + 91) (g REG_RCX) answers))"
    unfolding echo_assembled [OF a] using echo_calls(1) [of "program_start _" "a + 91" "[0]"] echo_length [of "a + 91"]
    by (simp add: program_start_def image_of_def nth_append)
  have "length (assemble (open_read_listing p b)) = 114" for p b by (simp add: assemble_def open_read_listing_def)
  then show "\<exists>code. build_open_read_shellcode a = Inr code \<and> length code \<le> 4096
      \<and> take 9 (drop 114 code) = map of_char ''HELLO.TXT'' \<and> drop 123 code = replicate 64 0
      \<and> (\<forall>g fd n w. calls code (program_start g) [fd, n, w] =
           Some [(SYS_OPEN, a + 114, 9, g REG_RDX, g REG_RCX), (SYS_READ, fd, a + 123, 64, g REG_RCX),
                 (SYS_WRITE, 1, a + 123, n, g REG_RCX), (SYS_EXIT, 1, a + 123, n, g REG_RCX)])"
    unfolding open_read_assembled [OF a] using open_read_calls [of "a + 114" "a + 123" "OPEN_READ_DEMO_PATH @ replicate 64 0"]
    by (simp add: image_of_def OPEN_READ_DEMO_PATH_def del: calls.simps)
  show "\<forall>g. calls build_bad_pointer_shellcode (program_start g) [] = Some [(SYS_WRITE, 1, BAD_POINTER, 10, g REG_RCX)]"
    unfolding bad_pointer_assembled using bad_pointer_calls by blast
  have "length (assemble (spawn_wait_listing p d)) = 121" for p d by (simp add: assemble_def spawn_wait_listing_def)
  then show "\<exists>code. build_spawn_wait_shellcode a = Inr code \<and> length code \<le> 4096
      \<and> take 9 (drop 121 code) = map of_char ''GREET.ELF'' \<and> drop 130 code = SPAWN_WAIT_DONE_MSG
      \<and> (\<forall>g pid r w. calls code (program_start g) [pid, r, w] =
           Some [(SYS_SPAWN, a + 121, 9, 0, 0), (SYS_WAIT, pid, 9, 0, 0), (SYS_WRITE, 1, a + 130, 48, 0), (SYS_EXIT, 1, a + 130, 48, 0)])"
    unfolding spawn_wait_assembled [OF a]
    using spawn_wait_calls [of "a + 121" "a + 130" "SPAWN_WAIT_CHILD_PATH @ SPAWN_WAIT_DONE_MSG"]
    by (simp add: image_of_def SPAWN_WAIT_CHILD_PATH_def del: calls.simps)
qed

theorem demo_programs_make_calls_witness:
  "\<exists>code. build_open_read_shellcode OPEN_READ_DEMO_ADDR = Inr code \<and>
     (\<forall>g. calls code (program_start g) [2, 5, 5] =
        Some [(SYS_OPEN, 0x750000000072, 9, g REG_RDX, g REG_RCX), (SYS_READ, 2, 0x75000000007B, 64, g REG_RCX),
              (SYS_WRITE, 1, 0x75000000007B, 5, g REG_RCX), (SYS_EXIT, 1, 0x75000000007B, 5, g REG_RCX)])"
  using demo_programs_make_calls [of OPEN_READ_DEMO_ADDR] by (auto simp: OPEN_READ_DEMO_ADDR_def simp del: calls.simps)

end
