(* ===== verification/Program_Runs.thy ===== *)
theory Program_Runs
  imports Syscall_Props User_Programs
begin

text \<open>
  A program in ring 3 together with the kernel: the bytes of the program are fetched from its memory,
  and each \<open>int 0x80\<close> is a call of \<open>dispatch\<close> in the state of the kernel, with the arguments in the
  program's registers and the result in RAX.
\<close>

section \<open>Running a program on the kernel\<close>

text \<open>\<open>n\<close> system calls of the program whose \<open>len\<close> bytes are at \<open>a\<close>.\<close>

fun run_calls ::
  "('h, 'd) platform \<Rightarrow> (('h, 'd) kernel \<Rightarrow> ('h, 'd) kernel) \<Rightarrow> u64 \<Rightarrow> nat \<Rightarrow> nat \<Rightarrow> program \<Rightarrow> ('h, 'd) kernel
   \<Rightarrow> (program, 'h, 'd) call" where
  "run_calls p others a len 0 s k = give s k"
| "run_calls p others a len (Suc n) s k =
     (case run_to_call 16 (bytes_at p k a len) s of
        None \<Rightarrow> None
      | Some s \<Rightarrow>
          bind_call (dispatch p others (gp s REG_RAX) (gp s REG_RDI) (gp s REG_RSI) (gp s REG_RDX) (gp s REG_RCX) k)
            (\<lambda>v k. run_calls p others a len n (s\<lparr>gp := (gp s)(REG_RAX := v)\<rparr>) k))"

section \<open>Memory of the program\<close>

lemma length_bytes_at [simp]: "length (bytes_at p k a n) = n"
  by (simp add: bytes_at_def)

lemma nth_bytes_at: "i < n \<Longrightarrow> bytes_at p k a n ! i = byte_at p k (a + of_nat i)"
  by (simp add: bytes_at_def)

lemma bytes_at_part:
  assumes "i + m \<le> n"
  shows "bytes_at p k (a + of_nat i) m = take m (drop i (bytes_at p k a n))"
  by (rule nth_equalityI) (use assms in \<open>simp_all add: nth_bytes_at add.assoc\<close>)

lemma user_range_part:
  assumes x: "x86_laws (x86 p)" and r: "user_range p k a n w" and i: "i + m \<le> n" "i < n" "unat a + n < 2 ^ 47"
  shows "user_range p k (a + of_nat i) m w"
proof -
  have u: "unat (a + of_nat i) = unat a + i" using i by (simp add: unat_word_ariths unat_of_nat)
  have "unat a \<noteq> 0" using r by (simp add: user_range_def unat_eq_0)
  then have "a + of_nat i \<noteq> 0" using u by (metis add_is_0 unat_0)
  moreover have "virt_try_new (x86 p) (a + of_nat i) \<noteq> None"
    using lower_half [of "a + of_nat i"] u i x by (simp add: x86_laws_def)
  moreover have "page_at p k (a + of_nat i + of_nat j) w" if "j < m" for j
  proof -
    have "a + of_nat i + of_nat j = a + of_nat (i + j)" by simp
    then show ?thesis using r i(1) that unfolding user_range_def by (metis add_less_cancel_left order_less_le_trans)
  qed
  ultimately show ?thesis using i u by (simp add: user_range_def)
qed

text \<open>Memory is the same for the program when only other parts of the kernel's state change.\<close>

lemma bytes_at_cong:
  "memory k' = memory k \<Longrightarrow> cr3 (cpu_regs k') = cr3 (cpu_regs k) \<Longrightarrow> bytes_at p k' a n = bytes_at p k a n"
  by (simp add: bytes_at_def byte_at_def frame_of_def)

section \<open>Opening a file\<close>

lemma syscall_ready_disk: "syscall_ready p k \<Longrightarrow> syscall_ready p (k\<lparr>disk := d\<rparr>)"
proof -
  assume ready: "syscall_ready p k"
  have "same_space p k (k\<lparr>disk := d\<rparr>)"
    unfolding same_space_def frame_of_def page_at_def by (simp del: walked.simps translate_levels.simps)
  then have "user_space p (k\<lparr>disk := d\<rparr>)" using user_space_same syscall_readyD(3) [OF ready] by blast
  then show ?thesis using ready by (auto simp: syscall_ready_def kernel_ok_def reapable_def space_freeable_def split: option.splits)
qed

text \<open>The call opens the file: the lowest free descriptor holds the whole contents, unread.\<close>

lemma sys_open_opens:
  assumes ready: "syscall_ready p k" and len: "0 < len" "len \<le> 255" and range: "user_range p k ptr (unat len) False"
    and path: "bytes_at p k ptr (unat len) = path" "from_utf8 path \<noteq> None"
    and found: "read_file (fs_read_sector (ata_ports p)) (heap_room p (heap k)) path (disk k) = Some (Inr (Some contents, d))"
    and t: "current_thread k = Some t" "None \<in> set (open_files t)"
  shows "\<exists>fd fs. sys_open p ptr len k = give fd (with_files (k\<lparr>disk := d\<rparr>) fs) \<and> 2 \<le> fd
    \<and> current_thread (with_files (k\<lparr>disk := d\<rparr>) fs) = Some (t\<lparr>open_files := fs\<rparr>)
    \<and> fd_file (t\<lparr>open_files := fs\<rparr>) fd = Some \<lparr>file_data = contents, file_offset = 0\<rparr>
    \<and> syscall_ready p (with_files (k\<lparr>disk := d\<rparr>) fs) \<and> same_space p (k\<lparr>disk := d\<rparr>) (with_files (k\<lparr>disk := d\<rparr>) fs)"
proof -
  let ?k = "k\<lparr>disk := d\<rparr>"
  have ready': "syscall_ready p ?k" by (rule syscall_ready_disk [OF ready])
  have t': "current_thread ?k = Some t" using t(1) by (simp add: current_thread_def)
  obtain fd fs where fd: "open_file_in contents t = Inr (Some fd, t\<lparr>open_files := fs\<rparr>)" "files_ok (t\<lparr>open_files := fs\<rparr>)" "2 \<le> unat fd"
      "fd_file (t\<lparr>open_files := fs\<rparr>) = (fd_file t)(fd := Some \<lparr>file_data = contents, file_offset = 0\<rparr>)"
    using open_file_in_spec(2) [OF current_files_ok [OF ready t(1)] t(2)] by blast
  have opened: "open_file contents ?k = Inr (Some fd, with_files ?k fs)" "kernel_ok (x86 p) (with_files ?k fs)"
      "current_thread (with_files ?k fs) = Some (t\<lparr>open_files := fs\<rparr>)"
    using file_call [OF syscall_readyD(2) [OF ready'] t', of "open_file_in contents"] fd(1,2) by (simp_all add: open_file_def)
  obtain st where st: "scheduler k = Some st" using syscall_readyD(8) [OF ready] by blast
  have "in_kernel_space (kernel_read_file p path) k = give (Some contents) ?k"
    by (rule in_kernel_space_keeps [OF st]) (simp_all add: kernel_read_file_def found cr3_write_def give_def)
  moreover have "unat len \<le> 1024" "len \<noteq> 0" "\<not> 255 < len" using len by (auto simp: word_le_nat_alt word_less_nat_alt)
  ultimately have "sys_open p ptr len k = give fd (with_files ?k fs)"
    using copy_from_user_eq [OF ready, of "unat len" ptr] range path opened(1) by (auto simp: sys_open_def)
  then show ?thesis
    using opened fd(3,4) syscall_ready_with_files [OF ready' t' opened(2)]
    by (intro exI [of _ fd] exI [of _ fs]) (simp add: word_le_nat_alt)
qed

section \<open>The open/read program\<close>

text \<open>The four runs of the program between its system calls, for any data behind its code.\<close>

lemma open_read_runs:
  assumes "\<exists>data. bytes_at p k a len = image_of (open_read_listing path buf) data"
  shows "pc s = 0 \<Longrightarrow> run_to_call 16 (bytes_at p k a len) s =
      Some (s\<lparr>gp := (gp s)(REG_RAX := SYS_OPEN, REG_RDI := path, REG_RSI := 9), pc := 32\<rparr>)"
    and "pc s = 32 \<Longrightarrow> run_to_call 16 (bytes_at p k a len) s =
      Some (s\<lparr>gp := (gp s)(REG_RDI := gp s REG_RAX, REG_RAX := SYS_READ, REG_RSI := buf, REG_RDX := 64), pc := 67\<rparr>)"
    and "pc s = 67 \<Longrightarrow> run_to_call 16 (bytes_at p k a len) s =
      Some (s\<lparr>gp := (gp s)(REG_RDX := gp s REG_RAX, REG_RAX := SYS_WRITE, REG_RDI := 1, REG_RSI := buf), pc := 102\<rparr>)"
    and "pc s = 102 \<Longrightarrow> run_to_call 16 (bytes_at p k a len) s = Some (s\<lparr>gp := (gp s)(REG_RAX := SYS_EXIT), pc := 114\<rparr>)"
  using assms by (auto simp: decode_fetch open_read_fetch Let_def fun_upd_twist reg_defs)

lemma dispatch_numbers:
  "dispatch p others SYS_WRITE a b c d k = sys_write p a b c k" "dispatch p others SYS_READ a b c d k = sys_read p a b c k"
  "dispatch p others SYS_OPEN a b c d k = sys_open p a b k" "dispatch p others SYS_EXIT a b c d k = leave (exit_current_thread p k)"
  by (simp_all add: dispatch_def SYS_WRITE_def SYS_READ_def SYS_OPEN_def SYS_EXIT_def SYS_CLOSE_def SYS_SPAWN_def SYS_WAIT_def)

text \<open>The rotation and the pending zombie, which calls on files and memory do not change.\<close>

definition turns :: "('h, 'd) kernel \<Rightarrow> (nat list \<times> nat \<times> nat option) option" where
  "turns k = map_option (\<lambda>st. (rotation st, current st, zombie st)) (scheduler k)"

lemma turns_simps [simp]:
  "turns (with_files k fs) = turns k" "turns (k\<lparr>disk := d\<rparr>) = turns k" "turns (k\<lparr>screen := w\<rparr>) = turns k" "turns (k\<lparr>memory := pm\<rparr>) = turns k"
  by (auto simp: turns_def with_files_def set_thread_def rotation_def split: option.splits)

lemma with_files_fields [simp]:
  "memory (with_files k fs) = memory k" "cpu_regs (with_files k fs) = cpu_regs k" "screen (with_files k fs) = screen k"
  "disk (with_files k fs) = disk k" "heap (with_files k fs) = heap k"
  by (auto simp: with_files_def split: option.splits)

lemma syscall_ready_memory:
  assumes ready: "syscall_ready p k" and z: "turns k = Some (r, c, None)" and same: "same_space p k (k\<lparr>memory := pm\<rparr>)"
  shows "syscall_ready p (k\<lparr>memory := pm\<rparr>)"
proof -
  have "zombie st = None" if "scheduler k = Some st" for st using z that by (simp add: turns_def)
  then have "reapable p (k\<lparr>memory := pm\<rparr>)"
    using syscall_readyD(8) [OF ready] by (auto simp: reapable_def)
  then show ?thesis using ready user_space_same [OF same] by (simp add: syscall_ready_def kernel_ok_def)
qed

lemma open_read_image:
  assumes "take 114 bs = assemble (open_read_listing path buf)"
  shows "\<exists>data. bs = image_of (open_read_listing path buf) data"
  using assms append_take_drop_id [of 114 bs] unfolding image_of_def by metis

lemma open_read_image_parts:
  shows "length (image_of (open_read_listing path buf) (OPEN_READ_DEMO_PATH @ replicate 64 0)) = 187"
    and "take 114 (image_of (open_read_listing path buf) (OPEN_READ_DEMO_PATH @ replicate 64 0)) = assemble (open_read_listing path buf)"
    and "take 9 (drop 114 (image_of (open_read_listing path buf) (OPEN_READ_DEMO_PATH @ replicate 64 0))) = OPEN_READ_DEMO_PATH"
proof -
  have "length (assemble (open_read_listing path buf)) = 114" by (simp add: assemble_def open_read_listing_def)
  then show "length (image_of (open_read_listing path buf) (OPEN_READ_DEMO_PATH @ replicate 64 0)) = 187"
    "take 114 (image_of (open_read_listing path buf) (OPEN_READ_DEMO_PATH @ replicate 64 0)) = assemble (open_read_listing path buf)"
    "take 9 (drop 114 (image_of (open_read_listing path buf) (OPEN_READ_DEMO_PATH @ replicate 64 0))) = OPEN_READ_DEMO_PATH"
    by (simp_all add: image_of_def OPEN_READ_DEMO_PATH_def)
qed

text \<open>The program in memory: its code, its path and its buffer, all in the writable memory of the caller.\<close>

definition open_read_loaded :: "('h, 'd) platform \<Rightarrow> u64 \<Rightarrow> ('h, 'd) kernel \<Rightarrow> bool" where
  "open_read_loaded p a k \<longleftrightarrow> unat a + 4096 \<le> 2 ^ 47 \<and> user_range p k a 187 True
     \<and> take 114 (bytes_at p k a 187) = assemble (open_read_listing (a + 114) (a + 123))"

lemma open_read_loadedD:
  assumes "x86_laws (x86 p)" and "open_read_loaded p a k"
  shows "\<exists>data. bytes_at p k a 187 = image_of (open_read_listing (a + 114) (a + 123)) data"
    and "m \<le> 64 \<Longrightarrow> user_range p k (a + 123) m True" and "user_range p k (a + 114) 9 True"
    and "bytes_at p k (a + 114) 9 = take 9 (drop 114 (bytes_at p k a 187))"
  using assms open_read_image user_range_part [OF assms(1), of k a 187 True 123 m] user_range_part [OF assms(1), of k a 187 True 114 9]
    bytes_at_part [of 114 9 187 p k a]
  by (auto simp: open_read_loaded_def)

lemma readable: "user_range p k a n True \<Longrightarrow> user_range p k a n False"
  by (auto simp: user_range_def intro: page_at_weaken)

text \<open>It stays loaded while other parts of the state change and while its buffer is filled.\<close>

lemma open_read_loaded_cong:
  assumes "open_read_loaded p a k" and "memory k' = memory k" and "cpu_regs k' = cpu_regs k"
  shows "open_read_loaded p a k'"
  using assms bytes_at_cong [of k' k] by (simp add: open_read_loaded_def user_range_def page_at_def)

lemma open_read_loaded_delivered:
  assumes x: "x86_laws (x86 p)" and l: "open_read_loaded p a k" and d: "delivered p (a + 123) bs k k'"
    and len: "length bs \<le> 64"
  shows "open_read_loaded p a k'"
proof -
  have "same_space p k k'" using d by (simp add: delivered_def)
  then have range: "user_range p k' a 187 True" using l by (simp add: user_range_same open_read_loaded_def)
  have "byte_at p k' (a + of_nat i) = byte_at p k (a + of_nat i)" if i: "i < 114" for i
  proof -
    have "unat a + 4096 \<le> 2 ^ 47" "user_range p k a 187 False" using l readable by (auto simp: open_read_loaded_def)
    then have a: "unat (a + of_nat i) = unat a + i" "unat (a + of_nat i) < 2 ^ 47" "page_at p k (a + of_nat i) False"
      using i by (auto simp: unat_word_ariths unat_of_nat user_range_def)
    have "a + of_nat i \<noteq> a + 123 + of_nat j" if "j < length bs" for j
    proof -
      have u: "unat (of_nat i :: u64) = i" "unat (of_nat (123 + j) :: u64) = 123 + j"
        using i that len by (intro unat_of_nat_u64; simp)+
      have "(of_nat i :: u64) \<noteq> of_nat (123 + j)"
      proof
        assume "(of_nat i :: u64) = of_nat (123 + j)"
        then have "unat (of_nat i :: u64) = unat (of_nat (123 + j) :: u64)" by (rule arg_cong)
        then show False using i unfolding u by linarith
      qed
      then show ?thesis by (simp add: add.assoc)
    qed
    then show ?thesis using d a unfolding delivered_def by blast
  qed
  then have "take 114 (bytes_at p k' a 187) = take 114 (bytes_at p k a 187)"
    by (intro nth_equalityI) (simp_all add: nth_bytes_at)
  then show ?thesis using range l by (simp add: open_read_loaded_def)
qed

lemma exit_turns:
  assumes "syscall_ready p k" and z: "turns k = Some (r, c, None)"
  shows "\<exists>k'. exit_current_thread p k = Inr k' \<and> screen k' = screen k \<and> turns k' = Some (tl r, hd (tl r), Some c)"
proof -
  obtain k' where k': "exit_current_thread p k = Inr k'" "caller_gone p k k'" using exit_gone [OF assms(1)] by blast
  obtain st st' where st: "scheduler k = Some st" "scheduler k' = Some st'" "rotation st' = tl (rotation st)" "zombie st' = Some (current st)"
    using k'(2) by (auto simp: caller_gone_def)
  have "rotation st = r" "current st = c" using st(1) z by (simp_all add: turns_def)
  moreover have "current st' = hd (rotation st')" by (simp add: rotation_def)
  ultimately show ?thesis using st k'(1) exit_io [OF k'(1)] by (auto simp: turns_def)
qed

lemma small_length:
  assumes "n \<le> 64"
  shows "unat (min (of_nat n) 1024 :: u64) = n" and "min (of_nat n) 1024 = (of_nat n :: u64)"
proof -
  have "unat (of_nat n :: u64) = n" by (rule unat_of_nat_u64) (use assms in simp)
  then show "unat (min (of_nat n) 1024 :: u64) = n" "min (of_nat n) 1024 = (of_nat n :: u64)"
    using assms by (simp_all add: min_def word_le_nat_alt)
qed

text \<open>The three calls before the exit.\<close>

lemma open_read_calls_answer:
  assumes ready: "syscall_ready p k" and z: "turns k = Some (r, c, None)" and l: "open_read_loaded p a k"
    and path: "bytes_at p k (a + 114) 9 = OPEN_READ_DEMO_PATH"
    and found: "read_file (fs_read_sector (ata_ports p)) (heap_room p (heap k)) OPEN_READ_DEMO_PATH (disk k) = Some (Inr (Some contents, d))"
    and t: "current_thread k = Some t" "None \<in> set (open_files t)"
  obtains fd n k1 k2 k3 where "sys_open p (a + 114) 9 k = give fd k1" "sys_read p fd (a + 123) 64 k1 = give n k2"
    "sys_write p 1 (a + 123) n k2 = give n k3" "open_read_loaded p a k1" "open_read_loaded p a k2" "open_read_loaded p a k3"
    "syscall_ready p k3" "turns k3 = Some (r, c, None)"
    "write_string (case from_utf8 (take 64 contents) of
       Some s \<Rightarrow> s | None \<Rightarrow> map of_char ''<sys_write: invalid utf-8>'') (screen k) = Inr (screen k3)"
proof -
  note x = syscall_readyD(1) [OF ready]
  have utf8: "from_utf8 OPEN_READ_DEMO_PATH \<noteq> None" by (simp add: OPEN_READ_DEMO_PATH_def)
  have range: "user_range p k (a + 114) (unat (9 :: u64)) False" "bytes_at p k (a + 114) (unat (9 :: u64)) = OPEN_READ_DEMO_PATH"
    using readable [OF open_read_loadedD(3) [OF x l]] path by simp_all
  obtain fd fs where o: "sys_open p (a + 114) 9 k = give fd (with_files (k\<lparr>disk := d\<rparr>) fs)" "2 \<le> fd"
      "current_thread (with_files (k\<lparr>disk := d\<rparr>) fs) = Some (t\<lparr>open_files := fs\<rparr>)"
      "fd_file (t\<lparr>open_files := fs\<rparr>) fd = Some \<lparr>file_data = contents, file_offset = 0\<rparr>"
      "syscall_ready p (with_files (k\<lparr>disk := d\<rparr>) fs)"
    using sys_open_opens [OF ready _ _ range utf8 found t] by auto
  define k1 where "k1 = with_files (k\<lparr>disk := d\<rparr>) fs"
  have l1: "open_read_loaded p a k1" by (rule open_read_loaded_cong [OF l]) (simp_all add: k1_def)
  have z1: "turns k1 = Some (r, c, None)" "screen k1 = screen k" using z by (simp_all add: k1_def)
  define bs where "bs = take 64 contents"
  obtain fs2 k2 where r: "sys_read p fd (a + 123) 64 k1 = give (of_nat (length bs)) k2" "delivered p (a + 123) bs (with_files k1 fs2) k2"
      "syscall_ready p (with_files k1 fs2)"
    using sys_read_delivers [OF o(5) _ o(3,2,4), of 64 "a + 123"] open_read_loadedD(2) [OF x l1, of 64]
    by (auto simp: k1_def bs_def unread_def)
  have l2: "open_read_loaded p a k2"
    by (rule open_read_loaded_delivered [OF x open_read_loaded_cong [OF l1] r(2)]) (simp_all add: bs_def)
  have k2: "k2 = (with_files k1 fs2)\<lparr>memory := memory k2\<rparr>" "same_space p (with_files k1 fs2) k2" "bytes_at p k2 (a + 123) (length bs) = bs"
    using r(2) by (simp_all add: delivered_def)
  have z2: "turns k2 = Some (r, c, None)" "screen k2 = screen k" by (subst k2(1), simp add: z1)+
  have ready2: "syscall_ready p k2" using syscall_ready_memory [OF r(3), of r c "memory k2"] z1 k2 by simp
  obtain w where w: "write_string (case from_utf8 bs of Some s \<Rightarrow> s | None \<Rightarrow> map of_char ''<sys_write: invalid utf-8>'') (screen k) = Inr w"
      "writer_ok w" "sys_write p 1 (a + 123) (of_nat (length bs)) k2 = give (of_nat (length bs)) (k2\<lparr>screen := w\<rparr>)"
    using sys_write_prints [OF ready2, of "a + 123" "of_nat (length bs)"] readable [OF open_read_loadedD(2) [OF x l2, of "length bs"]]
      k2(3) z2(2) small_length [of "length bs"] by (auto simp: bs_def)
  have "open_read_loaded p a (k2\<lparr>screen := w\<rparr>)" by (rule open_read_loaded_cong [OF l2]) simp_all
  moreover have "syscall_ready p (k2\<lparr>screen := w\<rparr>)"
    using syscall_ready_update [OF ready2 w(2) syscall_readyD(6) [OF ready2]] by simp
  ultimately show thesis
    using that [of fd k1 "of_nat (length bs)" k2 "k2\<lparr>screen := w\<rparr>"] o(1) r(1) w l1 l2 z2(1) by (simp add: k1_def bs_def)
qed

lemma open_read_demo_run:
  assumes ready: "syscall_ready p k" and z: "turns k = Some (r, c, None)" and l: "open_read_loaded p a k"
    and path: "bytes_at p k (a + 114) 9 = OPEN_READ_DEMO_PATH"
    and found: "read_file (fs_read_sector (ata_ports p)) (heap_room p (heap k)) OPEN_READ_DEMO_PATH (disk k) = Some (Inr (Some contents, d))"
    and t: "current_thread k = Some t" "None \<in> set (open_files t)"
  shows "\<exists>k'. run_calls p others a 187 4 (program_start g) k = Some (Inr (Gone, k'))
    \<and> write_string (case from_utf8 (take 64 contents) of
          Some s \<Rightarrow> s | None \<Rightarrow> map of_char ''<sys_write: invalid utf-8>'') (screen k) = Inr (screen k')
    \<and> turns k' = Some (tl r, hd (tl r), Some c)"
proof -
  note x = syscall_readyD(1) [OF ready]
  obtain fd n k1 k2 k3 where calls: "sys_open p (a + 114) 9 k = give fd k1" "sys_read p fd (a + 123) 64 k1 = give n k2"
      "sys_write p 1 (a + 123) n k2 = give n k3"
    and l': "open_read_loaded p a k1" "open_read_loaded p a k2" "open_read_loaded p a k3"
    and k3: "syscall_ready p k3" "turns k3 = Some (r, c, None)"
    and out: "write_string (case from_utf8 (take 64 contents) of
       Some s \<Rightarrow> s | None \<Rightarrow> map of_char ''<sys_write: invalid utf-8>'') (screen k) = Inr (screen k3)"
    by (rule open_read_calls_answer [OF assms])
  obtain k' where k': "exit_current_thread p k3 = Inr k'" "screen k' = screen k3" "turns k' = Some (tl r, hd (tl r), Some c)"
    using exit_turns [OF k3] by blast
  have four: "(4 :: nat) = Suc (Suc (Suc (Suc 0)))" by simp
  note runs = open_read_runs(1) [OF open_read_loadedD(1) [OF x l]] open_read_runs(2) [OF open_read_loadedD(1) [OF x l'(1)]]
    open_read_runs(3) [OF open_read_loadedD(1) [OF x l'(2)]] open_read_runs(4) [OF open_read_loadedD(1) [OF x l'(3)]]
  have "run_calls p others a 187 4 (program_start g) k = Some (Inr (Gone, k'))"
    unfolding four using calls k'(1)
    by (simp add: runs program_start_def dispatch_numbers reg_defs del: run_to_call_numeral)
  then show ?thesis using k' out by simp
qed

end
