(* ===== verification/Spec2Isabelle.thy ===== *)
theory Spec2Isabelle
  imports Syscall_Sample Executor Interrupts Program_Runs
begin

text \<open>
  Verification of the Velora OS kernel, a Rust kernel for x86-64 with preemptive threads, isolated
  address spaces, programs in ring 3 and a read-only FAT16 disk.

  \<^bold>\<open>The program.\<close> The bootloader enters \<open>kernel_main\<close>, which sets up segments and interrupts, the frame
  allocator, the heap, the keyboard queue and the scheduler, and starts threads. A timer interrupt
  switches between threads. A thread may have an address space of its own, drop to ring 3 and call the
  kernel with \<open>int 0x80\<close>; the system calls read and write the terminal, open and read files, and load,
  start and await other programs. A task of the kernel decodes scancodes, which the keyboard interrupt
  queues, into the bytes that programs read. A thread that exits leaves its slot, stack and address
  space to be freed by the next scheduling decision.

  \<^bold>\<open>Conventions of the model.\<close> A struct is a record, an enum a datatype, a machine integer a word, and a
  pointer an address. An operation takes the state it changes and gives the new one. A panic is a value
  (\<open>Inl\<close> of the type \<open>result\<close> in \<^verbatim>\<open>Prelude\<close>), and so are an index out of range, an \<open>expect\<close> on \<open>None\<close> and,
  as in the debug profile, an overflow of plain \<open>+\<close>, \<open>-\<close> and \<open>*\<close>. A loop that need not end is a
  \<open>partial_function\<close> in the option monad, where \<open>None\<close> is not returning. Code of other crates is an
  argument: the x86_64 crate's addresses and page tables (\<open>x86_api\<close>, \<open>translate_page\<close>, \<open>map_to\<close>), the heap
  (\<open>heap_alloc\<close>), array queues, wakers, the scancode decoder, and the tables of segments and
  interrupts. What the proofs use of it is a named predicate about its documented behaviour
  (\<open>x86_laws\<close>, \<open>heap_laws\<close>, \<open>mapper_laws\<close>, \<open>bounded_fifo\<close>, \<open>gdt_laws\<close>, \<open>idt_laws\<close>, \<open>ata_contract\<close> and
  others), which a concrete instance satisfies in the sample theories. Devices are port functions on an
  abstract state. The locks of the source are not modelled: the kernel runs on one processor, and where
  interrupts can come between two critical sections these are two steps.

  \<^bold>\<open>Theories and what they show.\<close>

  \<^item> \<^verbatim>\<open>Prelude\<close>: panics and results, checked arithmetic, slices, bytes of integers. \<^verbatim>\<open>Ring_Queue\<close>: ring
    buffers, and the interface \<open>bounded_fifo\<close> of a bounded queue, which the input queue and the ready
    queue implement. \<^verbatim>\<open>X86\<close>: addresses, pages and page-table entries.
  \<^item> \<^verbatim>\<open>Vga\<close> (\<open>vga_buffer.rs\<close>): the text writer never leaves its array, and a printed line is what the
    screen shows. \<^verbatim>\<open>Keyboard\<close> (\<open>task/keyboard.rs\<close>): typed keys reach the reader in order, and a full
    queue drops new bytes. \<^verbatim>\<open>Executor\<close> (\<open>task/executor.rs\<close>, \<open>task/mod.rs\<close>): the main loop, with
    interrupts between its operations and the instructions of \<open>sleep_if_idle\<close>, as a labelled step relation; a woken task is polled
    before the processor halts, and the queue is bounded.
  \<^item> \<^verbatim>\<open>Frame_Alloc\<close> (\<open>memory.rs\<close>): no frame is handed out twice, by the interface \<open>frame_source\<close>, which the
    boot allocator and the global one implement. \<^verbatim>\<open>Paging\<close> (\<open>memory.rs\<close>): the check of user ranges is
    exact, a new address space shares two entries only, and freeing one frees exactly its frames.
  \<^item> \<^verbatim>\<open>Ata\<close> (\<open>ata.rs\<close>): a sector is read as the device holds it. \<^verbatim>\<open>Fs\<close> (\<open>fs.rs\<close>): names, the directory and
    cluster chains, by the interface \<open>sector_device\<close>; contents, and termination on every disk with the
    two panics that a damaged one can cause.
  \<^item> \<^verbatim>\<open>Context\<close> (\<open>scheduler/context.rs\<close>): the context switch by instructions. \<^verbatim>\<open>Threads\<close> and \<^verbatim>\<open>Scheduler\<close>
    (\<open>scheduler/mod.rs\<close>): the state and every operation. \<^verbatim>\<open>Sched_Inv\<close>: the invariant and the effect of each
    operation. \<^verbatim>\<open>Sched_Steps\<close> and \<^verbatim>\<open>Sched_Contexts\<close>: the kernel as a transition system whose steps are the
    critical sections, and what all interleavings keep. \<^verbatim>\<open>Sched_Props\<close>, \<^verbatim>\<open>Sched_Life\<close> and
    \<^verbatim>\<open>Sched_Resources\<close>: the rotation is fair, suspended threads resume as they were, CR3 and RSP0 follow
    the thread, exited threads are reclaimed, process ids are not reused, files are delivered; and one
    interleaving of two exits that loses a thread. \<^verbatim>\<open>Sched_Sample\<close>: a concrete kernel.
  \<^item> \<^verbatim>\<open>Elf\<close>, \<^verbatim>\<open>Elf_Props\<close>, \<^verbatim>\<open>Elf_Sample\<close> (\<open>elf.rs\<close>): a loaded program has its segments, stack and arguments
    at their addresses, with their rights; a segment that is too big panics the kernel.
  \<^item> \<^verbatim>\<open>Syscall\<close> (\<open>syscall.rs\<close>), \<^verbatim>\<open>User_Memory\<close>, \<^verbatim>\<open>Syscall_Props\<close>, \<^verbatim>\<open>Syscall_Types\<close>, \<^verbatim>\<open>Syscall_Sample\<close>: the outcome
    of the calls for all arguments, in terms of the bytes of user memory; a bad pointer ends the thread
    and never the kernel; all calls keep the state well typed. \<^verbatim>\<open>Syscall_Entry\<close>: the entry code by
    instructions, which keeps every register but RAX.
  \<^item> \<^verbatim>\<open>Ring3\<close> (\<open>gdt.rs\<close>, \<open>enter_ring3\<close> of \<open>userspace.rs\<close>): entering ring 3, for any registers that the compiler takes
    for the operands of the assembly block, and the way through a system call and back. \<^verbatim>\<open>Interrupts\<close>
    (\<open>interrupts.rs\<close>): the gates and the handlers.
  \<^item> \<^verbatim>\<open>Userspace\<close> and \<^verbatim>\<open>User_Programs\<close> (\<open>userspace.rs\<close>): the builders of the demo programs, and that the
    bytes they produce make the documented system calls; the test executable is read back by the loader.
  \<^item> \<^verbatim>\<open>Program_Runs\<close>: a program in ring 3 run against \<open>dispatch\<close>, call by call. The theorem of this theory
    composes the parts: the open/read demo, as assembled, prints the file from the disk and exits.

  \<^bold>\<open>Bounds and fuel.\<close> The constants of the source (16 threads, 4 files, 128 input bytes, 100 scancodes,
  128 ready tasks, 10000000 polls of the disk) are those of the model. \<open>run_to_call\<close> has fuel for 16
  instructions, more than any demo program has between two system calls, and the theorems about it
  show that it is enough. No other definition has fuel: the remaining loops are structural, have a
  termination proof, or are partial functions with theorems about when they return.

  \<^bold>\<open>Not modelled.\<close> Formatting beyond the messages that are written out, the serial port, and the locks.
  The flags of CR3 and the translation cache: the kernel never changes the flags, and it writes CR3
  whenever it changes the active table. The instructions of compiled Rust code: functions run
  to completion except where the source lets an interrupt in. The heap is a contract, not an
  implementation; it holds the stacks of the threads, while vectors and boxes are values, and of their
  allocations only the one whose size a file on the disk decides is asked for room (\<open>heap_room\<close>).
  \<open>kernel_main\<close> and \<open>lib.rs\<close> call the operations above once, in a
  fixed order, and print; the state they establish is \<open>init\<close> of the scheduler in \<open>reachable\<close>.
  The programs in \<open>disk/\<close>, \<open>build.rs\<close> and the integration tests are not part
  of the kernel.
\<close>

section \<open>A program and the kernel together\<close>

text \<open>C5. The program of the open/read demo, as \<open>build_open_read_shellcode\<close> assembles it for the page \<open>a\<close>, run
  in ring 3 from the memory of its thread with any initial registers: its four system calls find
  HELLO.TXT on the disk, read its first 64 bytes into the program's buffer, print them, and end the
  thread, which is then the zombie, while the next thread of the rotation runs. This spans the assembler,
  the address space, the file system, the file descriptors, the terminal and the scheduler.\<close>

theorem open_read_demo_prints_file:
  assumes ready: "syscall_ready p k" and st: "scheduler k = Some st" "zombie st = None"
    and a: "unat a + 4096 \<le> 2 ^ 47" and code: "build_open_read_shellcode a = Inr code"
    and mem: "user_range p k a (length code) True" "bytes_at p k a (length code) = code"
    and found: "read_file (fs_read_sector (ata_ports p)) (heap_room p (heap k)) OPEN_READ_DEMO_PATH (disk k) = Some (Inr (Some contents, d))"
    and t: "current_thread k = Some t" "None \<in> set (open_files t)"
  shows "\<exists>k' st'. run_calls p others a (length code) 4 (program_start g) k = Some (Inr (Gone, k'))
    \<and> write_string (case from_utf8 (take 64 contents) of
          Some s \<Rightarrow> s | None \<Rightarrow> map of_char ''<sys_write: invalid utf-8>'') (screen k) = Inr (screen k')
    \<and> scheduler k' = Some st' \<and> rotation st' = tl (rotation st) \<and> zombie st' = Some (current st)"
proof -
  have c: "code = image_of (open_read_listing (a + 114) (a + 123)) (OPEN_READ_DEMO_PATH @ replicate 64 0)"
    using open_read_assembled [of a] a code by simp
  note parts = open_read_image_parts [where path = "a + 114" and buf = "a + 123", folded c]
  have l: "open_read_loaded p a k" using a mem parts by (simp add: open_read_loaded_def)
  have path: "bytes_at p k (a + 114) 9 = OPEN_READ_DEMO_PATH"
    using open_read_loadedD(4) [OF syscall_readyD(1) [OF ready] l] mem(2) parts by simp
  have z: "turns k = Some (rotation st, current st, None)" using st by (simp add: turns_def)
  show ?thesis using open_read_demo_run [OF ready z l path found t, of others g] parts(1) by (auto simp: turns_def split: option.splits)
qed

theorem open_read_demo_prints_file_witness:
  "\<exists>k k' code. build_open_read_shellcode 0x8000000000 = Inr code
     \<and> run_calls sample_platform (\<lambda>k. k) 0x8000000000 (length code) 4 (program_start (\<lambda>_. 0)) k = Some (Inr (Gone, k'))
     \<and> write_string [0x48, 0x69, 0x0A] (screen k) = Inr (screen k')"
proof -
  define code where "code = image_of (open_read_listing (0x8000000000 + 114) (0x8000000000 + 123)) (OPEN_READ_DEMO_PATH @ replicate 64 0)"
  have built: "build_open_read_shellcode 0x8000000000 = Inr code" using open_read_assembled [of "0x8000000000"] by (simp add: code_def)
  have len: "length code = 187" by (simp add: code_def open_read_image_parts)
  obtain k0 where k0: "sample_caller (\<lambda>i. if i < 187 then code ! i else 0) k0" using sample_caller_exists by blast
  note ready = sample_ready [OF k0]
  obtain t where t: "current_thread k0 = Some t"
    using syscall_readyD(8) [OF ready] sched_ok_current current_thread_def by (metis option.simps(5))
  let ?fs = "[None, None, None, None] :: OpenFile option list" and ?k = "with_files k0 [None, None, None, None]"
  have "files_ok (t\<lparr>open_files := ?fs\<rparr>)" by (simp add: files_ok_def MAX_OPEN_FILES_def)
  then have k1: "kernel_ok (x86 sample_platform) ?k" "current_thread ?k = Some (t\<lparr>open_files := ?fs\<rparr>)"
    using file_call [OF syscall_readyD(2) [OF ready] t, of "\<lambda>t. Inr ((), t\<lparr>open_files := ?fs\<rparr>)"] by auto
  note after = syscall_ready_with_files [OF ready t k1(1)]
  have r: "user_range sample_platform ?k 0x8000000000 (length code) True"
    unfolding user_range_same [OF after(2)] by (rule sample_range [OF k0]) (simp add: len)
  have "bytes_at sample_platform k0 0x8000000000 (length code) = code"
    by (rule nth_equalityI) (simp_all add: nth_bytes_at len sample_byte [OF k0])
  then have b: "bytes_at sample_platform ?k 0x8000000000 (length code) = code"
    using bytes_at_cong [of ?k k0] by simp
  obtain d where d: "read_file (fs_read_sector (ata_ports sample_platform)) (heap_room sample_platform (heap ?k)) OPEN_READ_DEMO_PATH (disk ?k) = Some (Inr (Some [0x48, 0x69, 0x0A], d))"
    using sample_read [of "heap_room sample_platform []", OF sample_heap_room] k0 by (auto simp: sample_platform_def sample_caller_def OPEN_READ_DEMO_PATH_def sample_name_def)
  obtain st where "scheduler k0 = Some st" "zombie st = None" using k0 by (auto simp: sample_caller_def)
  then have "turns k0 = Some (rotation st, current st, None)" by (simp add: turns_def)
  then have "turns ?k = Some (rotation st, current st, None)" by simp
  then obtain st1 where st1: "scheduler ?k = Some st1" "zombie st1 = None" by (auto simp: turns_def split: option.splits)
  have "unat (0x8000000000 :: u64) + 4096 \<le> 2 ^ 47" by simp
  from open_read_demo_prints_file [OF after(1) st1 this built r b d k1(2), of "\<lambda>k. k" "\<lambda>_. 0"]
  obtain k' where "run_calls sample_platform (\<lambda>k. k) 0x8000000000 (length code) 4 (program_start (\<lambda>_. 0)) ?k = Some (Inr (Gone, k'))"
      "write_string [0x48, 0x69, 0x0A] (screen ?k) = Inr (screen k')" by auto
  then show ?thesis using built by blast
qed

end
